(* ===== verification/Prelude.thy ===== *)
theory Prelude
  imports Main "HOL-Library.Word"
begin

text \<open>
  Shared vocabulary of the development: the machine types of the Rust sources, the
  state-and-error monad in which the asynchronous handlers are written, and the generic
  lemmas on lists and words that the component theories use.

  A Rust function returning \<open>Result<T, E>\<close> is a value of \<open>'e + 'a\<close> (\<open>Inl\<close> the error).
  A handler that reads and writes its environment is a function
  \<open>'s \<Rightarrow> ('e + 'a) \<times> 's\<close>: the final state is returned on every path, so that the
  effects performed before an early return or a \<^verbatim>\<open>?\<close> stay visible.
\<close>

section \<open>Machine types\<close>

type_synonym u8 = "8 word"
type_synonym u16 = "16 word"
type_synonym u32 = "32 word"
type_synonym u64 = "64 word"
type_synonym i32 = "32 word"
type_synonym i64 = "64 word"
type_synonym bytes = "u8 list"

text \<open>Instants and durations are counted in milliseconds on a monotone clock.\<close>

type_synonym millis = nat

section \<open>Collections of rules\<close>

named_theorems io_simps
named_theorems keeps_intros

section \<open>The state-and-error monad\<close>

type_synonym ('s, 'e, 'a) io = "'s \<Rightarrow> ('e + 'a) \<times> 's"

definition ret :: "'a \<Rightarrow> ('s, 'e, 'a) io" where
  "ret x = (\<lambda>s. (Inr x, s))"

definition bail :: "'e \<Rightarrow> ('s, 'e, 'a) io" where
  "bail e = (\<lambda>s. (Inl e, s))"

text \<open>\<open>m?\<close> followed by the rest of the function.\<close>

definition bindM :: "('s, 'e, 'a) io \<Rightarrow> ('a \<Rightarrow> ('s, 'e, 'b) io) \<Rightarrow> ('s, 'e, 'b) io" where
  "bindM m f = (\<lambda>s. case m s of (Inl e, s') \<Rightarrow> (Inl e, s') | (Inr x, s') \<Rightarrow> f x s')"

text \<open>\<open>let _ = m;\<close>: the error is dropped, the effects stay.\<close>

definition ignoreM :: "('s, 'e, 'a) io \<Rightarrow> ('s, 'e, unit) io" where
  "ignoreM m = (\<lambda>s. (Inr (), snd (m s)))"

definition seqM :: "('s, 'e, 'a) io \<Rightarrow> ('s, 'e, 'b) io \<Rightarrow> ('s, 'e, 'b) io" where
  "seqM m k = bindM m (\<lambda>_. k)"

definition getM :: "('s, 'e, 's) io" where
  "getM = (\<lambda>s. (Inr s, s))"

definition modifyM :: "('s \<Rightarrow> 's) \<Rightarrow> ('s, 'e, unit) io" where
  "modifyM f = (\<lambda>s. (Inr (), f s))"

lemma ret_apply [io_simps]: "ret x s = (Inr x, s)"
  by (simp add: ret_def)

lemma bail_apply [io_simps]: "bail e s = (Inl e, s)"
  by (simp add: bail_def)

lemma bindM_apply [io_simps]:
  "bindM m f s = (case m s of (Inl e, s') \<Rightarrow> (Inl e, s') | (Inr x, s') \<Rightarrow> f x s')"
  by (simp add: bindM_def)

lemma ignoreM_apply [io_simps]: "ignoreM m s = (Inr (), snd (m s))"
  by (simp add: ignoreM_def)

lemma seqM_apply [io_simps]:
  "seqM m k s = (case m s of (Inl e, s') \<Rightarrow> (Inl e, s') | (Inr x, s') \<Rightarrow> k s')"
  by (simp add: seqM_def bindM_def)

lemma getM_apply [io_simps]: "getM s = (Inr s, s)"
  by (simp add: getM_def)

lemma modifyM_apply [io_simps]: "modifyM f s = (Inr (), f s)"
  by (simp add: modifyM_def)

lemma bindM_Inr_iff:
  "bindM m f s = (Inr y, t) \<longleftrightarrow> (\<exists>x u. m s = (Inr x, u) \<and> f x u = (Inr y, t))"
  by (auto simp: bindM_def split: prod.splits sum.splits)

lemma seqM_Inr_iff:
  "seqM m k s = (Inr y, t) \<longleftrightarrow> (\<exists>x u. m s = (Inr x, u) \<and> k u = (Inr y, t))"
  by (simp add: seqM_def bindM_Inr_iff)

lemma bindM_ret_left [simp]: "bindM (ret x) f = f x"
  by (rule ext) (simp add: bindM_def ret_def)

lemma bindM_bail [simp]: "bindM (bail e) f = bail e"
  by (rule ext) (simp add: bindM_def bail_def)

lemma bindM_assoc: "bindM (bindM m f) g = bindM m (\<lambda>x. bindM (f x) g)"
  by (rule ext) (auto simp: bindM_def split: prod.splits sum.splits)

subsection \<open>Relations between the state before and after a handler\<close>

text \<open>
  \<open>keeps R m\<close>: on every path, error paths included, the state a handler leaves behind is
  related by \<open>R\<close> to the one it started from. For a reflexive and transitive \<open>R\<close> the rules
  below follow the shape of the handler.
\<close>

definition keeps :: "('s \<Rightarrow> 's \<Rightarrow> bool) \<Rightarrow> ('s, 'e, 'a) io \<Rightarrow> bool" where
  "keeps R m \<longleftrightarrow> (\<forall>s. R s (snd (m s)))"

locale state_order =
  fixes R :: "'s \<Rightarrow> 's \<Rightarrow> bool"
  assumes R_refl: "R s s"
    and R_trans: "R s t \<Longrightarrow> R t u \<Longrightarrow> R s u"
begin

lemma keeps_ret: "keeps R (ret x)"
  by (simp add: keeps_def ret_def R_refl)

lemma keeps_bail: "keeps R (bail e)"
  by (simp add: keeps_def bail_def R_refl)

lemma keeps_getM: "keeps R getM"
  by (simp add: keeps_def getM_def R_refl)

lemma keeps_bindM:
  assumes "keeps R m" and "\<And>x. keeps R (f x)"
  shows "keeps R (bindM m f)"
  unfolding keeps_def
proof
  fix s
  obtain r t where m: "m s = (r, t)" by (cases "m s")
  with assms(1) have st: "R s t" by (metis keeps_def snd_conv)
  show "R s (snd (bindM m f s))"
  proof (cases r)
    case (Inl e)
    with m st show ?thesis by (simp add: bindM_def)
  next
    case (Inr x)
    from assms(2) have "R t (snd (f x t))" by (simp add: keeps_def)
    with st have "R s (snd (f x t))" by (rule R_trans)
    with m Inr show ?thesis by (simp add: bindM_def)
  qed
qed

lemma keeps_seqM: "keeps R m \<Longrightarrow> keeps R k \<Longrightarrow> keeps R (seqM m k)"
  by (simp add: seqM_def keeps_bindM)

lemma keeps_ignoreM: "keeps R m \<Longrightarrow> keeps R (ignoreM m)"
  by (simp add: keeps_def ignoreM_def)

lemma keeps_modifyM: "(\<And>s. R s (f s)) \<Longrightarrow> keeps R (modifyM f)"
  by (simp add: keeps_def modifyM_def)

end

section \<open>Lists\<close>

lemma filter_distinct_removeAll: "filter (\<lambda>y. y \<noteq> x) xs = removeAll x xs"
  by (induction xs) auto

lemma take_append_exact [simp]: "length xs = n \<Longrightarrow> take n (xs @ ys) = xs"
  by simp

lemma drop_append_exact [simp]: "length xs = n \<Longrightarrow> drop n (xs @ ys) = ys"
  by simp

section \<open>Words\<close>

unbundle bit_operations_syntax

lemma word_or_eq_0_iff: "(a OR b = 0) \<longleftrightarrow> (a = 0 \<and> b = 0)" for a b :: "'a::len word"
  by (metis or.right_neutral or_eq_0_iff)

lemma word_xor_eq_0_iff: "(a XOR b = 0) \<longleftrightarrow> (a = b)" for a b :: "'a::len word"
  by (metis xor.left_neutral xor.right_neutral xor_self_eq xor.assoc)

lemma u8_unat_less [simp]: "unat (b :: u8) < 256"
  using unsigned_less [of b] by simp

lemma u16_unat_less [simp]: "unat (p :: u16) < 65536"
  using unsigned_less [of p] by simp

lemma u32_unat_less [simp]: "unat (p :: u32) < 4294967296"
  using unsigned_less [of p] by simp

end
