(* ===== verification/Rust_Str.thy ===== *)
theory Rust_Str
  imports Prelude
begin

text \<open>
  The parts of Rust's string library that the sources use. A \<open>String\<close> is its UTF-8 encoding,
  a \<open>string\<close> whose characters are bytes; \<open>len()\<close> is therefore \<open>length\<close>. Trimming knows every
  white-space character of Unicode by its encoding. The case mappings change the ASCII
  letters and those characters outside ASCII whose image is a pure ASCII string; every other
  character stays as it is. Such a character is mapped by Rust to something that is still not
  ASCII, so comparing an image with an ASCII constant, which is all the sources do with one,
  gives the same answer.
\<close>

section \<open>Bytes of a string\<close>

definition as_bytes :: "string \<Rightarrow> bytes" where
  "as_bytes s = map (\<lambda>c. word_of_nat (of_char c)) s"

definition of_bytes :: "bytes \<Rightarrow> string" where
  "of_bytes bs = map (\<lambda>b. char_of (unat b)) bs"

lemma of_bytes_as_bytes [simp]: "of_bytes (as_bytes s) = s"
proof -
  have "char_of (unat (word_of_nat (of_char c) :: u8)) = c" for c :: char
    by (simp add: unat_of_nat)
  then show ?thesis by (simp add: of_bytes_def as_bytes_def o_def)
qed

lemma as_bytes_of_bytes [simp]: "as_bytes (of_bytes bs) = bs"
proof -
  have "word_of_nat (of_char (char_of (unat b))) = b" for b :: u8
    by (simp add: of_char_of)
  then show ?thesis by (simp add: of_bytes_def as_bytes_def o_def map_idI)
qed

lemma as_bytes_inject [simp]: "as_bytes s = as_bytes t \<longleftrightarrow> s = t"
  by (metis of_bytes_as_bytes)

lemma length_as_bytes [simp]: "length (as_bytes s) = length s"
  by (simp add: as_bytes_def)

lemma length_of_bytes [simp]: "length (of_bytes bs) = length bs"
  by (simp add: of_bytes_def)

section \<open>Prefixes, searching, splitting\<close>

fun starts_with :: "string \<Rightarrow> string \<Rightarrow> bool" where
  "starts_with s [] = True"
| "starts_with [] (p # ps) = False"
| "starts_with (c # cs) (p # ps) = (c = p \<and> starts_with cs ps)"

lemma starts_with_iff: "starts_with s p \<longleftrightarrow> (\<exists>t. s = p @ t)"
  by (induction s p rule: starts_with.induct) auto

text \<open>\<open>str::contains\<close> of a string.\<close>

fun str_contains :: "string \<Rightarrow> string \<Rightarrow> bool" where
  "str_contains [] p = (p = [])"
| "str_contains (c # cs) p = (starts_with (c # cs) p \<or> str_contains cs p)"

text \<open>\<open>str::split\<close> at a one-byte character: always at least one, possibly empty, piece.\<close>

fun split_char :: "char \<Rightarrow> string \<Rightarrow> string list" where
  "split_char d [] = [[]]"
| "split_char d (c # cs) =
     (if c = d then [] # split_char d cs
      else (case split_char d cs of [] \<Rightarrow> [[c]] | p # ps \<Rightarrow> (c # p) # ps))"

lemma split_char_not_Nil [simp]: "split_char d s \<noteq> []"
  by (induction s) (auto split: list.splits)

lemma split_char_pieces: "p \<in> set (split_char d s) \<Longrightarrow> d \<notin> set p"
  by (induction s arbitrary: p) (auto split: list.splits if_splits)

lemma split_char_piece_set: "p \<in> set (split_char d s) \<Longrightarrow> set p \<subseteq> set s"
proof (induction s arbitrary: p)
  case Nil
  then show ?case by simp
next
  case (Cons c s)
  show ?case
  proof (cases "split_char d s")
    case Nil
    then show ?thesis by simp
  next
    case (Cons q qs)
    with Cons.IH Cons.prems show ?thesis
      by (fastforce split: if_splits)
  qed
qed

text \<open>\<open>str::find\<close> of a character: what is before and after its first occurrence.\<close>

fun split_first :: "char \<Rightarrow> string \<Rightarrow> (string \<times> string) option" where
  "split_first d [] = None"
| "split_first d (c # cs) =
     (if c = d then Some ([], cs) else map_option (\<lambda>(a, b). (c # a, b)) (split_first d cs))"

lemma split_first_append [simp]: "d \<notin> set a \<Longrightarrow> split_first d (a @ d # b) = Some (a, b)"
  by (induction a) auto

lemma split_first_None_iff: "split_first d s = None \<longleftrightarrow> d \<notin> set s"
  by (induction s) auto

lemma split_first_SomeD: "split_first d s = Some (a, b) \<Longrightarrow> s = a @ d # b \<and> d \<notin> set a"
  by (induction s arbitrary: a b) (auto split: if_splits)

text \<open>\<open>str::rsplit_once\<close>: what is before and after the last occurrence.\<close>

definition rsplit_once :: "char \<Rightarrow> string \<Rightarrow> (string \<times> string) option" where
  "rsplit_once d s = map_option (\<lambda>(a, b). (rev b, rev a)) (split_first d (rev s))"

lemma rsplit_once_append [simp]:
  "d \<notin> set b \<Longrightarrow> rsplit_once d (a @ d # b) = Some (a, b)"
  by (simp add: rsplit_once_def)

section \<open>Trimming\<close>

text \<open>The characters with Unicode property White\_Space, encoded in UTF-8.\<close>

definition white_space :: "string list" where
  "white_space =
     map (\<lambda>n. [char_of (n::nat)]) [9, 10, 11, 12, 13, 32] @
     map (map (char_of :: nat \<Rightarrow> char))
       ([[0xC2, 0x85], [0xC2, 0xA0], [0xE1, 0x9A, 0x80],
         [0xE2, 0x80, 0x80], [0xE2, 0x80, 0x81], [0xE2, 0x80, 0x82], [0xE2, 0x80, 0x83],
         [0xE2, 0x80, 0x84], [0xE2, 0x80, 0x85], [0xE2, 0x80, 0x86], [0xE2, 0x80, 0x87],
         [0xE2, 0x80, 0x88], [0xE2, 0x80, 0x89], [0xE2, 0x80, 0x8A], [0xE2, 0x80, 0xA8],
         [0xE2, 0x80, 0xA9], [0xE2, 0x80, 0xAF], [0xE2, 0x81, 0x9F], [0xE3, 0x80, 0x80]])"

lemma white_space_not_Nil: "e \<in> set white_space \<Longrightarrow> e \<noteq> []"
  by (auto simp: white_space_def)

text \<open>Strip encodings of the list from the front as long as one of them is there.\<close>

function strip_front :: "string list \<Rightarrow> string \<Rightarrow> string" where
  "strip_front es s =
     (case find (\<lambda>e. e \<noteq> [] \<and> starts_with s e) es of
        None \<Rightarrow> s
      | Some e \<Rightarrow> strip_front es (drop (length e) s))"
  by pat_completeness auto
termination
proof (relation "measure (\<lambda>(es, s). length s)", goal_cases)
  case 1
  show ?case by simp
next
  case (2 es s e)
  then have "e \<noteq> []" and "starts_with s e"
    by (auto simp: find_Some_iff)
  then show ?case by (auto simp: starts_with_iff)
qed

declare strip_front.simps [simp del]

definition trim_start :: "string \<Rightarrow> string" where
  "trim_start s = strip_front white_space s"

definition trim_end :: "string \<Rightarrow> string" where
  "trim_end s = rev (strip_front (map rev white_space) (rev s))"

definition trim :: "string \<Rightarrow> string" where
  "trim s = trim_end (trim_start s)"

lemma strip_front_id:
  assumes "\<And>e. e \<in> set es \<Longrightarrow> e \<noteq> [] \<Longrightarrow> \<not> starts_with s e"
  shows "strip_front es s = s"
proof -
  have "find (\<lambda>e. e \<noteq> [] \<and> starts_with s e) es = None"
    using assms by (auto simp: find_None_iff)
  then show ?thesis by (subst strip_front.simps) simp
qed

lemma strip_front_suffix: "\<exists>p. s = p @ strip_front es s"
proof (induction es s rule: strip_front.induct)
  case (1 es s)
  show ?case
  proof (cases "find (\<lambda>e. e \<noteq> [] \<and> starts_with s e) es")
    case None
    then show ?thesis by (subst strip_front.simps) simp
  next
    case (Some e)
    with 1 obtain p where "drop (length e) s = p @ strip_front es (drop (length e) s)"
      by blast
    then have "s = (take (length e) s @ p) @ strip_front es (drop (length e) s)"
      by (metis append.assoc append_take_drop_id)
    moreover from Some have "strip_front es s = strip_front es (drop (length e) s)"
      by (subst strip_front.simps) simp
    ultimately show ?thesis by metis
  qed
qed

lemma set_strip_front: "set (strip_front es s) \<subseteq> set s"
  by (metis Un_upper2 set_append strip_front_suffix)

lemma set_trim: "set (trim s) \<subseteq> set s"
  using set_strip_front [of "map rev white_space" "rev (trim_start s)"]
    set_strip_front [of white_space s]
  by (auto simp: trim_def trim_end_def trim_start_def)

section \<open>Case mapping\<close>

definition is_ascii :: "char \<Rightarrow> bool" where
  "is_ascii c \<longleftrightarrow> (of_char c :: nat) < 128"

definition is_ascii_upper :: "char \<Rightarrow> bool" where
  "is_ascii_upper c \<longleftrightarrow> 65 \<le> (of_char c :: nat) \<and> (of_char c :: nat) \<le> 90"

definition is_ascii_lower :: "char \<Rightarrow> bool" where
  "is_ascii_lower c \<longleftrightarrow> 97 \<le> (of_char c :: nat) \<and> (of_char c :: nat) \<le> 122"

definition is_ascii_alphabetic :: "char \<Rightarrow> bool" where
  "is_ascii_alphabetic c \<longleftrightarrow> is_ascii_upper c \<or> is_ascii_lower c"

definition is_ascii_digit :: "char \<Rightarrow> bool" where
  "is_ascii_digit c \<longleftrightarrow> 48 \<le> (of_char c :: nat) \<and> (of_char c :: nat) \<le> 57"

definition ascii_lower :: "char \<Rightarrow> char" where
  "ascii_lower c = (if is_ascii_upper c then char_of ((of_char c :: nat) + 32) else c)"

definition ascii_upper :: "char \<Rightarrow> char" where
  "ascii_upper c = (if is_ascii_lower c then char_of ((of_char c :: nat) - 32) else c)"

text \<open>The Kelvin sign (U+212A) is the one character outside ASCII with an ASCII lower case.\<close>

fun to_lowercase :: "string \<Rightarrow> string" where
  "to_lowercase [] = []"
| "to_lowercase (a # b # c # cs) =
     (if [a, b, c] = map char_of [0xE2 :: nat, 0x84, 0xAA] then CHR ''k'' # to_lowercase cs
      else ascii_lower a # to_lowercase (b # c # cs))"
| "to_lowercase (a # cs) = ascii_lower a # to_lowercase cs"

text \<open>
  Outside ASCII, dotless i (U+0131), long s (U+017F), sharp s (U+00DF) and the Latin
  ligatures (U+FB00 to U+FB06) have an ASCII upper case.
\<close>

definition upper_ligature :: "char \<Rightarrow> string option" where
  "upper_ligature c =
     (let n = (of_char c :: nat) in
      if n = 0x80 then Some ''FF'' else if n = 0x81 then Some ''FI''
      else if n = 0x82 then Some ''FL'' else if n = 0x83 then Some ''FFI''
      else if n = 0x84 then Some ''FFL'' else if n = 0x85 then Some ''ST''
      else if n = 0x86 then Some ''ST'' else None)"

definition upper_two :: "char \<Rightarrow> char \<Rightarrow> string option" where
  "upper_two a b =
     (let m = (of_char a :: nat); n = (of_char b :: nat) in
      if m = 0xC4 \<and> n = 0xB1 then Some ''I''
      else if m = 0xC5 \<and> n = 0xBF then Some ''S''
      else if m = 0xC3 \<and> n = 0x9F then Some ''SS'' else None)"

fun to_uppercase :: "string \<Rightarrow> string" where
  "to_uppercase [] = []"
| "to_uppercase [a] = [ascii_upper a]"
| "to_uppercase (a # b # cs) =
     (case upper_two a b of
        Some u \<Rightarrow> u @ to_uppercase cs
      | None \<Rightarrow>
          (case cs of
             [] \<Rightarrow> ascii_upper a # to_uppercase (b # cs)
           | c # ds \<Rightarrow>
               (case (if a = char_of (0xEF :: nat) \<and> b = char_of (0xAC :: nat)
                      then upper_ligature c else None) of
                  Some u \<Rightarrow> u @ to_uppercase ds
                | None \<Rightarrow> ascii_upper a # to_uppercase (b # cs))))"

definition ascii :: "string \<Rightarrow> bool" where
  "ascii s \<longleftrightarrow> list_all is_ascii s"

lemma ascii_simps [simp]: "ascii []" "ascii (c # s) \<longleftrightarrow> is_ascii c \<and> ascii s"
  by (simp_all add: ascii_def)

lemma to_lowercase_ascii: "ascii s \<Longrightarrow> to_lowercase s = map ascii_lower s"
  by (induction s rule: to_lowercase.induct) (auto simp: is_ascii_def)

lemma to_uppercase_ascii: "ascii s \<Longrightarrow> to_uppercase s = map ascii_upper s"
  by (induction s rule: to_uppercase.induct)
    (auto simp: is_ascii_def upper_two_def split: list.splits)

text \<open>\<open>str::eq_ignore_ascii_case\<close>.\<close>

definition eq_ignore_ascii_case :: "string \<Rightarrow> string \<Rightarrow> bool" where
  "eq_ignore_ascii_case s t \<longleftrightarrow> map ascii_lower s = map ascii_lower t"

section \<open>Numbers\<close>

definition digit_char :: "nat \<Rightarrow> char" where
  "digit_char d = char_of (48 + d)"

text \<open>\<open>format!("{}", n)\<close>.\<close>

fun show_nat :: "nat \<Rightarrow> string" where
  "show_nat n = (if n < 10 then [digit_char n] else show_nat (n div 10) @ [digit_char (n mod 10)])"

declare show_nat.simps [simp del]

definition digit_val :: "char \<Rightarrow> nat option" where
  "digit_val c = (if is_ascii_digit c then Some ((of_char c :: nat) - 48) else None)"

fun parse_digits :: "nat \<Rightarrow> string \<Rightarrow> nat option" where
  "parse_digits acc [] = Some acc"
| "parse_digits acc (c # cs) =
     (case digit_val c of None \<Rightarrow> None | Some d \<Rightarrow> parse_digits (10 * acc + d) cs)"

text \<open>
  \<open>str::parse::<u16>\<close>: no empty input, an optional plus sign in front of at least one digit,
  and no value above \<open>u16::MAX\<close>.
\<close>

definition parse_u16 :: "string \<Rightarrow> u16 option" where
  "parse_u16 s =
     (let body = (case s of c # cs \<Rightarrow> if c = CHR ''+'' then cs else s | [] \<Rightarrow> []) in
      if body = [] then None
      else (case parse_digits 0 body of
              None \<Rightarrow> None
            | Some n \<Rightarrow> if n < 65536 then Some (word_of_nat n) else None))"

lemma digit_char_props:
  assumes "d < 10"
  shows "digit_val (digit_char d) = Some d" "is_ascii_digit (digit_char d)"
  using assms by (auto simp: digit_val_def digit_char_def is_ascii_digit_def of_char_of)

lemma parse_digits_append:
  "parse_digits acc (s @ t) =
     (case parse_digits acc s of None \<Rightarrow> None | Some n \<Rightarrow> parse_digits n t)"
  by (induction s arbitrary: acc) (auto split: option.splits)

lemma parse_digits_show_nat: "parse_digits 0 (show_nat n) = Some n"
proof (induction n rule: show_nat.induct)
  case (1 n)
  show ?case
  proof (cases "n < 10")
    case True
    then show ?thesis by (subst show_nat.simps) (simp add: digit_char_props)
  next
    case False
    then have "parse_digits 0 (show_nat (n div 10)) = Some (n div 10)" by (rule 1)
    with False show ?thesis
      by (subst show_nat.simps) (simp add: parse_digits_append digit_char_props)
  qed
qed

lemma show_nat_not_Nil [simp]: "show_nat n \<noteq> []"
  by (subst show_nat.simps) simp

lemma show_nat_digits: "c \<in> set (show_nat n) \<Longrightarrow> is_ascii_digit c"
proof (induction n rule: show_nat.induct)
  case (1 n)
  show ?case
  proof (cases "n < 10")
    case True
    with "1.prems" show ?thesis by (subst (asm) show_nat.simps) (simp add: digit_char_props)
  next
    case False
    with 1 show ?thesis
      by (subst (asm) show_nat.simps) (auto simp: digit_char_props)
  qed
qed

lemma not_digit_show_nat: "\<not> is_ascii_digit c \<Longrightarrow> c \<notin> set (show_nat n)"
  by (auto dest: show_nat_digits)

lemma show_nat_inject [simp]: "show_nat m = show_nat n \<longleftrightarrow> m = n"
  by (metis option.inject parse_digits_show_nat)

lemma parse_u16_show_nat: "parse_u16 (show_nat (unat p)) = Some p"
proof -
  have "CHR ''+'' \<notin> set (show_nat (unat p))"
    by (rule not_digit_show_nat) (simp add: is_ascii_digit_def)
  then have "(case show_nat (unat p) of c # cs \<Rightarrow> if c = CHR ''+'' then cs else show_nat (unat p)
      | [] \<Rightarrow> []) = show_nat (unat p)"
    by (cases "show_nat (unat p)") auto
  then show ?thesis
    by (simp add: parse_u16_def Let_def parse_digits_show_nat)
qed

end
