(* ===== verification/Addr.thy ===== *)
theory Addr
  imports Rust_Str
begin

text \<open>
  \<^verbatim>\<open>client/src/addr.rs\<close>: splitting an address into host and port, and putting it together again.
\<close>

section \<open>Definitions\<close>

datatype addr_error =
    EmptyAddress
  | MissingBracket string
  | EmptyHost string
  | InvalidPort string string
  | TrailingCharacters string

definition parse_bracketed :: "string \<Rightarrow> string \<Rightarrow> u16 \<Rightarrow> addr_error + string \<times> u16" where
  "parse_bracketed s rest default_port =
     (case split_first (CHR '']'') rest of
        None \<Rightarrow> Inl (MissingBracket s)
      | Some (host, after) \<Rightarrow>
          if host = [] then Inl (EmptyHost s)
          else (case after of
                  [] \<Rightarrow> Inr (host, default_port)
                | c # p \<Rightarrow>
                    if c = CHR '':'' then
                      (case parse_u16 p of
                         None \<Rightarrow> Inl (InvalidPort s p)
                       | Some port \<Rightarrow> Inr (host, port))
                    else Inl (TrailingCharacters s)))"

definition parse_host_port :: "string \<Rightarrow> u16 \<Rightarrow> addr_error + string \<times> u16" where
  "parse_host_port s0 default_port =
     (let s = trim s0 in
      if s = [] then Inl EmptyAddress
      else if hd s = CHR ''['' then parse_bracketed s (tl s) default_port
      else (let colons = length (filter (\<lambda>c. c = CHR '':'') s) in
            if colons = 0 then Inr (s, default_port)
            else if colons = 1 then
              (case rsplit_once (CHR '':'') s of
                 None \<Rightarrow> Inl EmptyAddress
               | Some (host, port_str) \<Rightarrow>
                   if host = [] then Inl (EmptyHost s)
                   else (case parse_u16 port_str of
                           None \<Rightarrow> Inl (InvalidPort s port_str)
                         | Some port \<Rightarrow> Inr (host, port)))
            else Inr (s, default_port)))"

definition format_host_port :: "string \<Rightarrow> u16 \<Rightarrow> string" where
  "format_host_port host port =
     (if CHR '':'' \<in> set host then ''['' @ host @ '']:'' @ show_nat (unat port)
      else host @ '':'' @ show_nat (unat port))"

section \<open>Trimming leaves visible text alone\<close>

definition visible :: "char \<Rightarrow> bool" where
  "visible c \<longleftrightarrow> 32 < (of_char c :: nat) \<and> (of_char c :: nat) < 128"

lemma visible_not_space:
  assumes "visible c" and "e \<in> set white_space"
  shows "\<not> starts_with (c # s) e" and "\<not> starts_with (c # s) (rev e)"
  using assms by (auto simp: white_space_def visible_def of_char_of)

lemma trim_visible:
  assumes "s \<noteq> []" and "visible (hd s)" and "visible (last s)"
  shows "trim s = s"
proof -
  have "trim_start s = s"
    unfolding trim_start_def
    using assms(1,2) visible_not_space(1) [of "hd s" _ "tl s"] by (intro strip_front_id) auto
  moreover have "trim_end s = s"
  proof -
    have r: "rev s = last s # rev (butlast s)"
      using assms(1) by (metis append_butlast_last_id rev.simps(2) rev_rev_ident)
    have "strip_front (map rev white_space) (rev s) = rev s"
      using visible_not_space(2) [OF assms(3), of _ "rev (butlast s)"]
      by (intro strip_front_id) (auto simp: r)
    then show ?thesis by (simp add: trim_end_def)
  qed
  ultimately show ?thesis by (simp add: trim_def)
qed

lemma visible_digit: "is_ascii_digit c \<Longrightarrow> visible c"
  by (simp add: visible_def is_ascii_digit_def)

lemma last_show_nat: "visible (last (show_nat n))"
  by (rule visible_digit, rule show_nat_digits [of _ n]) simp

lemma colon_not_in_show_nat [simp]: "CHR '':'' \<notin> set (show_nat n)"
  by (rule not_digit_show_nat) (simp add: is_ascii_digit_def)

lemma parse_format:
  assumes "host \<noteq> []" and "visible (hd host)" and "hd host \<noteq> CHR ''[''" and "CHR '']'' \<notin> set host"
  shows "parse_host_port (format_host_port host port) default_port = Inr (host, port)"
proof (cases "CHR '':'' \<in> set host")
  case True
  let ?s = "''['' @ host @ '']:'' @ show_nat (unat port)"
  have "trim ?s = ?s"
    by (rule trim_visible) (use last_show_nat in \<open>auto simp: visible_def\<close>)
  moreover have "split_first (CHR '']'') (host @ CHR '']'' # '':'' @ show_nat (unat port)) =
      Some (host, '':'' @ show_nat (unat port))"
    by (rule split_first_append [OF assms(4)])
  ultimately show ?thesis
    using True assms(1)
    by (simp add: format_host_port_def parse_host_port_def parse_bracketed_def Let_def
        parse_u16_show_nat)
next
  case False
  let ?s = "host @ CHR '':'' # show_nat (unat port)"
  have "trim ?s = ?s"
    by (rule trim_visible) (use assms(1,2) last_show_nat in auto)
  moreover have "hd ?s = hd host" using assms(1) by simp
  moreover have "length (filter (\<lambda>c. c = CHR '':'') ?s) = 1"
    using False by (auto simp: filter_empty_conv)
  moreover have "rsplit_once (CHR '':'') ?s = Some (host, show_nat (unat port))"
    by (rule rsplit_once_append) simp
  ultimately show ?thesis
    using False assms(1,3)
    by (simp add: format_host_port_def parse_host_port_def Let_def parse_u16_show_nat del: hd_append2)
qed

section \<open>Properties\<close>

text \<open>
  An address survives formatting and parsing. A host that begins with a visible ASCII
  character other than a bracket and contains no closing bracket comes back unchanged with its
  port, whatever the default port, also when it is an IPv6 literal.
\<close>

theorem host_port_round_trip:
  assumes "host \<noteq> []" and "visible (hd host)" and "hd host \<noteq> CHR ''[''" and "CHR '']'' \<notin> set host"
  shows "parse_host_port (format_host_port host port) default_port = Inr (host, port)"
  using assms by (rule parse_format)

theorem host_port_round_trip_witness:
  "parse_host_port (format_host_port ''fe80::1'' 4001) 4000 = Inr (''fe80::1'', 4001)"
  by (rule host_port_round_trip) (simp_all add: visible_def)

lemma rsplit_once_SomeD: "rsplit_once d s = Some (a, b) \<Longrightarrow> s = a @ d # b"
proof -
  assume "rsplit_once d s = Some (a, b)"
  then have "split_first d (rev s) = Some (rev b, rev a)" by (auto simp: rsplit_once_def)
  from split_first_SomeD [OF this] show ?thesis by (simp add: rev_swap)
qed

text \<open>
  What an accepted address can be. Whenever an address is accepted, its host is a non-empty
  part of the address, and a port other than the default was written there after a colon.
\<close>

theorem parse_host_port_host:
  assumes "parse_host_port s default_port = Inr (host, port)"
  shows "host \<noteq> [] \<and> set host \<subseteq> set s \<and>
    (port = default_port \<or> (\<exists>q p. trim s = q @ CHR '':'' # p \<and> parse_u16 p = Some port))"
proof -
  have "host \<noteq> [] \<and> set host \<subseteq> set (trim s) \<and>
    (port = default_port \<or> (\<exists>q p. trim s = q @ CHR '':'' # p \<and> parse_u16 p = Some port))"
  proof (cases "trim s")
    case Nil
    with assms show ?thesis by (simp add: parse_host_port_def)
  next
    case (Cons c cs)
    show ?thesis
    proof (cases "c = CHR ''[''")
      case True
      with assms Cons have p: "parse_bracketed (trim s) cs default_port = Inr (host, port)"
        by (simp add: parse_host_port_def)
      then obtain after where after: "split_first (CHR '']'') cs = Some (host, after)" and h: "host \<noteq> []"
        by (auto simp: parse_bracketed_def split: option.splits if_splits list.splits)
      note cs = split_first_SomeD [OF after]
      from p after h have "port = default_port \<or> (\<exists>p. after = CHR '':'' # p \<and> parse_u16 p = Some port)"
        by (auto simp: parse_bracketed_def split: option.splits if_splits list.splits)
      then show ?thesis
      proof
        assume "\<exists>p. after = CHR '':'' # p \<and> parse_u16 p = Some port"
        then obtain p where "after = CHR '':'' # p" "parse_u16 p = Some port" by blast
        with cs Cons have "trim s = (c # host @ '']'') @ CHR '':'' # p" by simp
        moreover have "set host \<subseteq> set (trim s)" using cs Cons by auto
        ultimately show ?thesis using \<open>parse_u16 p = Some port\<close> h by blast
      qed (use h cs Cons in auto)
    next
      case False
      with Cons have "trim s \<noteq> []" "hd (trim s) \<noteq> CHR ''[''" by simp_all
      with assms show ?thesis
        by (auto simp: parse_host_port_def Let_def split: if_splits option.splits
            dest!: rsplit_once_SomeD)
    qed
  qed
  with set_trim show ?thesis by blast
qed

theorem parse_host_port_host_witness:
  "''nas'' \<noteq> [] \<and> set ''nas'' \<subseteq> set ''nas'' \<and>
   ((4000 :: u16) = 4000 \<or> (\<exists>q p. trim ''nas'' = q @ CHR '':'' # p \<and> parse_u16 p = Some (4000 :: u16)))"
proof -
  have "trim ''nas'' = ''nas''" by (rule trim_visible) (simp_all add: visible_def)
  then have "parse_host_port ''nas'' 4000 = Inr (''nas'', 4000)" by (simp add: parse_host_port_def)
  from parse_host_port_host [OF this] show ?thesis .
qed

end
