(* ===== verification/Protocol.thy ===== *)
theory Protocol
  imports Rust_Str
begin

text \<open>
  The wire protocol of \<^verbatim>\<open>common/src/lib.rs\<close>: the messages, the pairing proof, and the framing
  that puts a four-byte big-endian length in front of every serialized envelope.

  SHA-256 (crate \<open>sha2\<close>) and the serialization of an envelope (crate \<open>bincode\<close>) are not part
  of the repository. They are arguments of the definitions: \<open>sha\<close>, and a pair \<open>ser\<close>, \<open>de\<close>
  whose only law is that deserializing a serialized envelope gives it back (locale
  \<open>envelope_codec\<close>).
\<close>

section \<open>Messages\<close>

definition PROTOCOL_VERSION :: string where
  "PROTOCOL_VERSION = ''0.2.0''"

definition DEFAULT_CONTROL_PORT :: u16 where
  "DEFAULT_CONTROL_PORT = 4000"

definition DEFAULT_FILE_PORT :: u16 where
  "DEFAULT_FILE_PORT = 4001"

definition MAX_ENVELOPE_SIZE :: nat where
  "MAX_ENVELOPE_SIZE = 10 * 1024 * 1024"

record caps =
  clipboard :: bool
  file_transfer :: bool
  internet_share :: bool

definition caps_default :: caps where
  "caps_default = \<lparr>clipboard = True, file_transfer = True, internet_share = False\<rparr>"

datatype mouse_button = MB_Left | MB_Right | MB_Middle | MB_Back | MB_Forward

datatype event =
    MouseDelta i32 i32
  | MouseButtonPress mouse_button
  | MouseButtonRelease mouse_button
  | Wheel i32 i32
  | KeyPress u32 u8
  | KeyRelease u32 u8
  | ReleaseAll

text \<open>Fixed-size arrays are byte lists; \<open>wf_envelope\<close> states their lengths.\<close>

type_synonym uuid = "128 word"

datatype envelope =
    Hello (hello_name: string) (hello_version: string) (hello_caps: caps)
  | HelloAck (ack_file_port: u16) (ack_server_name: string)
  | PairRequest (req_nonce: bytes) (req_fingerprint: string) (req_proof: bytes)
  | PairAccept
  | PairReject string
  | ToggleForward bool
  | Input event
  | ClipboardSet string
  | FileOffer uuid string u64 bytes
  | FileAccept uuid u64
  | FileReject uuid string
  | FileComplete uuid
  | Ping u64
  | Pong u64
  | ErrorMsg string
  | Goodbye

definition wf_envelope :: "envelope \<Rightarrow> bool" where
  "wf_envelope e \<longleftrightarrow>
     (case e of
        PairRequest nonce fp proof \<Rightarrow> length nonce = 16 \<and> length proof = 32
      | FileOffer _ _ _ digest \<Rightarrow> length digest = 32
      | _ \<Rightarrow> True)"

text \<open>The modifier bits of \<^verbatim>\<open>kvm_common::modifiers\<close>.\<close>

definition CTRL :: u8 where "CTRL = push_bit 0 1"
definition ALT :: u8 where "ALT = push_bit 1 1"
definition SHIFT :: u8 where "SHIFT = push_bit 2 1"
definition META :: u8 where "META = push_bit 3 1"

lemmas modifier_bits = CTRL_def ALT_def SHIFT_def META_def

datatype io_error = UnexpectedEof | BrokenPipe

datatype protocol_error =
    Io io_error
  | Serialization
  | InvalidMessage
  | VersionMismatch
  | PairingRejected string
  | ConnectionClosed

section \<open>The pairing proof\<close>

definition proof_message :: "string \<Rightarrow> bytes \<Rightarrow> string \<Rightarrow> bytes" where
  "proof_message pin nonce fingerprint =
     as_bytes pin @ [0] @ nonce @ [0] @ as_bytes fingerprint"

definition pairing_proof :: "(bytes \<Rightarrow> bytes) \<Rightarrow> string \<Rightarrow> bytes \<Rightarrow> string \<Rightarrow> bytes" where
  "pairing_proof sha pin nonce fingerprint = sha (proof_message pin nonce fingerprint)"

text \<open>The accumulating comparison loop, shared by \<open>proof_matches\<close> and the SOCKS5 server.\<close>

fun xor_diff :: "u8 \<Rightarrow> (u8 \<times> u8) list \<Rightarrow> u8" where
  "xor_diff diff [] = diff"
| "xor_diff diff ((x, y) # ps) = xor_diff (diff OR (x XOR y)) ps"

definition proof_matches :: "bytes \<Rightarrow> bytes \<Rightarrow> bool" where
  "proof_matches a b \<longleftrightarrow> xor_diff 0 (zip a b) = 0"

lemma xor_diff_zero_iff: "xor_diff d ps = 0 \<longleftrightarrow> d = 0 \<and> (\<forall>(x, y) \<in> set ps. x = y)"
  by (induction d ps rule: xor_diff.induct) (auto simp: word_or_eq_0_iff word_xor_eq_0_iff)

lemma zip_all_eq_iff:
  "length a = length b \<Longrightarrow> (\<forall>(x, y) \<in> set (zip a b). x = y) \<longleftrightarrow> a = b"
  by (induction a b rule: list_induct2) auto

lemma xor_diff_eq_iff: "length a = length b \<Longrightarrow> xor_diff 0 (zip a b) = 0 \<longleftrightarrow> a = b"
  by (simp add: xor_diff_zero_iff zip_all_eq_iff)

lemma proof_matches_iff: "length a = length b \<Longrightarrow> proof_matches a b \<longleftrightarrow> a = b"
  by (simp add: proof_matches_def xor_diff_eq_iff)

text \<open>The hashed message determines PIN, nonce and fingerprint, when no PIN contains a NUL.\<close>

lemma append_sep_inject:
  "x \<notin> set a \<Longrightarrow> x \<notin> set b \<Longrightarrow> a @ x # c = b @ x # d \<longleftrightarrow> a = b \<and> c = d"
proof (induction a arbitrary: b)
  case Nil
  then show ?case by (cases b) auto
next
  case (Cons y a)
  then show ?case by (cases b) auto
qed

lemma zero_byte_as_bytes: "CHR 0x00 \<notin> set s \<Longrightarrow> 0 \<notin> set (as_bytes s)"
proof -
  assume "CHR 0x00 \<notin> set s"
  moreover have "c = CHR 0x00" if "word_of_nat (of_char c) = (0 :: u8)" for c :: char
  proof -
    from that have "unat (word_of_nat (of_char c) :: u8) = 0" by simp
    then have "(of_char c :: nat) = 0" by (simp add: unat_of_nat)
    then have "c = char_of (0 :: nat)" by (metis char_of_char)
    moreover have "char_of (0 :: nat) = CHR 0x00" by (simp add: char_of_def)
    ultimately show ?thesis by simp
  qed
  ultimately show ?thesis by (auto simp: as_bytes_def)
qed

lemma proof_message_inject:
  assumes "CHR 0x00 \<notin> set pin" "CHR 0x00 \<notin> set pin'" "length nonce = length nonce'"
  shows "proof_message pin nonce fp = proof_message pin' nonce' fp' \<longleftrightarrow>
    pin = pin' \<and> nonce = nonce' \<and> fp = fp'"
  using assms by (auto simp: proof_message_def append_sep_inject zero_byte_as_bytes)

section \<open>Framing\<close>

definition to_be_bytes32 :: "u32 \<Rightarrow> bytes" where
  "to_be_bytes32 w =
     [word_of_nat (unat w div 2 ^ 24), word_of_nat (unat w div 2 ^ 16),
      word_of_nat (unat w div 2 ^ 8), word_of_nat (unat w)]"

definition from_be_bytes :: "bytes \<Rightarrow> nat" where
  "from_be_bytes bs = foldl (\<lambda>acc b. acc * 256 + unat b) 0 bs"

lemma from_be_bytes32: "from_be_bytes (to_be_bytes32 w) = unat w"
proof -
  define n where "n = unat w"
  define a where "a = n div 256"
  define b where "b = a div 256"
  define c where "c = b div 256"
  have "n < 4294967296" by (simp add: n_def)
  moreover have bc: "n div 65536 = b" "n div 16777216 = c"
    by (simp_all add: a_def b_def c_def flip: div_mult2_eq)
  ultimately have c: "c mod 256 = c" by (simp flip: bc)
  have steps: "a * 256 + n mod 256 = n" "b * 256 + a mod 256 = a" "c * 256 + b mod 256 = b"
    unfolding a_def b_def c_def by simp_all
  have "((n div 16777216 mod 256 * 256 + n div 65536 mod 256) * 256
      + n div 256 mod 256) * 256 + n mod 256 = n"
    unfolding bc a_def [symmetric] by (simp only: c steps)
  then show ?thesis
    using c unfolding bc [symmetric]
    by (simp add: from_be_bytes_def to_be_bytes32_def unat_of_nat n_def [symmetric])
qed

lemma length_to_be_bytes32 [simp]: "length (to_be_bytes32 w) = 4"
  by (simp add: to_be_bytes32_def)

definition serialize_envelope ::
    "(envelope \<Rightarrow> bytes option) \<Rightarrow> envelope \<Rightarrow> protocol_error + bytes" where
  "serialize_envelope ser e =
     (case ser e of
        None \<Rightarrow> Inl Serialization
      | Some data \<Rightarrow>
          if length data > MAX_ENVELOPE_SIZE then Inl InvalidMessage
          else Inr (to_be_bytes32 (word_of_nat (length data)) @ data))"

definition deserialize_envelope ::
    "(bytes \<Rightarrow> envelope option) \<Rightarrow> bytes \<Rightarrow> protocol_error + envelope" where
  "deserialize_envelope de data = (case de data of None \<Rightarrow> Inl Serialization | Some e \<Rightarrow> Inr e)"

text \<open>
  A byte stream in both directions: \<open>rx\<close> what the peer sends before it closes its side,
  \<open>tx\<close> what has been written, \<open>tx_room\<close> how many more bytes can be written before the
  connection breaks (\<open>None\<close> if it never does).
\<close>

record wire =
  rx :: bytes
  tx :: bytes
  tx_room :: "nat option"

definition read_exact :: "nat \<Rightarrow> (wire, protocol_error, bytes) io" where
  "read_exact n = (\<lambda>w.
     if n \<le> length (rx w) then (Inr (take n (rx w)), w\<lparr>rx := drop n (rx w)\<rparr>)
     else (Inl (Io UnexpectedEof), w\<lparr>rx := []\<rparr>))"

definition write_all :: "bytes \<Rightarrow> (wire, protocol_error, unit) io" where
  "write_all data = (\<lambda>w.
     case tx_room w of
       None \<Rightarrow> (Inr (), w\<lparr>tx := tx w @ data\<rparr>)
     | Some k \<Rightarrow>
         if length data \<le> k then (Inr (), w\<lparr>tx := tx w @ data, tx_room := Some (k - length data)\<rparr>)
         else (Inl (Io BrokenPipe), w\<lparr>tx := tx w @ take k data, tx_room := Some 0\<rparr>))"

definition liftR :: "'e + 'a \<Rightarrow> ('s, 'e, 'a) io" where
  "liftR r = (\<lambda>s. (r, s))"

lemma liftR_apply [io_simps]: "liftR r s = (r, s)"
  by (simp add: liftR_def)

definition read_envelope ::
    "(bytes \<Rightarrow> envelope option) \<Rightarrow> (wire, protocol_error, envelope) io" where
  "read_envelope de =
     bindM (read_exact 4) (\<lambda>len_buf.
     let len = from_be_bytes len_buf in
     if len > MAX_ENVELOPE_SIZE then bail InvalidMessage
     else bindM (read_exact len) (\<lambda>data. liftR (deserialize_envelope de data)))"

definition send_envelope ::
    "(envelope \<Rightarrow> bytes option) \<Rightarrow> envelope \<Rightarrow> (wire, protocol_error, unit) io" where
  "send_envelope ser e = bindM (liftR (serialize_envelope ser e)) write_all"

text \<open>The reader task of a connection: read envelopes until the first error.\<close>

function read_loop :: "(bytes \<Rightarrow> envelope option) \<Rightarrow> wire \<Rightarrow> envelope list" where
  "read_loop de w =
     (case read_envelope de w of
        (Inl _, _) \<Rightarrow> []
      | (Inr e, w') \<Rightarrow> e # read_loop de w')"
  by pat_completeness auto
termination
proof (relation "measure (\<lambda>(de, w). length (rx w))", goal_cases)
  case 1
  show ?case by simp
next
  case (2 de w x xa e)
  then have "read_envelope de w = (Inr e, xa)" by simp
  then show ?case
    by (auto simp: read_envelope_def read_exact_def bindM_def bail_def Let_def liftR_def
        split: if_splits prod.splits sum.splits)
qed

declare read_loop.simps [simp del]

text \<open>The writer task: send envelopes until the first error.\<close>

fun send_loop :: "(envelope \<Rightarrow> bytes option) \<Rightarrow> envelope list \<Rightarrow> wire \<Rightarrow> wire" where
  "send_loop ser [] w = w"
| "send_loop ser (e # es) w =
     (case send_envelope ser e w of (Inl _, w') \<Rightarrow> w' | (Inr _, w') \<Rightarrow> send_loop ser es w')"

subsection \<open>The serialization contract and its consequences\<close>

locale envelope_codec =
  fixes ser :: "envelope \<Rightarrow> bytes option"
    and de :: "bytes \<Rightarrow> envelope option"
  assumes de_ser: "wf_envelope e \<Longrightarrow> ser e = Some bs \<Longrightarrow> de bs = Some e"
begin

lemma read_serialized:
  assumes "wf_envelope e" and "serialize_envelope ser e = Inr bs" and "rx w = bs @ rest"
  shows "read_envelope de w = (Inr e, w\<lparr>rx := rest\<rparr>)"
proof -
  from assms(2) obtain data where s: "ser e = Some data"
    and small: "length data \<le> MAX_ENVELOPE_SIZE"
    and bs: "bs = to_be_bytes32 (word_of_nat (length data)) @ data"
    by (auto simp: serialize_envelope_def split: option.splits if_splits)
  from small have len: "unat (word_of_nat (length data) :: u32) = length data"
    by (simp add: MAX_ENVELOPE_SIZE_def unat_of_nat)
  from assms(1) s have "de data = Some e" by (rule de_ser)
  with small assms(3) bs len show ?thesis
    by (simp add: read_envelope_def read_exact_def bindM_def Let_def from_be_bytes32
        liftR_def deserialize_envelope_def)
qed

lemma read_loop_serialized:
  assumes "\<And>e. e \<in> set es \<Longrightarrow> wf_envelope e"
    and "list_all2 (\<lambda>e b. serialize_envelope ser e = Inr b) es frames"
    and "rx w = concat frames"
  shows "read_loop de w = es"
  using assms
proof (induction es arbitrary: frames w)
  case Nil
  then have "read_envelope de w = (Inl (Io UnexpectedEof), w\<lparr>rx := []\<rparr>)"
    by (simp add: read_envelope_def read_exact_def bindM_def)
  then show ?case by (subst read_loop.simps) simp
next
  case (Cons e es)
  then obtain b fs where "frames = b # fs" and b: "serialize_envelope ser e = Inr b"
    and fs: "list_all2 (\<lambda>e b. serialize_envelope ser e = Inr b) es fs"
    by (auto simp: list_all2_Cons1)
  with Cons.prems have "read_envelope de w = (Inr e, w\<lparr>rx := concat fs\<rparr>)"
    by (intro read_serialized) auto
  moreover have "read_loop de (w\<lparr>rx := concat fs\<rparr>) = es"
    using Cons.prems(1) fs by (intro Cons.IH) auto
  ultimately show ?case by (subst read_loop.simps) simp
qed

end

lemma send_loop_frames:
  assumes "list_all2 (\<lambda>e b. serialize_envelope ser e = Inr b) es frames" and "tx_room w = None"
  shows "send_loop ser es w = w\<lparr>tx := tx w @ concat frames\<rparr>"
  using assms
proof (induction es arbitrary: frames w)
  case Nil
  then show ?case by simp
next
  case (Cons e es)
  then obtain b fs where "frames = b # fs" and b: "serialize_envelope ser e = Inr b"
    and fs: "list_all2 (\<lambda>e b. serialize_envelope ser e = Inr b) es fs"
    by (auto simp: list_all2_Cons1)
  have "send_envelope ser e w = (Inr (), w\<lparr>tx := tx w @ b\<rparr>)"
    using b Cons.prems(2) by (simp add: send_envelope_def bindM_def liftR_def write_all_def)
  moreover have "send_loop ser es (w\<lparr>tx := tx w @ b\<rparr>) = w\<lparr>tx := (tx w @ b) @ concat fs\<rparr>"
    using fs Cons.prems(2) by (subst Cons.IH [OF fs]) simp_all
  ultimately show ?case using \<open>frames = b # fs\<close> by simp
qed

lemma serialize_frames_exist:
  assumes "\<And>e. e \<in> set es \<Longrightarrow> \<exists>b. serialize_envelope ser e = Inr b"
  shows "\<exists>frames. list_all2 (\<lambda>e b. serialize_envelope ser e = Inr b) es frames"
  using assms
proof (induction es)
  case Nil
  then show ?case by simp
next
  case (Cons e es)
  then obtain frames where "list_all2 (\<lambda>e b. serialize_envelope ser e = Inr b) es frames"
    by auto
  moreover obtain b where "serialize_envelope ser e = Inr b"
    using Cons.prems by auto
  ultimately show ?case by (auto intro: exI [of _ "b # frames"])
qed

section \<open>Properties\<close>

lemma read_exact_rx:
  "read_exact n w = (r, w') \<Longrightarrow>
   tx w' = tx w \<and> tx_room w' = tx_room w \<and> (\<exists>k. k \<le> n \<and> rx w' = drop k (rx w))"
  by (auto simp: read_exact_def split: if_splits intro: exI [of _ "length (rx w)"])

text \<open>
  C28: what a length prefix can make the reader do. On any input, well formed or not,
  \<open>read_envelope\<close> takes at most \<open>4 + MAX_ENVELOPE_SIZE\<close> bytes off the stream and writes
  nothing; a prefix above the limit is refused with \<open>InvalidMessage\<close> after exactly four bytes.
\<close>

theorem read_envelope_bounded:
  assumes "read_envelope de w = (r, w')"
  shows "tx w' = tx w \<and>
    (\<exists>k. k \<le> 4 + MAX_ENVELOPE_SIZE \<and> rx w' = drop k (rx w)) \<and>
    (4 \<le> length (rx w) \<and> from_be_bytes (take 4 (rx w)) > MAX_ENVELOPE_SIZE \<longrightarrow>
       r = Inl InvalidMessage \<and> rx w' = drop 4 (rx w))"
proof (cases "read_exact 4 w")
  case (Pair r1 w1)
  obtain k1 where k1: "k1 \<le> 4" "rx w1 = drop k1 (rx w)" and tx1: "tx w1 = tx w"
    using read_exact_rx [OF Pair] by auto
  show ?thesis
  proof (cases r1)
    case (Inl e)
    with Pair assms k1 tx1 show ?thesis
      by (auto simp: read_envelope_def bindM_def read_exact_def split: if_splits
          intro: exI [of _ k1])
  next
    case (Inr hdr)
    with Pair have hdr: "4 \<le> length (rx w)" "hdr = take 4 (rx w)" "rx w1 = drop 4 (rx w)"
      by (auto simp: read_exact_def split: if_splits)
    show ?thesis
    proof (cases "from_be_bytes hdr > MAX_ENVELOPE_SIZE")
      case True
      with Pair Inr assms hdr tx1 show ?thesis
        by (auto simp: read_envelope_def bindM_def bail_def intro: exI [of _ 4])
    next
      case False
      obtain r2 w2 where r2: "read_exact (from_be_bytes hdr) w1 = (r2, w2)"
        by (cases "read_exact (from_be_bytes hdr) w1")
      then obtain k2 where k2: "k2 \<le> from_be_bytes hdr" "rx w2 = drop k2 (rx w1)" "tx w2 = tx w1"
        using read_exact_rx by blast
      have "w' = w2"
        using False Pair Inr assms r2
        by (auto simp: read_envelope_def bindM_def liftR_def Let_def split: sum.splits)
      with False hdr k2 tx1 show ?thesis
        by (auto intro!: exI [of _ "4 + k2"] simp: add.commute)
    qed
  qed
qed

theorem read_envelope_bounded_witness:
  "rx (snd (read_envelope (\<lambda>_. None) \<lparr>rx = [255, 0, 0, 0, 7], tx = [], tx_room = None\<rparr>)) = [7]"
  using read_envelope_bounded
    [of "\<lambda>_. None" "\<lparr>rx = [255, 0, 0, 0, 7], tx = [], tx_room = None\<rparr>", OF prod.collapse [symmetric]]
  by (simp add: from_be_bytes_def MAX_ENVELOPE_SIZE_def)

text \<open>
  A pairing proof answers for one PIN, one nonce and one device. With a digest that does
  not collide on the two messages at hand, the server accepts the proof computed from
  \<open>(pin', nonce', fp')\<close> where it expects \<open>(pin, nonce, fp)\<close> only if all three agree, and it
  always accepts its own.
\<close>

theorem pairing_proof_accepts:
  assumes "\<And>m. length (sha m) = 32"
    and "inj_on sha {proof_message pin nonce fp, proof_message pin' nonce' fp'}"
    and "CHR 0x00 \<notin> set pin" and "CHR 0x00 \<notin> set pin'" and "length nonce = length nonce'"
  shows "proof_matches (pairing_proof sha pin nonce fp) (pairing_proof sha pin' nonce' fp') \<longleftrightarrow>
    pin = pin' \<and> nonce = nonce' \<and> fp = fp'"
proof -
  have "proof_matches (pairing_proof sha pin nonce fp) (pairing_proof sha pin' nonce' fp') \<longleftrightarrow>
      sha (proof_message pin nonce fp) = sha (proof_message pin' nonce' fp')"
    using assms(1) by (simp add: proof_matches_iff pairing_proof_def)
  also have "\<dots> \<longleftrightarrow> proof_message pin nonce fp = proof_message pin' nonce' fp'"
    by (rule inj_on_eq_iff [OF assms(2)]) simp_all
  also have "\<dots> \<longleftrightarrow> pin = pin' \<and> nonce = nonce' \<and> fp = fp'"
    using assms(3-5) by (rule proof_message_inject)
  finally show ?thesis .
qed

text \<open>A stand-in for the digest: the first 32 bytes of the message, padded.\<close>

definition pad32 :: "bytes \<Rightarrow> bytes" where
  "pad32 m = take 32 (m @ replicate 32 255)"

lemma length_pad32 [simp]: "length (pad32 m) = 32"
  by (simp add: pad32_def)

theorem pairing_proof_accepts_witness:
  "\<not> proof_matches (pairing_proof pad32 ''1234'' (replicate 16 7) ''ab'')
      (pairing_proof pad32 ''1235'' (replicate 16 7) ''ab'')"
proof -
  have "length (pad32 m) = 32" for m by (simp add: pad32_def)
  moreover have "pad32 (proof_message ''1234'' (replicate 16 7) ''ab'') \<noteq>
      pad32 (proof_message ''1235'' (replicate 16 7) ''ab'')"
    by code_simp
  then have "inj_on pad32 {proof_message ''1234'' (replicate 16 7) ''ab'',
      proof_message ''1235'' (replicate 16 7) ''ab''}"
    by (simp add: inj_on_def)
  ultimately show ?thesis
    using pairing_proof_accepts [of pad32 "''1234''" "replicate 16 7" "''ab''" "''1235''" "replicate 16 7" "''ab''"]
    by simp
qed

end
