(* ===== verification/ClientConfig.thy ===== *)
theory ClientConfig
  imports Protocol
begin

text \<open>
  \<^verbatim>\<open>client/src/config.rs\<close> and the certificate pinning of \<^verbatim>\<open>client/src/tls.rs\<close>. The table of known
  servers is a map from addresses to entries; random bytes and the time are arguments.
\<close>

section \<open>Hexadecimal\<close>

definition hex_char :: "nat \<Rightarrow> char" where
  "hex_char n = (if n < 10 then char_of (48 + n) else char_of (87 + n))"

definition hex_char_upper :: "nat \<Rightarrow> char" where
  "hex_char_upper n = (if n < 10 then char_of (48 + n) else char_of (55 + n))"

definition hex_encode :: "bytes \<Rightarrow> string" where
  "hex_encode bs = concat (map (\<lambda>b. [hex_char (unat b div 16), hex_char (unat b mod 16)]) bs)"

text \<open>\<open>char::to_digit(16)\<close>\<close>

definition to_digit16 :: "char \<Rightarrow> nat option" where
  "to_digit16 c =
     (let n = (of_char c :: nat) in
      if 48 \<le> n \<and> n \<le> 57 then Some (n - 48)
      else if 97 \<le> n \<and> n \<le> 102 then Some (n - 87)
      else if 65 \<le> n \<and> n \<le> 70 then Some (n - 55)
      else None)"

fun decode_pairs :: "string \<Rightarrow> bytes option" where
  "decode_pairs (a # b # cs) =
     (case (to_digit16 a, to_digit16 b) of
        (Some hi, Some lo) \<Rightarrow>
          map_option (Cons (word_of_nat (hi * 16 + lo))) (decode_pairs cs)
      | _ \<Rightarrow> None)"
| "decode_pairs _ = Some []"

definition hex_decode :: "string \<Rightarrow> bytes option" where
  "hex_decode s = (if even (length s) then decode_pairs s else None)"

lemma to_digit16_hex_char: "n < 16 \<Longrightarrow> to_digit16 (hex_char n) = Some n"
  by (auto simp: to_digit16_def hex_char_def of_char_of)

lemma hex_decode_pair:
  "word_of_nat (unat b div 16 * 16 + unat b mod 16) = (b :: u8)"
proof -
  have "unat b div 16 * 16 + unat b mod 16 = unat b" by simp
  then show ?thesis by simp
qed

lemma length_hex_encode [simp]: "length (hex_encode bs) = 2 * length bs"
  by (induction bs) (simp_all add: hex_encode_def)


lemma decode_pairs_encode: "decode_pairs (hex_encode bs) = Some bs"
proof (induction bs)
  case (Cons b bs)
  have "unat b div 16 < 16" "unat b mod 16 < 16" using u8_unat_less [of b] by (simp_all add: div_less_iff_less_mult)
  with Cons show ?case by (simp add: hex_encode_def to_digit16_hex_char hex_decode_pair)
qed (simp add: hex_encode_def)

section \<open>Data\<close>

record known_server =
  ks_name :: string
  ks_address :: string
  ks_fingerprint :: string
  ks_last_connected :: millis

record client_config =
  last_server :: "string option"
  known_servers :: "string \<rightharpoonup> known_server"
  auto_connect :: bool
  client_secret :: string

definition client_config_default :: client_config where
  "client_config_default =
     \<lparr>last_server = None, known_servers = Map.empty, auto_connect = False, client_secret = []\<rparr>"

section \<open>Files\<close>

text \<open>
  The file system around the configuration file: its text if it can be read, the text of the
  backup, and whether a rename works.
\<close>

record config_files =
  cf_main :: "string option"
  cf_backup :: "string option"
  cf_rename_ok :: bool

definition client_load_or_default ::
    "(string \<Rightarrow> client_config option) \<Rightarrow> config_files \<Rightarrow> client_config \<times> config_files" where
  "client_load_or_default from_toml fs =
     (case cf_main fs of
        None \<Rightarrow> (client_config_default, fs)
      | Some content \<Rightarrow>
          (case from_toml content of
             Some config \<Rightarrow> (config, fs)
           | None \<Rightarrow>
               (client_config_default,
                if cf_rename_ok fs then fs\<lparr>cf_main := None, cf_backup := Some content\<rparr> else fs)))"

definition client_save ::
    "(client_config \<Rightarrow> string option) \<Rightarrow> bool \<Rightarrow> bool \<Rightarrow> client_config \<Rightarrow> config_files \<Rightarrow> bool \<times> config_files" where
  "client_save to_toml dir_ok write_ok config fs =
     (if \<not> dir_ok then (False, fs)
      else (case to_toml config of
              None \<Rightarrow> (False, fs)
            | Some content \<Rightarrow> if write_ok then (True, fs\<lparr>cf_main := Some content\<rparr>) else (False, fs)))"

section \<open>Identity and known servers\<close>

definition ensure_client_secret :: "bytes \<Rightarrow> client_config \<Rightarrow> bool \<times> client_config" where
  "ensure_client_secret random config =
     (if client_secret config = [] then (True, config\<lparr>client_secret := hex_encode random\<rparr>)
      else (False, config))"

definition client_fingerprint :: "(bytes \<Rightarrow> bytes) \<Rightarrow> client_config \<Rightarrow> string" where
  "client_fingerprint sha config =
     (let bs = (case hex_decode (client_secret config) of Some b \<Rightarrow> b | None \<Rightarrow> [])
      in hex_encode (sha bs))"

definition add_known_server_alias ::
    "millis \<Rightarrow> string \<Rightarrow> string \<Rightarrow> string \<Rightarrow> client_config \<Rightarrow> client_config" where
  "add_known_server_alias now name address fingerprint config =
     config\<lparr>known_servers := (known_servers config)(address \<mapsto>
       \<lparr>ks_name = name, ks_address = address, ks_fingerprint = fingerprint, ks_last_connected = now\<rparr>)\<rparr>"

definition add_known_server ::
    "millis \<Rightarrow> string \<Rightarrow> string \<Rightarrow> string \<Rightarrow> client_config \<Rightarrow> client_config" where
  "add_known_server now name address fingerprint config =
     (let config1 = config\<lparr>last_server := Some address\<rparr>
      in config1\<lparr>known_servers := (known_servers config1)(address \<mapsto>
           \<lparr>ks_name = name, ks_address = address, ks_fingerprint = fingerprint,
            ks_last_connected = now\<rparr>)\<rparr>)"

definition known_fingerprint :: "client_config \<Rightarrow> string \<Rightarrow> string option" where
  "known_fingerprint config address = map_option ks_fingerprint (known_servers config address)"

definition forget_server :: "string \<Rightarrow> client_config \<Rightarrow> bool \<times> client_config" where
  "forget_server address config =
     (known_servers config address \<noteq> None,
      config\<lparr>known_servers := (known_servers config)(address := None)\<rparr>)"

text \<open>
  The entries of the table, in the order in which the hash map happens to yield them
  (\<open>entries\<close>), sorted stably by descending time.
\<close>

definition list_known_servers :: "known_server list \<Rightarrow> known_server list" where
  "list_known_servers entries = rev (sort_key ks_last_connected (rev entries))"

section \<open>The store of pins\<close>

text \<open>
  What the connection code relies on: a pin is what was last recorded for an address, recording
  or forgetting one address does not touch another.
\<close>

locale pin_store =
  fixes lookup :: "'s \<Rightarrow> string \<Rightarrow> string option"
    and record_pin :: "string \<Rightarrow> string \<Rightarrow> 's \<Rightarrow> 's"
    and forget :: "string \<Rightarrow> 's \<Rightarrow> 's"
  assumes lookup_record: "lookup (record_pin a fp s) b = (if b = a then Some fp else lookup s b)"
    and lookup_forget: "lookup (forget a s) b = (if b = a then None else lookup s b)"
begin

lemma record_twice: "lookup (record_pin a fp (record_pin a fp' s)) = lookup (record_pin a fp s)"
  by (rule ext) (simp add: lookup_record)

lemma record_many:
  "lookup (fold (\<lambda>(a, fp). record_pin a fp) ps s) a =
     (case map_of (rev ps) a of Some fp \<Rightarrow> Some fp | None \<Rightarrow> lookup s a)"
  by (induction ps arbitrary: s) (auto simp: lookup_record map_add_def split: option.splits)

lemma forgotten_until_recorded:
  "a \<notin> fst ` set ps \<Longrightarrow> lookup (fold (\<lambda>(a, fp). record_pin a fp) ps (forget a s)) a = None"
  by (simp add: record_many lookup_forget map_of_eq_None_iff split: option.split)

end

interpretation known: pin_store known_fingerprint "\<lambda>a fp. add_known_server now name a fp"
  "\<lambda>a c. snd (forget_server a c)"
  by unfold_locales (auto simp: known_fingerprint_def add_known_server_def forget_server_def Let_def)

interpretation port_alias: pin_store known_fingerprint "\<lambda>a fp. add_known_server_alias now name a fp"
  "\<lambda>a c. snd (forget_server a c)"
  by unfold_locales
    (auto simp: known_fingerprint_def add_known_server_alias_def forget_server_def)

section \<open>Certificate pinning\<close>

definition fingerprint_der :: "(bytes \<Rightarrow> bytes) \<Rightarrow> bytes \<Rightarrow> string" where
  "fingerprint_der sha cert =
     (let ps = map (\<lambda>b. [hex_char_upper (unat b div 16), hex_char_upper (unat b mod 16)]) (sha cert)
      in concat (case ps of [] \<Rightarrow> [] | p # qs \<Rightarrow> p # map (\<lambda>q. CHR '':'' # q) qs))"

record pinned_cert_verifier =
  required :: "string option"
  observed :: "string option"

definition verifier_new :: "string option \<Rightarrow> pinned_cert_verifier" where
  "verifier_new req = \<lparr>required = map_option to_uppercase req, observed = None\<rparr>"

datatype tls_error = FingerprintMismatch string string

definition verify_server_cert ::
    "(bytes \<Rightarrow> bytes) \<Rightarrow> bytes \<Rightarrow> pinned_cert_verifier \<Rightarrow> (tls_error + unit) \<times> pinned_cert_verifier" where
  "verify_server_cert sha cert v =
     (let fp = fingerprint_der sha cert; v1 = v\<lparr>observed := Some fp\<rparr>
      in (case required v of
            Some expected \<Rightarrow>
              (if eq_ignore_ascii_case expected fp then Inr ()
               else Inl (FingerprintMismatch expected fp), v1)
          | None \<Rightarrow> (Inr (), v1)))"

subsection \<open>Fingerprints as text\<close>

lemma hex_char_upper_props:
  assumes "n < 16"
  shows "ascii_lower (hex_char_upper n) = hex_char n" "ascii_upper (hex_char_upper n) = hex_char_upper n"
    "is_ascii (hex_char_upper n)"
  using assms
  by (auto simp: hex_char_upper_def hex_char_def ascii_lower_def ascii_upper_def is_ascii_upper_def
      is_ascii_lower_def is_ascii_def of_char_of)

lemma hex_char_not_colon:
  assumes "n < 16"
  shows "hex_char n \<noteq> CHR '':''"
proof
  assume "hex_char n = CHR '':''"
  then have "(of_char (hex_char n) :: nat) = of_char (CHR '':'')" by simp
  with assms show False by (simp add: hex_char_def of_char_of split: if_splits)
qed

lemma colon_case: "ascii_lower (CHR '':'') = CHR '':''" "ascii_upper (CHR '':'') = CHR '':''" "is_ascii (CHR '':'')"
  by (simp_all add: ascii_lower_def ascii_upper_def is_ascii_upper_def is_ascii_lower_def is_ascii_def)

definition colon_pairs :: "bytes \<Rightarrow> string" where
  "colon_pairs bs =
     concat (map (\<lambda>b. CHR '':'' # [hex_char_upper (unat b div 16), hex_char_upper (unat b mod 16)]) bs)"

lemma fingerprint_der_eq: "fingerprint_der sha cert = tl (colon_pairs (sha cert))"
  by (cases "sha cert") (simp_all add: fingerprint_der_def colon_pairs_def Let_def comp_def)

lemma nibbles: "unat (b :: u8) div 16 < 16" "unat (b :: u8) mod 16 < 16"
  using u8_unat_less [of b] by (simp_all add: div_less_iff_less_mult)

lemmas colon_pairs_simps =
  colon_pairs_def hex_char_upper_props hex_char_not_colon colon_case nibbles ascii_def

lemma colon_pairs_upper: "ascii (colon_pairs bs)" "map ascii_upper (colon_pairs bs) = colon_pairs bs"
  by (induction bs) (simp_all add: colon_pairs_simps)

lemma colon_pairs_digits: "filter (\<lambda>c. c \<noteq> CHR '':'') (map ascii_lower (colon_pairs bs)) = hex_encode bs"
  by (induction bs) (simp_all add: colon_pairs_simps hex_encode_def)

lemma fingerprint_upper: "to_uppercase (fingerprint_der sha cert) = fingerprint_der sha cert"
proof -
  have "ascii (fingerprint_der sha cert)"
    using colon_pairs_upper(1) [of "sha cert"]
    by (cases "colon_pairs (sha cert)") (simp_all add: fingerprint_der_eq)
  then show ?thesis
    using colon_pairs_upper(2) [of "sha cert"]
    by (simp add: to_uppercase_ascii fingerprint_der_eq map_tl)
qed

lemma fingerprint_digits:
  "filter (\<lambda>c. c \<noteq> CHR '':'') (map ascii_lower (fingerprint_der sha cert)) = hex_encode (sha cert)"
proof -
  have "filter (\<lambda>c. c \<noteq> CHR '':'') (map ascii_lower (tl (colon_pairs bs))) = hex_encode bs" for bs
    using colon_pairs_digits [of bs] by (cases bs) (simp_all add: colon_pairs_def colon_case)
  then show ?thesis by (simp add: fingerprint_der_eq)
qed

lemma fingerprint_match_iff:
  "eq_ignore_ascii_case (fingerprint_der sha c) (fingerprint_der sha d) \<longleftrightarrow> sha c = sha d"
proof
  assume "eq_ignore_ascii_case (fingerprint_der sha c) (fingerprint_der sha d)"
  then have "hex_encode (sha c) = hex_encode (sha d)"
    unfolding eq_ignore_ascii_case_def by (metis fingerprint_digits)
  then show "sha c = sha d" by (metis decode_pairs_encode option.inject)
next
  assume "sha c = sha d"
  then show "eq_ignore_ascii_case (fingerprint_der sha c) (fingerprint_der sha d)"
    by (simp add: eq_ignore_ascii_case_def fingerprint_der_eq)
qed

section \<open>Properties\<close>

text \<open>
  Pinning. A verifier that requires the fingerprint of one certificate accepts another
  certificate exactly if both have the same digest; with no requirement it accepts every
  certificate; either way it reports the fingerprint of the certificate it saw.
\<close>

theorem pinned_certificate:
  "(fst (verify_server_cert sha cert (verifier_new (Some (fingerprint_der sha pinned)))) = Inr ()
      \<longleftrightarrow> sha cert = sha pinned) \<and>
   fst (verify_server_cert sha cert (verifier_new None)) = Inr () \<and>
   observed (snd (verify_server_cert sha cert (verifier_new req))) = Some (fingerprint_der sha cert)"
  by (auto simp: verify_server_cert_def verifier_new_def fingerprint_upper fingerprint_match_iff Let_def
      split: option.split)

text \<open>
  The client's identity is stable. A missing secret is replaced by the hexadecimal form of
  the random bytes, decoding gives these bytes back, and the fingerprint is the digest of
  them; asking again, with other random bytes, changes nothing.
\<close>

theorem client_identity:
  assumes "client_secret config = []" and "random \<noteq> []"
  shows "let config1 = snd (ensure_client_secret random config) in
    hex_decode (client_secret config1) = Some random \<and>
    client_fingerprint sha config1 = hex_encode (sha random) \<and>
    ensure_client_secret other config1 = (False, config1)"
proof -
  have "hex_encode random \<noteq> []" using assms(2) by (cases random) (simp_all add: hex_encode_def)
  then show ?thesis
    using assms
    by (simp add: ensure_client_secret_def client_fingerprint_def hex_decode_def length_hex_encode
        decode_pairs_encode)
qed

theorem client_identity_witness:
  "let config1 = snd (ensure_client_secret [1, 254] client_config_default) in
    hex_decode (client_secret config1) = Some [1, 254] \<and>
    client_fingerprint pad32 config1 = hex_encode (pad32 [1, 254]) \<and>
    ensure_client_secret [9] config1 = (False, config1)"
  by (rule client_identity) (simp_all add: client_config_default_def)

end
