(* ===== verification/Inject.thy ===== *)
theory Inject
  imports Protocol
begin

text \<open>
  \<^verbatim>\<open>client/src/inject.rs\<close>: received events become calls of \<open>enigo\<close>, and the keys and buttons
  held down are remembered so that they can all be released. The calls are logged in \<open>calls\<close>;
  the source ignores their results. Code selected by the target system depends on \<open>platform\<close>.
\<close>

section \<open>Keys of the target system\<close>

datatype platform = Windows | Linux | MacOS

datatype (plugins only: size) enigo_key =
    EK_Add | EK_Alt | EK_Backspace | EK_CapsLock | EK_Decimal | EK_Delete | EK_Divide |
    EK_DownArrow | EK_End | EK_Escape | EK_F1 | EK_F10 | EK_F11 | EK_F12 | EK_F13 | EK_F14 |
    EK_F15 | EK_F2 | EK_F24 | EK_F3 | EK_F4 | EK_F5 | EK_F6 | EK_F7 | EK_F8 | EK_F9 |
    EK_Function | EK_Help | EK_Home | EK_Insert | EK_LControl | EK_LShift | EK_LeftArrow |
    EK_Meta | EK_Multiply | EK_Numlock | EK_Numpad0 | EK_Numpad1 | EK_Numpad2 | EK_Numpad3 |
    EK_Numpad4 | EK_Numpad5 | EK_Numpad6 | EK_Numpad7 | EK_Numpad8 | EK_Numpad9 |
    EK_PageDown | EK_PageUp | EK_Pause | EK_Print | EK_RControl | EK_RShift | EK_Return |
    EK_RightArrow | EK_Scroll | EK_ScrollLock | EK_Space | EK_Subtract | EK_Tab | EK_UpArrow |
    EK_Unicode char

definition numpad_digit :: "platform \<Rightarrow> nat \<Rightarrow> enigo_key" where
  "numpad_digit p d =
     (if p = Windows then
        (if d = 0 then EK_Numpad0 else if d = 1 then EK_Numpad1 else if d = 2 then EK_Numpad2
         else if d = 3 then EK_Numpad3 else if d = 4 then EK_Numpad4 else if d = 5 then EK_Numpad5
         else if d = 6 then EK_Numpad6 else if d = 7 then EK_Numpad7 else if d = 8 then EK_Numpad8
         else EK_Numpad9)
      else EK_Unicode (char_of (48 + min d 9)))"

definition numpad_multiply :: "platform \<Rightarrow> enigo_key" where
  "numpad_multiply p = (if p = Windows then EK_Multiply else EK_Unicode (CHR ''*''))"

definition numpad_minus :: "platform \<Rightarrow> enigo_key" where
  "numpad_minus p = (if p = Windows then EK_Subtract else EK_Unicode (CHR ''-''))"

definition numpad_plus :: "platform \<Rightarrow> enigo_key" where
  "numpad_plus p = (if p = Windows then EK_Add else EK_Unicode (CHR ''+''))"

definition numpad_divide :: "platform \<Rightarrow> enigo_key" where
  "numpad_divide p = (if p = Windows then EK_Divide else EK_Unicode (CHR ''/''))"

definition numpad_delete :: "platform \<Rightarrow> enigo_key" where
  "numpad_delete p = (if p = Windows then EK_Decimal else EK_Delete)"

definition numlock_key :: "platform \<Rightarrow> enigo_key option" where
  "numlock_key p = (if p = MacOS then None else Some EK_Numlock)"

definition scroll_lock_key :: "platform \<Rightarrow> enigo_key" where
  "scroll_lock_key p = (case p of Windows \<Rightarrow> EK_Scroll | Linux \<Rightarrow> EK_ScrollLock | MacOS \<Rightarrow> EK_F14)"

definition print_screen_key :: "platform \<Rightarrow> enigo_key" where
  "print_screen_key p = (if p = MacOS then EK_F13 else EK_Print)"

definition pause_key :: "platform \<Rightarrow> enigo_key" where
  "pause_key p = (if p = MacOS then EK_F15 else EK_Pause)"

definition insert_key :: "platform \<Rightarrow> enigo_key" where
  "insert_key p = (if p = MacOS then EK_Help else EK_Insert)"

definition function_key :: "platform \<Rightarrow> enigo_key" where
  "function_key p = (if p = MacOS then EK_Function else EK_F24)"

text \<open>The arms of \<open>code_to_key\<close>, in the order of the source.\<close>

definition code_table :: "platform \<Rightarrow> (u32 \<times> enigo_key option) list" where
  "code_table p =
     [
      (1, Some EK_Escape), (2, Some (EK_Unicode (CHR ''1''))),
      (3, Some (EK_Unicode (CHR ''2''))), (4, Some (EK_Unicode (CHR ''3''))),
      (5, Some (EK_Unicode (CHR ''4''))), (6, Some (EK_Unicode (CHR ''5''))),
      (7, Some (EK_Unicode (CHR ''6''))), (8, Some (EK_Unicode (CHR ''7''))),
      (9, Some (EK_Unicode (CHR ''8''))), (10, Some (EK_Unicode (CHR ''9''))),
      (11, Some (EK_Unicode (CHR ''0''))), (12, Some (EK_Unicode (CHR ''-''))),
      (13, Some (EK_Unicode (CHR ''=''))), (14, Some EK_Backspace), (15, Some EK_Tab),
      (16, Some (EK_Unicode (CHR ''q''))), (17, Some (EK_Unicode (CHR ''w''))),
      (18, Some (EK_Unicode (CHR ''e''))), (19, Some (EK_Unicode (CHR ''r''))),
      (20, Some (EK_Unicode (CHR ''t''))), (21, Some (EK_Unicode (CHR ''y''))),
      (22, Some (EK_Unicode (CHR ''u''))), (23, Some (EK_Unicode (CHR ''i''))),
      (24, Some (EK_Unicode (CHR ''o''))), (25, Some (EK_Unicode (CHR ''p''))),
      (26, Some (EK_Unicode (CHR ''[''))), (27, Some (EK_Unicode (CHR '']''))),
      (28, Some EK_Return), (29, Some EK_LControl), (30, Some (EK_Unicode (CHR ''a''))),
      (31, Some (EK_Unicode (CHR ''s''))), (32, Some (EK_Unicode (CHR ''d''))),
      (33, Some (EK_Unicode (CHR ''f''))), (34, Some (EK_Unicode (CHR ''g''))),
      (35, Some (EK_Unicode (CHR ''h''))), (36, Some (EK_Unicode (CHR ''j''))),
      (37, Some (EK_Unicode (CHR ''k''))), (38, Some (EK_Unicode (CHR ''l''))),
      (39, Some (EK_Unicode (CHR '';''))), (40, Some (EK_Unicode (CHR 0x27))),
      (41, Some (EK_Unicode (CHR 0x60))), (42, Some EK_LShift),
      (43, Some (EK_Unicode (CHR 0x5C))), (44, Some (EK_Unicode (CHR ''z''))),
      (45, Some (EK_Unicode (CHR ''x''))), (46, Some (EK_Unicode (CHR ''c''))),
      (47, Some (EK_Unicode (CHR ''v''))), (48, Some (EK_Unicode (CHR ''b''))),
      (49, Some (EK_Unicode (CHR ''n''))), (50, Some (EK_Unicode (CHR ''m''))),
      (51, Some (EK_Unicode (CHR '',''))), (52, Some (EK_Unicode (CHR ''.''))),
      (53, Some (EK_Unicode (CHR ''/''))), (54, Some EK_RShift),
      (55, Some (numpad_multiply p)), (56, Some EK_Alt), (57, Some EK_Space),
      (58, Some EK_CapsLock), (59, Some EK_F1), (60, Some EK_F2), (61, Some EK_F3),
      (62, Some EK_F4), (63, Some EK_F5), (64, Some EK_F6), (65, Some EK_F7),
      (66, Some EK_F8), (67, Some EK_F9), (68, Some EK_F10), (69, numlock_key p),
      (70, Some (scroll_lock_key p)), (71, Some (numpad_digit p 7)),
      (72, Some (numpad_digit p 8)), (73, Some (numpad_digit p 9)),
      (74, Some (numpad_minus p)), (75, Some (numpad_digit p 4)),
      (76, Some (numpad_digit p 5)), (77, Some (numpad_digit p 6)),
      (78, Some (numpad_plus p)), (79, Some (numpad_digit p 1)),
      (80, Some (numpad_digit p 2)), (81, Some (numpad_digit p 3)),
      (82, Some (numpad_digit p 0)), (83, Some (numpad_delete p)),
      (86, Some (EK_Unicode (CHR 0x5C))), (87, Some EK_F11), (88, Some EK_F12),
      (96, Some EK_Return), (97, Some EK_RControl), (98, Some (numpad_divide p)),
      (99, Some (print_screen_key p)), (100, Some EK_Alt), (102, Some EK_Home),
      (103, Some EK_UpArrow), (104, Some EK_PageUp), (105, Some EK_LeftArrow),
      (106, Some EK_RightArrow), (107, Some EK_End), (108, Some EK_DownArrow),
      (109, Some EK_PageDown), (110, Some (insert_key p)), (111, Some EK_Delete),
      (119, Some (pause_key p)), (125, Some EK_Meta), (126, Some EK_Meta),
      (464, Some (function_key p))]"

definition code_to_key :: "platform \<Rightarrow> u32 \<Rightarrow> enigo_key option" where
  "code_to_key p code =
     (if code \<ge> 0x10000 then None
      else (case map_of (code_table p) code of Some k \<Rightarrow> k | None \<Rightarrow> None))"

datatype enigo_button = EB_Left | EB_Right | EB_Middle | EB_Back | EB_Forward

fun convert_mouse_button :: "mouse_button \<Rightarrow> enigo_button" where
  "convert_mouse_button MB_Left = EB_Left"
| "convert_mouse_button MB_Right = EB_Right"
| "convert_mouse_button MB_Middle = EB_Middle"
| "convert_mouse_button MB_Back = EB_Back"
| "convert_mouse_button MB_Forward = EB_Forward"

section \<open>The injector\<close>

datatype direction = Press | Release
datatype axis = Vertical | Horizontal

datatype enigo_call =
    MoveMouse i32 i32
  | ButtonCall enigo_button direction
  | ScrollCall i32 axis
  | KeyCall enigo_key direction

record input_injector =
  held_keys :: "enigo_key list"
  held_buttons :: "enigo_button list"
  calls :: "enigo_call list"

definition injector_new :: input_injector where
  "injector_new = \<lparr>held_keys = [], held_buttons = [], calls = []\<rparr>"

definition call :: "enigo_call \<Rightarrow> input_injector \<Rightarrow> input_injector" where
  "call c st = st\<lparr>calls := calls st @ [c]\<rparr>"

definition release_all :: "input_injector \<Rightarrow> input_injector" where
  "release_all st =
     (let st1 = st\<lparr>held_keys := [], calls := calls st @ map (\<lambda>k. KeyCall k Release) (rev (held_keys st))\<rparr>
      in st1\<lparr>held_buttons := [],
            calls := calls st1 @ map (\<lambda>b. ButtonCall b Release) (rev (held_buttons st1))\<rparr>)"

definition push_new :: "'a \<Rightarrow> 'a list \<Rightarrow> 'a list" where
  "push_new x held = (if x \<in> set held then held else held @ [x])"

fun inject :: "platform \<Rightarrow> event \<Rightarrow> input_injector \<Rightarrow> input_injector" where
  "inject p (MouseDelta dx dy) st = call (MoveMouse dx dy) st"
| "inject p (MouseButtonPress button) st =
     (let b = convert_mouse_button button; st1 = call (ButtonCall b Press) st
      in st1\<lparr>held_buttons := push_new b (held_buttons st1)\<rparr>)"
| "inject p (MouseButtonRelease button) st =
     (let b = convert_mouse_button button; st1 = call (ButtonCall b Release) st
      in st1\<lparr>held_buttons := filter (\<lambda>h. h \<noteq> b) (held_buttons st1)\<rparr>)"
| "inject p (Wheel delta_x delta_y) st =
     (let st1 = (if delta_y \<noteq> 0 then call (ScrollCall (- delta_y) Vertical) st else st)
      in if delta_x \<noteq> 0 then call (ScrollCall delta_x Horizontal) st1 else st1)"
| "inject p (KeyPress code modifiers) st =
     (case code_to_key p code of
        Some key \<Rightarrow>
          (let st1 = call (KeyCall key Press) st
           in st1\<lparr>held_keys := push_new key (held_keys st1)\<rparr>)
      | None \<Rightarrow> st)"
| "inject p (KeyRelease code modifiers) st =
     (case code_to_key p code of
        Some key \<Rightarrow>
          (let st1 = call (KeyCall key Release) st
           in st1\<lparr>held_keys := filter (\<lambda>h. h \<noteq> key) (held_keys st1)\<rparr>)
      | None \<Rightarrow> st)"
| "inject p ReleaseAll st = release_all st"

section \<open>What the system sees\<close>

text \<open>Which keys and buttons are down after a list of calls.\<close>

fun keys_down :: "enigo_call \<Rightarrow> enigo_key set \<Rightarrow> enigo_key set" where
  "keys_down (KeyCall k Press) D = insert k D"
| "keys_down (KeyCall k Release) D = D - {k}"
| "keys_down _ D = D"

fun buttons_down :: "enigo_call \<Rightarrow> enigo_button set \<Rightarrow> enigo_button set" where
  "buttons_down (ButtonCall b Press) D = insert b D"
| "buttons_down (ButtonCall b Release) D = D - {b}"
| "buttons_down _ D = D"

text \<open>The injector knows what is down, and lists nothing twice.\<close>

definition injector_inv :: "input_injector \<Rightarrow> bool" where
  "injector_inv st \<longleftrightarrow>
     distinct (held_keys st) \<and> distinct (held_buttons st) \<and>
     fold keys_down (calls st) {} = set (held_keys st) \<and>
     fold buttons_down (calls st) {} = set (held_buttons st)"

lemma push_new_props [simp]:
  "set (push_new x xs) = insert x (set xs)" "distinct (push_new x xs) = distinct xs"
  by (auto simp: push_new_def)

lemma fold_release_keys [simp]:
  "fold keys_down (map (\<lambda>k. KeyCall k Release) ks) D = D - set ks"
  "fold buttons_down (map (\<lambda>k. KeyCall k Release) ks) B = B"
  by (induction ks arbitrary: D) auto

lemma fold_release_buttons [simp]:
  "fold keys_down (map (\<lambda>b. ButtonCall b Release) bs) D = D"
  "fold buttons_down (map (\<lambda>b. ButtonCall b Release) bs) B = B - set bs"
  by (induction bs arbitrary: B) auto

lemma injector_inv_new [simp]: "injector_inv injector_new"
  by (simp add: injector_inv_def injector_new_def)

lemma injector_inv_release_all [simp]: "injector_inv st \<Longrightarrow> injector_inv (release_all st)"
  by (simp add: injector_inv_def release_all_def Let_def)

lemma injector_inv_inject [simp]: "injector_inv st \<Longrightarrow> injector_inv (inject p ev st)"
  by (cases ev) (auto simp: injector_inv_def call_def release_all_def Let_def split: option.splits)

lemma injector_inv_run: "injector_inv st \<Longrightarrow> injector_inv (fold (inject p) evs st)"
  by (induction evs arbitrary: st) simp_all

section \<open>Properties\<close>

text \<open>
  The injector's book-keeping is exact. After any sequence of events the keys and buttons
  that are down on the client's system are the ones the injector lists as held.
\<close>

theorem held_is_down:
  "let st = fold (inject p) evs injector_new in
   fold keys_down (calls st) {} = set (held_keys st) \<and>
   fold buttons_down (calls st) {} = set (held_buttons st)"
  using injector_inv_run [OF injector_inv_new] by (auto simp: injector_inv_def Let_def)

text \<open>
  Nothing stays down after a release of everything. Whatever events came before, after
  \<open>release_all\<close> no key and no button is down on the client's system, and each one held was
  released exactly once, keys first, in the reverse order of pressing.
\<close>

theorem release_all_releases:
  "let st = fold (inject p) evs injector_new; st' = release_all st in
   fold keys_down (calls st') {} = {} \<and> fold buttons_down (calls st') {} = {} \<and>
   calls st' = calls st @ map (\<lambda>k. KeyCall k Release) (rev (held_keys st)) @
     map (\<lambda>b. ButtonCall b Release) (rev (held_buttons st)) \<and>
   distinct (held_keys st) \<and> distinct (held_buttons st)"
  using injector_inv_run [OF injector_inv_new, of p evs]
  by (simp add: injector_inv_def release_all_def Let_def)

end
