(* ===== verification/Bincode.thy ===== *)
theory Bincode
  imports Protocol "HOL-Library.Monad_Syntax"
begin

text \<open>
  A concrete codec in the published layout of bincode 1.x (fixed-width little-endian
  integers, a 32-bit variant index, 64-bit lengths in front of strings). The crate itself is
  not part of the repository and no property of the program is stated about this theory: it
  shows that the contract \<open>envelope_codec\<close>, under which the framing lemmas are proved, is
  satisfied by a codec of the shape the program uses.
\<close>

section \<open>Field codecs\<close>

locale field_codec =
  fixes enc :: "'a \<Rightarrow> bytes"
    and dec :: "bytes \<Rightarrow> ('a \<times> bytes) option"
    and valid :: "'a \<Rightarrow> bool"
  assumes dec_enc: "valid x \<Longrightarrow> dec (enc x @ r) = Some (x, r)"

fun le_bytes :: "nat \<Rightarrow> nat \<Rightarrow> bytes" where
  "le_bytes 0 n = []"
| "le_bytes (Suc k) n = word_of_nat n # le_bytes k (n div 256)"

fun le_value :: "bytes \<Rightarrow> nat" where
  "le_value [] = 0"
| "le_value (b # bs) = unat b + 256 * le_value bs"

definition dec_nat :: "nat \<Rightarrow> bytes \<Rightarrow> (nat \<times> bytes) option" where
  "dec_nat k bs = (if length bs < k then None else Some (le_value (take k bs), drop k bs))"

lemma length_le_bytes [simp]: "length (le_bytes k n) = k"
  by (induction k arbitrary: n) auto

lemma le_value_bytes: "n < 256 ^ k \<Longrightarrow> le_value (le_bytes k n) = n"
proof (induction k arbitrary: n)
  case 0
  then show ?case by simp
next
  case (Suc k)
  then have "n div 256 < 256 ^ k" by (simp add: less_mult_imp_div_less mult.commute)
  then have "le_value (le_bytes k (n div 256)) = n div 256" by (rule Suc.IH)
  then show ?case by (simp add: unat_of_nat)
qed

interpretation nat_codec: field_codec "le_bytes k" "dec_nat k" "\<lambda>n. n < 256 ^ k" for k
  by unfold_locales (simp add: dec_nat_def le_value_bytes)

definition enc_string :: "string \<Rightarrow> bytes" where
  "enc_string s = le_bytes 8 (length s) @ as_bytes s"

definition dec_string :: "bytes \<Rightarrow> (string \<times> bytes) option" where
  "dec_string bs = do {
     (n, r) \<leftarrow> dec_nat 8 bs;
     if length r < n then None else Some (of_bytes (take n r), drop n r)
   }"

interpretation string_codec: field_codec enc_string dec_string "\<lambda>s. length s < 256 ^ 8"
  using nat_codec.dec_enc [of _ 8]
  by unfold_locales (simp add: enc_string_def dec_string_def)

definition enc_bool :: "bool \<Rightarrow> bytes" where
  "enc_bool b = [if b then 1 else 0]"

definition dec_bool :: "bytes \<Rightarrow> (bool \<times> bytes) option" where
  "dec_bool bs = (case bs of b # r \<Rightarrow> if b = 0 then Some (False, r)
     else if b = 1 then Some (True, r) else None | [] \<Rightarrow> None)"

interpretation bool_codec: field_codec enc_bool dec_bool "\<lambda>_. True"
  by unfold_locales (simp add: enc_bool_def dec_bool_def)

definition dec_fixed :: "nat \<Rightarrow> bytes \<Rightarrow> (bytes \<times> bytes) option" where
  "dec_fixed k bs = (if length bs < k then None else Some (take k bs, drop k bs))"

interpretation fixed_codec: field_codec "\<lambda>b. b" "dec_fixed k" "\<lambda>b. length b = k" for k
  by unfold_locales (simp add: dec_fixed_def)

definition enc_word :: "'a::len word \<Rightarrow> bytes" where
  "enc_word w = le_bytes (LENGTH('a) div 8) (unat w)"

definition dec_word :: "bytes \<Rightarrow> ('a::len word \<times> bytes) option" where
  "dec_word bs = map_option (\<lambda>(n, r). (word_of_nat n, r)) (dec_nat (LENGTH('a) div 8) bs)"

lemma dec_enc_word:
  fixes w :: "'a::len word"
  assumes "8 dvd LENGTH('a)"
  shows "dec_word (enc_word w @ r) = Some (w, r)"
proof -
  have "(256 :: nat) ^ (LENGTH('a) div 8) = 2 ^ (8 * (LENGTH('a) div 8))"
    by (simp add: power_mult)
  also have "8 * (LENGTH('a) div 8) = LENGTH('a)"
    using assms by simp
  finally have "(256 :: nat) ^ (LENGTH('a) div 8) = 2 ^ LENGTH('a)" .
  then have "unat w < 256 ^ (LENGTH('a) div 8)"
    using unsigned_less [of w] by simp
  then show ?thesis
    by (simp add: dec_word_def enc_word_def nat_codec.dec_enc)
qed

interpretation u8_codec: field_codec "enc_word :: u8 \<Rightarrow> bytes" dec_word "\<lambda>_. True"
  by unfold_locales (simp add: dec_enc_word)

interpretation u16_codec: field_codec "enc_word :: u16 \<Rightarrow> bytes" dec_word "\<lambda>_. True"
  by unfold_locales (simp add: dec_enc_word)

interpretation u32_codec: field_codec "enc_word :: u32 \<Rightarrow> bytes" dec_word "\<lambda>_. True"
  by unfold_locales (simp add: dec_enc_word)

interpretation u64_codec: field_codec "enc_word :: u64 \<Rightarrow> bytes" dec_word "\<lambda>_. True"
  by unfold_locales (simp add: dec_enc_word)

interpretation uuid_codec: field_codec "enc_word :: uuid \<Rightarrow> bytes" dec_word "\<lambda>_. True"
  by unfold_locales (simp add: dec_enc_word)

section \<open>Envelopes\<close>

definition tag :: "nat \<Rightarrow> bytes" where
  "tag n = le_bytes 4 n"

lemma dec_tag [simp]: "n < 256 ^ 4 \<Longrightarrow> dec_nat 4 (tag n @ r) = Some (n, r)"
  by (simp add: tag_def nat_codec.dec_enc)

fun enc_button :: "mouse_button \<Rightarrow> bytes" where
  "enc_button MB_Left = tag 0"
| "enc_button MB_Right = tag 1"
| "enc_button MB_Middle = tag 2"
| "enc_button MB_Back = tag 3"
| "enc_button MB_Forward = tag 4"

definition dec_button :: "bytes \<Rightarrow> (mouse_button \<times> bytes) option" where
  "dec_button bs = do {
     (t, r) \<leftarrow> dec_nat 4 bs;
     if t < 5 then Some ([MB_Left, MB_Right, MB_Middle, MB_Back, MB_Forward] ! t, r) else None
   }"

interpretation button_codec: field_codec enc_button dec_button "\<lambda>_. True"
proof unfold_locales
  show "dec_button (enc_button b @ r) = Some (b, r)" for b r
    by (cases b) (simp_all add: dec_button_def)
qed

definition enc_caps :: "caps \<Rightarrow> bytes" where
  "enc_caps c = enc_bool (clipboard c) @ enc_bool (file_transfer c) @ enc_bool (internet_share c)"

definition dec_caps :: "bytes \<Rightarrow> (caps \<times> bytes) option" where
  "dec_caps bs = do {
     (a, r) \<leftarrow> dec_bool bs; (b, r) \<leftarrow> dec_bool r; (c, r) \<leftarrow> dec_bool r;
     Some (\<lparr>clipboard = a, file_transfer = b, internet_share = c\<rparr>, r)
   }"

interpretation caps_codec: field_codec enc_caps dec_caps "\<lambda>_. True"
  by unfold_locales (simp add: enc_caps_def dec_caps_def bool_codec.dec_enc)

lemmas field_simps_codec =
  string_codec.dec_enc bool_codec.dec_enc caps_codec.dec_enc button_codec.dec_enc
  u8_codec.dec_enc u16_codec.dec_enc u32_codec.dec_enc u64_codec.dec_enc uuid_codec.dec_enc
  fixed_codec.dec_enc

fun enc_event :: "event \<Rightarrow> bytes" where
  "enc_event (MouseDelta dx dy) = tag 0 @ enc_word dx @ enc_word dy"
| "enc_event (MouseButtonPress b) = tag 1 @ enc_button b"
| "enc_event (MouseButtonRelease b) = tag 2 @ enc_button b"
| "enc_event (Wheel dx dy) = tag 3 @ enc_word dx @ enc_word dy"
| "enc_event (KeyPress c m) = tag 4 @ enc_word c @ enc_word m"
| "enc_event (KeyRelease c m) = tag 5 @ enc_word c @ enc_word m"
| "enc_event ReleaseAll = tag 6"

definition dec_event :: "bytes \<Rightarrow> (event \<times> bytes) option" where
  "dec_event bs = do {
     (t, r) \<leftarrow> dec_nat 4 bs;
     if t = 0 then do { (x, r) \<leftarrow> dec_word r; (y, r) \<leftarrow> dec_word r; Some (MouseDelta x y, r) }
     else if t = 1 then do { (b, r) \<leftarrow> dec_button r; Some (MouseButtonPress b, r) }
     else if t = 2 then do { (b, r) \<leftarrow> dec_button r; Some (MouseButtonRelease b, r) }
     else if t = 3 then do { (x, r) \<leftarrow> dec_word r; (y, r) \<leftarrow> dec_word r; Some (Wheel x y, r) }
     else if t = 4 then do { (c, r) \<leftarrow> dec_word r; (m, r) \<leftarrow> dec_word r; Some (KeyPress c m, r) }
     else if t = 5 then do { (c, r) \<leftarrow> dec_word r; (m, r) \<leftarrow> dec_word r; Some (KeyRelease c m, r) }
     else if t = 6 then Some (ReleaseAll, r)
     else None
   }"

interpretation event_codec: field_codec enc_event dec_event "\<lambda>_. True"
proof unfold_locales
  show "dec_event (enc_event e @ r) = Some (e, r)" for e r
    by (cases e) (simp_all add: dec_event_def field_simps_codec)
qed

fun enc_envelope :: "envelope \<Rightarrow> bytes" where
  "enc_envelope (Hello n v c) = tag 0 @ enc_string n @ enc_string v @ enc_caps c"
| "enc_envelope (HelloAck p n) = tag 1 @ enc_word p @ enc_string n"
| "enc_envelope (PairRequest nonce fp proof) = tag 2 @ nonce @ enc_string fp @ proof"
| "enc_envelope PairAccept = tag 3"
| "enc_envelope (PairReject reason) = tag 4 @ enc_string reason"
| "enc_envelope (ToggleForward on) = tag 5 @ enc_bool on"
| "enc_envelope (Input e) = tag 6 @ enc_event e"
| "enc_envelope (ClipboardSet t) = tag 7 @ enc_string t"
| "enc_envelope (FileOffer i n s h) = tag 8 @ enc_word i @ enc_string n @ enc_word s @ h"
| "enc_envelope (FileAccept i off) = tag 9 @ enc_word i @ enc_word off"
| "enc_envelope (FileReject i reason) = tag 10 @ enc_word i @ enc_string reason"
| "enc_envelope (FileComplete i) = tag 11 @ enc_word i"
| "enc_envelope (Ping t) = tag 12 @ enc_word t"
| "enc_envelope (Pong t) = tag 13 @ enc_word t"
| "enc_envelope (ErrorMsg m) = tag 14 @ enc_string m"
| "enc_envelope Goodbye = tag 15"

fun strings_of :: "envelope \<Rightarrow> string list" where
  "strings_of (Hello n v c) = [n, v]"
| "strings_of (HelloAck p n) = [n]"
| "strings_of (PairRequest nonce fp proof) = [fp]"
| "strings_of (PairReject reason) = [reason]"
| "strings_of (ClipboardSet t) = [t]"
| "strings_of (FileOffer i n s h) = [n]"
| "strings_of (FileReject i reason) = [reason]"
| "strings_of (ErrorMsg m) = [m]"
| "strings_of _ = []"

definition bincode_ser :: "envelope \<Rightarrow> bytes option" where
  "bincode_ser e =
     (if list_all (\<lambda>s. length s < 256 ^ 8) (strings_of e) then Some (enc_envelope e) else None)"

definition dec_envelope :: "bytes \<Rightarrow> (envelope \<times> bytes) option" where
  "dec_envelope bs = do {
     (t, r) \<leftarrow> dec_nat 4 bs;
     if t = 0 then do {
       (n, r) \<leftarrow> dec_string r; (v, r) \<leftarrow> dec_string r; (c, r) \<leftarrow> dec_caps r;
       Some (Hello n v c, r) }
     else if t = 1 then do { (p, r) \<leftarrow> dec_word r; (n, r) \<leftarrow> dec_string r; Some (HelloAck p n, r) }
     else if t = 2 then do {
       (nonce, r) \<leftarrow> dec_fixed 16 r; (fp, r) \<leftarrow> dec_string r; (proof, r) \<leftarrow> dec_fixed 32 r;
       Some (PairRequest nonce fp proof, r) }
     else if t = 3 then Some (PairAccept, r)
     else if t = 4 then do { (s, r) \<leftarrow> dec_string r; Some (PairReject s, r) }
     else if t = 5 then do { (b, r) \<leftarrow> dec_bool r; Some (ToggleForward b, r) }
     else if t = 6 then do { (e, r) \<leftarrow> dec_event r; Some (Input e, r) }
     else if t = 7 then do { (s, r) \<leftarrow> dec_string r; Some (ClipboardSet s, r) }
     else if t = 8 then do {
       (i, r) \<leftarrow> dec_word r; (n, r) \<leftarrow> dec_string r; (s, r) \<leftarrow> dec_word r; (h, r) \<leftarrow> dec_fixed 32 r;
       Some (FileOffer i n s h, r) }
     else if t = 9 then do { (i, r) \<leftarrow> dec_word r; (s, r) \<leftarrow> dec_word r; Some (FileAccept i s, r) }
     else if t = 10 then do { (i, r) \<leftarrow> dec_word r; (s, r) \<leftarrow> dec_string r; Some (FileReject i s, r) }
     else if t = 11 then do { (i, r) \<leftarrow> dec_word r; Some (FileComplete i, r) }
     else if t = 12 then do { (s, r) \<leftarrow> dec_word r; Some (Ping s, r) }
     else if t = 13 then do { (s, r) \<leftarrow> dec_word r; Some (Pong s, r) }
     else if t = 14 then do { (s, r) \<leftarrow> dec_string r; Some (ErrorMsg s, r) }
     else if t = 15 then Some (Goodbye, r)
     else None
   }"

definition bincode_de :: "bytes \<Rightarrow> envelope option" where
  "bincode_de bs = map_option fst (dec_envelope bs)"

lemma dec_enc_envelope:
  assumes "wf_envelope e" and "list_all (\<lambda>s. length s < 256 ^ 8) (strings_of e)"
  shows "dec_envelope (enc_envelope e @ r) = Some (e, r)"
proof -
  note str = string_codec.dec_enc [simplified]
  show ?thesis
    using assms
    by (cases e)
      (simp_all add: dec_envelope_def wf_envelope_def field_simps_codec event_codec.dec_enc str)
qed

interpretation bincode: envelope_codec bincode_ser bincode_de
proof unfold_locales
  fix e bs
  assume wf: "wf_envelope e" and "bincode_ser e = Some bs"
  then have "list_all (\<lambda>s. length s < 256 ^ 8) (strings_of e)" and bs: "bs = enc_envelope e"
    by (auto simp: bincode_ser_def split: if_splits)
  from dec_enc_envelope [OF wf this(1), of "[]"] bs
  show "bincode_de bs = Some e" by (simp add: bincode_de_def)
qed

section \<open>Properties\<close>

text \<open>
  A connection delivers what was sent. For any serialization with the round-trip law, the
  envelopes that the writer task of one side puts on an unbroken connection are the ones the
  reader task of the other side gets, in order, none lost, merged or split.
\<close>

theorem connection_delivers:
  assumes "\<And>e bs. wf_envelope e \<Longrightarrow> ser e = Some bs \<Longrightarrow> de bs = Some e"
    and "\<And>e. e \<in> set es \<Longrightarrow> wf_envelope e"
    and "\<And>e. e \<in> set es \<Longrightarrow> \<exists>frame. serialize_envelope ser e = Inr frame"
    and "rx w = tx (send_loop ser es \<lparr>rx = [], tx = [], tx_room = None\<rparr>)"
  shows "read_loop de w = es"
proof -
  have codec: "envelope_codec ser de" using assms(1) by unfold_locales
  obtain frames where f: "list_all2 (\<lambda>e b. serialize_envelope ser e = Inr b) es frames"
    using serialize_frames_exist [OF assms(3)] by auto
  from send_loop_frames [OF f] have "rx w = concat frames" using assms(4) by simp
  with assms(2) f show ?thesis by (intro envelope_codec.read_loop_serialized [OF codec]) auto
qed

theorem connection_delivers_witness:
  "let es = [Ping 7, ToggleForward True, Goodbye] in
   read_loop bincode_de \<lparr>rx = tx (send_loop bincode_ser es \<lparr>rx = [], tx = [], tx_room = None\<rparr>),
     tx = [], tx_room = None\<rparr> = es"
  unfolding Let_def
  by (rule connection_delivers [where ser = bincode_ser])
    (auto intro: bincode.de_ser simp: wf_envelope_def serialize_envelope_def bincode_ser_def
      MAX_ENVELOPE_SIZE_def tag_def enc_bool_def enc_word_def)

end
