(* ===== verification/Session.thy ===== *)
theory Session
  imports Addr ClientConfig Inject Bincode
begin

text \<open>
  \<^verbatim>\<open>client/src/session.rs\<close> and \<^verbatim>\<open>client/src/clipboard.rs\<close>: connecting with certificate pinning, the
  client side of the handshake, the message loop and the clipboard thread.

  The loop's \<open>select!\<close> polls \<open>read_envelope\<close> next to the other arms. The bytes that a pending
  read has taken off the stream belong to its future (\<open>inflight\<close>); when another arm completes
  first, \<open>select!\<close> drops the future and these bytes with it.
\<close>

section \<open>Connecting\<close>

record connect_options =
  co_pin :: "string option"
  co_trust_new_cert :: bool
  co_expected_fingerprint :: "string option"

datatype connect_error =
    Fatal string
  | CProto protocol_error
  | ServerError string
  | UnexpectedResponse envelope
  | UnexpectedPairing envelope
  | BadAddress addr_error
  | TcpFailed
  | TlsFailed string

record client_conn =
  cc_config :: client_config
  cc_stream :: wire

text \<open>
  The surroundings of one connection attempt: host name, environment, random bytes, time, and
  the functions of the external crates.
\<close>

record client_env =
  ce_hostname :: "string option"
  ce_env_pin :: "string option"
  ce_secret :: bytes
  ce_nonce :: bytes
  ce_now :: millis
  ce_sha :: "bytes \<Rightarrow> bytes"
  ce_ser :: "envelope \<Rightarrow> bytes option"
  ce_de :: "bytes \<Rightarrow> envelope option"

definition c_send :: "client_env \<Rightarrow> envelope \<Rightarrow> (client_conn, connect_error, unit) io" where
  "c_send env e = (\<lambda>s. case send_envelope (ce_ser env) e (cc_stream s) of
      (Inr u, w) \<Rightarrow> (Inr u, s\<lparr>cc_stream := w\<rparr>)
    | (Inl err, w) \<Rightarrow> (Inl (CProto err), s\<lparr>cc_stream := w\<rparr>))"

definition c_read :: "client_env \<Rightarrow> (client_conn, connect_error, envelope) io" where
  "c_read env = (\<lambda>s. case read_envelope (ce_de env) (cc_stream s) of
      (Inr e, w) \<Rightarrow> (Inr e, s\<lparr>cc_stream := w\<rparr>)
    | (Inl err, w) \<Rightarrow> (Inl (CProto err), s\<lparr>cc_stream := w\<rparr>))"

definition hello_ack :: "envelope \<Rightarrow> (client_conn, connect_error, u16 \<times> string) io" where
  "hello_ack e =
     (case e of
        HelloAck port name \<Rightarrow> ret (port, name)
      | ErrorMsg msg \<Rightarrow>
          if str_contains (to_lowercase msg) ''version'' then bail (Fatal msg)
          else bail (ServerError msg)
      | _ \<Rightarrow> bail (UnexpectedResponse e))"

definition pair_answer :: "envelope \<Rightarrow> (client_conn, connect_error, unit) io" where
  "pair_answer e =
     (case e of
        PairAccept \<Rightarrow> ret ()
      | PairReject reason \<Rightarrow>
          bail (Fatal (''pairing rejected: '' @ reason @
            (if str_contains (to_lowercase reason) ''pin''
             then '' (pass --pin <code>, or set KVM_PAIRING_PIN)'' else [])))
      | _ \<Rightarrow> bail (UnexpectedPairing e))"

definition client_pin :: "client_env \<Rightarrow> connect_options \<Rightarrow> string" where
  "client_pin env opts =
     (case co_pin opts of
        Some p \<Rightarrow> p
      | None \<Rightarrow> (case ce_env_pin env of Some p \<Rightarrow> p | None \<Rightarrow> []))"

definition perform_handshake ::
    "client_env \<Rightarrow> connect_options \<Rightarrow> (client_conn, connect_error, u16 \<times> string) io" where
  "perform_handshake env opts =
     seqM (c_send env (Hello (case ce_hostname env of Some h \<Rightarrow> h | None \<Rightarrow> ''kvm-client'')
             PROTOCOL_VERSION caps_default))
      (bindM (c_read env) (\<lambda>ack.
       bindM (hello_ack ack) (\<lambda>(port, name).
       seqM (modifyM (\<lambda>s. s\<lparr>cc_config := snd (ensure_client_secret (ce_secret env) (cc_config s))\<rparr>))
        (bindM getM (\<lambda>s.
         let fingerprint = client_fingerprint (ce_sha env) (cc_config s);
             pin = client_pin env opts;
             pf = pairing_proof (ce_sha env) pin (ce_nonce env) fingerprint
         in seqM (c_send env (PairRequest (ce_nonce env) fingerprint pf))
             (bindM (c_read env) (\<lambda>answer.
              seqM (pair_answer answer) (ret (port, name)))))))))"

text \<open>
  What the network does with an attempt: whether TCP connects, the certificate the peer presents,
  a TLS failure of another kind, and the stream that results.
\<close>

record peer =
  peer_tcp_ok :: bool
  peer_cert :: bytes
  peer_tls_error :: "string option"
  peer_stream :: wire

record session_info =
  si_host :: string
  si_server_name :: string
  si_fingerprint :: string
  si_file_port :: u16
  si_stream :: wire

definition required_fingerprint :: "connect_options \<Rightarrow> string option \<Rightarrow> string option" where
  "required_fingerprint opts stored =
     (case co_expected_fingerprint opts of
        Some fp \<Rightarrow> Some (to_uppercase fp)
      | None \<Rightarrow> if co_trust_new_cert opts then None else stored)"

definition mismatch_message :: "string \<Rightarrow> string \<Rightarrow> string" where
  "mismatch_message expected got =
     ''unexpected error: server certificate fingerprint mismatch: expected '' @ expected @ '', got '' @ got @
     ''. Pass --trust-new-cert to trust the new certificate, or verify --fingerprint.''"

definition tls_connect ::
    "client_env \<Rightarrow> string option \<Rightarrow> peer \<Rightarrow> connect_error + string" where
  "tls_connect env req p =
     (case verify_server_cert (ce_sha env) (peer_cert p) (verifier_new req) of
        (Inl (FingerprintMismatch expected got), v) \<Rightarrow> Inl (Fatal (mismatch_message expected got))
      | (Inr _, v) \<Rightarrow>
          (case peer_tls_error p of
             Some msg \<Rightarrow>
               if str_contains msg ''fingerprint mismatch'' then Inl (Fatal msg) else Inl (TlsFailed msg)
           | None \<Rightarrow> Inr (case observed v of Some fp \<Rightarrow> fp | None \<Rightarrow> [])))"

definition record_server ::
    "millis \<Rightarrow> string \<Rightarrow> string \<Rightarrow> string \<Rightarrow> string \<Rightarrow> client_config \<Rightarrow> client_config" where
  "record_server now name normalized file_addr fp config =
     (let config1 = add_known_server now name normalized fp config
      in if file_addr \<noteq> normalized then add_known_server_alias now name file_addr fp config1 else config1)"

text \<open>
  An attempt, with the stream to the peer as it is left behind: on a stream that is refused before the handshake nothing
  was read or written.
\<close>

definition connect_io ::
    "client_env \<Rightarrow> string \<Rightarrow> connect_options \<Rightarrow> peer \<Rightarrow> client_config \<Rightarrow>
     (connect_error + session_info) \<times> wire \<times> client_config" where
  "connect_io env addr opts p config =
     (case parse_host_port addr DEFAULT_CONTROL_PORT of
        Inl e \<Rightarrow> (Inl (BadAddress e), peer_stream p, config)
      | Inr (host, port) \<Rightarrow>
          (let normalized_addr = format_host_port host port;
               required_fp = required_fingerprint opts (known_fingerprint config normalized_addr)
           in if \<not> peer_tcp_ok p then (Inl TcpFailed, peer_stream p, config)
              else (case tls_connect env required_fp p of
                      Inl e \<Rightarrow> (Inl e, peer_stream p, config)
                    | Inr observed_fp \<Rightarrow>
                        (case perform_handshake env opts \<lparr>cc_config = config, cc_stream = peer_stream p\<rparr> of
                           (Inl e, s) \<Rightarrow> (Inl e, cc_stream s, cc_config s)
                         | (Inr (file_port, server_name), s) \<Rightarrow>
                             (Inr \<lparr>si_host = host, si_server_name = server_name,
                                   si_fingerprint = observed_fp, si_file_port = file_port,
                                   si_stream = cc_stream s\<rparr>,
                              cc_stream s,
                              record_server (ce_now env) server_name normalized_addr
                                (format_host_port host file_port) observed_fp (cc_config s))))))"

text \<open>What the caller gets: the stream is part of the session, or dropped with the error.\<close>

definition connect ::
    "client_env \<Rightarrow> string \<Rightarrow> connect_options \<Rightarrow> peer \<Rightarrow> client_config \<Rightarrow>
     (connect_error + session_info) \<times> client_config" where
  "connect env addr opts p config = (case connect_io env addr opts p config of (r, _, config') \<Rightarrow> (r, config'))"

lemma connect_eq:
  "connect env addr opts p config =
     (case parse_host_port addr DEFAULT_CONTROL_PORT of
        Inl e \<Rightarrow> (Inl (BadAddress e), config)
      | Inr (host, port) \<Rightarrow>
          (let normalized_addr = format_host_port host port;
               required_fp = required_fingerprint opts (known_fingerprint config normalized_addr)
           in if \<not> peer_tcp_ok p then (Inl TcpFailed, config)
              else (case tls_connect env required_fp p of
                      Inl e \<Rightarrow> (Inl e, config)
                    | Inr observed_fp \<Rightarrow>
                        (case perform_handshake env opts \<lparr>cc_config = config, cc_stream = peer_stream p\<rparr> of
                           (Inl e, s) \<Rightarrow> (Inl e, cc_config s)
                         | (Inr (file_port, server_name), s) \<Rightarrow>
                             (Inr \<lparr>si_host = host, si_server_name = server_name,
                                   si_fingerprint = observed_fp, si_file_port = file_port,
                                   si_stream = cc_stream s\<rparr>,
                              record_server (ce_now env) server_name normalized_addr
                                (format_host_port host file_port) observed_fp (cc_config s))))))"
  by (auto simp: connect_def connect_io_def Let_def split: sum.splits prod.splits)

subsection \<open>The handshake does not touch the pins\<close>

definition same_pins :: "client_conn \<Rightarrow> client_conn \<Rightarrow> bool" where
  "same_pins s t \<longleftrightarrow> known_servers (cc_config t) = known_servers (cc_config s)"

interpretation pins: state_order same_pins
  by unfold_locales (simp_all add: same_pins_def)

lemma keeps_c_send: "keeps same_pins (c_send env e)"
  by (auto simp: keeps_def same_pins_def c_send_def split: prod.split sum.split)

lemma keeps_c_read: "keeps same_pins (c_read env)"
  by (auto simp: keeps_def same_pins_def c_read_def split: prod.split sum.split)

lemma keeps_hello_ack: "keeps same_pins (hello_ack e)"
  by (cases e) (simp_all add: hello_ack_def pins.keeps_ret pins.keeps_bail)

lemma keeps_pair_answer: "keeps same_pins (pair_answer e)"
  by (cases e) (simp_all add: pair_answer_def pins.keeps_ret pins.keeps_bail)

lemma keeps_ensure_secret:
  "keeps same_pins (modifyM (\<lambda>s. s\<lparr>cc_config := snd (ensure_client_secret r (cc_config s))\<rparr>))"
  by (rule pins.keeps_modifyM) (simp add: same_pins_def ensure_client_secret_def)

lemmas pins_intros = pins.keeps_ret pins.keeps_bindM pins.keeps_seqM pins.keeps_getM
  keeps_c_send keeps_c_read keeps_hello_ack keeps_pair_answer keeps_ensure_secret

lemma keeps_perform_handshake: "keeps same_pins (perform_handshake env opts)"
  unfolding perform_handshake_def Let_def case_prod_unfold by (intro pins_intros)

lemma perform_handshake_pins:
  "perform_handshake env opts s = (r, s') \<Longrightarrow> known_fingerprint (cc_config s') = known_fingerprint (cc_config s)"
proof -
  assume h: "perform_handshake env opts s = (r, s')"
  have "same_pins s (snd (perform_handshake env opts s))"
    using keeps_perform_handshake [of env opts] by (simp only: keeps_def)
  with h show ?thesis by (simp add: same_pins_def known_fingerprint_def fun_eq_iff)
qed

lemma record_server_pins:
  "known_fingerprint (record_server now name normalized file_addr fp config) a =
     (if a = normalized \<or> a = file_addr then Some fp else known_fingerprint config a)"
  by (simp add: record_server_def Let_def known.lookup_record port_alias.lookup_record)

lemma tls_connect_Inr:
  "tls_connect env req p = Inr fp \<Longrightarrow> fp = fingerprint_der (ce_sha env) (peer_cert p)"
  by (auto simp: tls_connect_def verify_server_cert_def Let_def split: option.splits if_splits)

lemma tls_connect_pinned:
  assumes "ce_sha env (peer_cert p) \<noteq> ce_sha env pinned"
  shows "\<exists>msg. tls_connect env (Some (fingerprint_der (ce_sha env) pinned)) p = Inl (Fatal msg)"
  using assms
  by (simp add: tls_connect_def verify_server_cert_def verifier_new_def fingerprint_upper
      fingerprint_match_iff Let_def)

lemma connect_known:
  assumes "parse_host_port addr DEFAULT_CONTROL_PORT = Inr (host, port)"
    and "connect env addr opts p config = (Inr si, config')"
  shows "known_fingerprint config' a =
    (if a = format_host_port host port \<or> a = format_host_port host (si_file_port si)
     then Some (fingerprint_der (ce_sha env) (peer_cert p)) else known_fingerprint config a)"
proof -
  let ?req = "required_fingerprint opts (known_fingerprint config (format_host_port host port))"
  from assms obtain fp name file_port s where t: "tls_connect env ?req p = Inr fp"
    and h: "perform_handshake env opts \<lparr>cc_config = config, cc_stream = peer_stream p\<rparr> =
      (Inr (file_port, name), s)"
    and si: "si_file_port si = file_port"
    and c: "config' = record_server (ce_now env) name (format_host_port host port)
      (format_host_port host file_port) fp (cc_config s)"
    by (auto simp: connect_eq Let_def split: if_splits sum.splits prod.splits)
  show ?thesis
    using tls_connect_Inr [OF t] perform_handshake_pins [OF h] si
    by (simp add: c record_server_pins)
qed

lemma connect_pins:
  assumes "parse_host_port addr DEFAULT_CONTROL_PORT = Inr (host, port)"
    and "connect env addr opts p config = (Inr si, config')"
    and "a = format_host_port host port \<or> a = format_host_port host (si_file_port si)"
  shows "known_fingerprint config' a = Some (fingerprint_der (ce_sha env) (peer_cert p))"
  using connect_known [OF assms(1,2)] assms(3) by simp

section \<open>Properties of connecting\<close>

text \<open>
  C11: an impostor is refused. Once the certificate of a server is pinned for an address, a peer
  at that address with a certificate of another digest is not connected to, unless the caller
  overrides the pin; nothing is read from or written to its stream, the pin stays, and the error stops
  reconnecting.
\<close>

theorem changed_certificate_refused:
  assumes "parse_host_port addr DEFAULT_CONTROL_PORT = Inr (host, port)"
    and "known_fingerprint config (format_host_port host port) =
      Some (fingerprint_der (ce_sha env) pinned)"
    and "co_expected_fingerprint opts = None" and "\<not> co_trust_new_cert opts"
    and "ce_sha env (peer_cert p) \<noteq> ce_sha env pinned" and "peer_tcp_ok p"
  shows "\<exists>msg. connect_io env addr opts p config = (Inl (Fatal msg), peer_stream p, config) \<and>
    connect env addr opts p config = (Inl (Fatal msg), config)"
  using tls_connect_pinned [OF assms(5)] assms(1-4,6)
  by (auto simp: connect_def connect_io_def required_fingerprint_def Let_def)

definition ex_client_env :: client_env where
  "ex_client_env =
     \<lparr>ce_hostname = None, ce_env_pin = None, ce_secret = replicate 32 1, ce_nonce = replicate 16 7,
      ce_now = 9, ce_sha = pad32, ce_ser = (\<lambda>_. Some []),
      ce_de = (\<lambda>bs. if bs = [1] then Some (HelloAck 4001 ''desk'') else if bs = [2] then Some PairAccept else None)\<rparr>"

definition ex_opts :: connect_options where
  "ex_opts = \<lparr>co_pin = Some ''1234'', co_trust_new_cert = False, co_expected_fingerprint = None\<rparr>"

definition ex_peer :: peer where
  "ex_peer =
     \<lparr>peer_tcp_ok = True, peer_cert = [7], peer_tls_error = None,
      peer_stream = \<lparr>rx = [0, 0, 0, 1, 1, 0, 0, 0, 1, 2], tx = [], tx_room = None\<rparr>\<rparr>"

lemma ex_parse: "parse_host_port ''nas'' DEFAULT_CONTROL_PORT = Inr (''nas'', DEFAULT_CONTROL_PORT)"
proof -
  have "trim ''nas'' = ''nas''" by (rule trim_visible) (simp_all add: visible_def)
  then show ?thesis by (simp add: parse_host_port_def)
qed

theorem changed_certificate_refused_witness:
  "let config = add_known_server 1 ''desk'' (format_host_port ''nas'' DEFAULT_CONTROL_PORT)
         (fingerprint_der pad32 [8]) client_config_default
   in \<exists>msg. connect_io ex_client_env ''nas'' ex_opts ex_peer config = (Inl (Fatal msg), peer_stream ex_peer, config) \<and>
        connect ex_client_env ''nas'' ex_opts ex_peer config = (Inl (Fatal msg), config)"
proof -
  have "pad32 [7] \<noteq> pad32 [8]" by code_simp
  then show ?thesis
    unfolding Let_def
    by (intro changed_certificate_refused [where pinned = "[8]", OF ex_parse])
      (simp_all add: known.lookup_record ex_client_env_def ex_opts_def ex_peer_def)
qed

text \<open>
  A successful connection pins the certificate that was seen, for the control port and for
  the file-transfer port of the same host, and leaves the pins of all other addresses alone.
\<close>

theorem connect_pins_both_ports:
  assumes "parse_host_port addr DEFAULT_CONTROL_PORT = Inr (host, port)"
    and "connect env addr opts p config = (Inr si, config')"
  shows "known_fingerprint config' a =
    (if a = format_host_port host port \<or> a = format_host_port host (si_file_port si)
     then Some (fingerprint_der (ce_sha env) (peer_cert p)) else known_fingerprint config a)"
  using assms by (rule connect_known)

lemma ex_c_read1:
  "read_envelope (ce_de ex_client_env) \<lparr>rx = [0, 0, 0, 1, 1, 0, 0, 0, 1, 2], tx = t, tx_room = None\<rparr> =
     (Inr (HelloAck 4001 ''desk''), \<lparr>rx = [0, 0, 0, 1, 2], tx = t, tx_room = None\<rparr>)"
  by (simp add: read_envelope_def bindM_def read_exact_def from_be_bytes_def MAX_ENVELOPE_SIZE_def
      liftR_def deserialize_envelope_def ex_client_env_def)

lemma ex_c_read2:
  "read_envelope (ce_de ex_client_env) \<lparr>rx = [0, 0, 0, 1, 2], tx = t, tx_room = None\<rparr> =
     (Inr PairAccept, \<lparr>rx = [], tx = t, tx_room = None\<rparr>)"
  by (simp add: read_envelope_def bindM_def read_exact_def from_be_bytes_def MAX_ENVELOPE_SIZE_def
      liftR_def deserialize_envelope_def ex_client_env_def)

lemma ex_c_send:
  "tx_room (cc_stream s) = None \<Longrightarrow>
   c_send ex_client_env e s = (Inr (), s\<lparr>cc_stream := (cc_stream s)\<lparr>tx := tx (cc_stream s) @ to_be_bytes32 0\<rparr>\<rparr>)"
  by (simp add: c_send_def send_envelope_def serialize_envelope_def ex_client_env_def bindM_def liftR_def
      write_all_def)

lemma ex_connect_no_pins:
  assumes "known_servers c = Map.empty"
  shows "\<exists>si config. connect ex_client_env ''nas'' ex_opts ex_peer c = (Inr si, config) \<and> si_file_port si = 4001"
proof -
  have k: "known_fingerprint c a = None" for a
    using assms by (simp add: known_fingerprint_def)
  have t: "\<exists>fp. tls_connect ex_client_env None ex_peer = Inr fp"
    by (simp add: tls_connect_def verify_server_cert_def verifier_new_def ex_peer_def Let_def)
  have "\<exists>s. perform_handshake ex_client_env ex_opts
      \<lparr>cc_config = c, cc_stream = peer_stream ex_peer\<rparr> = (Inr (4001, ''desk''), s)"
    by (simp add: perform_handshake_def bindM_def seqM_def getM_def ret_def modifyM_def ex_c_send c_read_def
        ex_c_read1 ex_c_read2 ex_peer_def hello_ack_def pair_answer_def Let_def)
  with t show ?thesis
    by (auto simp: connect_eq ex_parse k required_fingerprint_def ex_opts_def ex_peer_def Let_def)
qed

lemma ex_connect:
  "\<exists>si config. connect ex_client_env ''nas'' ex_opts ex_peer client_config_default = (Inr si, config) \<and>
     si_file_port si = 4001"
  by (rule ex_connect_no_pins) (simp add: client_config_default_def)

theorem connect_pins_both_ports_witness:
  "\<exists>si config. connect ex_client_env ''nas'' ex_opts ex_peer client_config_default = (Inr si, config) \<and>
     known_fingerprint config (format_host_port ''nas'' 4001) = Some (fingerprint_der pad32 [7])"
proof -
  obtain si config where c: "connect ex_client_env ''nas'' ex_opts ex_peer client_config_default = (Inr si, config)"
    and p: "si_file_port si = 4001"
    using ex_connect by blast
  have "known_fingerprint config (format_host_port ''nas'' 4001) =
      Some (fingerprint_der (ce_sha ex_client_env) (peer_cert ex_peer))"
    using connect_pins_both_ports [OF ex_parse c, of "format_host_port ''nas'' 4001"] p by simp
  with c show ?thesis by (auto simp: ex_client_env_def ex_peer_def)
qed

section \<open>The message loop\<close>

definition DEAD_AFTER :: millis where
  "DEAD_AFTER = 20000"

datatype session_end = Running | EndedOk | EndedErr

datatype session_event =
    SE_Connected string string
  | SE_Disconnected session_end
  | SE_ForwardingChanged bool
  | SE_ClipboardReceived nat
  | SE_Latency nat
  | SE_Error string

text \<open>
  What can complete an arm of the \<open>select!\<close>, with the times read on the way; \<open>Arrive\<close> is the
  arrival of bytes, on which the pending read is polled, and \<open>PeerClosed\<close> the end of the stream.
\<close>

datatype session_input =
    Cancelled
  | PingTick millis u64
  | CmdToggle bool
  | CmdClipboard string
  | ClipOut string
  | Arrive millis bytes
  | PeerClosed

record session_state =
  ss_stream :: wire
  inflight :: bytes
  injector :: input_injector
  last_received :: millis
  clip_in :: "string list"
  session_events :: "session_event list"
  ss_end :: session_end

definition emit :: "session_event \<Rightarrow> session_state \<Rightarrow> session_state" where
  "emit ev s = s\<lparr>session_events := session_events s @ [ev]\<rparr>"

definition s_send :: "(envelope \<Rightarrow> bytes option) \<Rightarrow> envelope \<Rightarrow> session_state \<Rightarrow> bool \<times> session_state" where
  "s_send ser e s =
     (case send_envelope ser e (ss_stream s) of
        (Inl _, w) \<Rightarrow> (False, s\<lparr>ss_stream := w\<rparr>)
      | (Inr _, w) \<Rightarrow> (True, s\<lparr>ss_stream := w\<rparr>))"

definition send_or_end :: "(envelope \<Rightarrow> bytes option) \<Rightarrow> envelope \<Rightarrow> session_state \<Rightarrow> session_state" where
  "send_or_end ser e s =
     (case s_send ser e s of (ok, s1) \<Rightarrow> if ok then s1 else s1\<lparr>ss_end := EndedErr\<rparr>)"

text \<open>The arm for a received envelope; \<open>now\<close> is also the clock of the latency.\<close>

fun server_message ::
    "platform \<Rightarrow> (envelope \<Rightarrow> bytes option) \<Rightarrow> u64 \<Rightarrow> envelope \<Rightarrow> session_state \<Rightarrow> session_state" where
  "server_message pl ser now (Input ev) s =
     (if ev = ReleaseAll then s\<lparr>injector := release_all (injector s)\<rparr>
      else s\<lparr>injector := inject pl ev (injector s)\<rparr>)"
| "server_message pl ser now (ClipboardSet text) s =
     emit (SE_ClipboardReceived (length text)) (s\<lparr>clip_in := clip_in s @ [text]\<rparr>)"
| "server_message pl ser now (ToggleForward on) s =
     emit (SE_ForwardingChanged on)
       (if \<not> on then s\<lparr>injector := release_all (injector s)\<rparr> else s)"
| "server_message pl ser now (Ping ts) s = send_or_end ser (Pong ts) s"
| "server_message pl ser now (Pong ts) s = emit (SE_Latency (unat now - unat ts)) s"
| "server_message pl ser now Goodbye s = s\<lparr>ss_end := EndedOk\<rparr>"
| "server_message pl ser now (ErrorMsg msg) s = emit (SE_Error msg) s"
| "server_message pl ser now _ s = s"

text \<open>
  Polling reads: complete envelopes are handled one after the other; an incomplete one is taken
  into the pending read.
\<close>

function poll_reads ::
    "platform \<Rightarrow> (envelope \<Rightarrow> bytes option) \<Rightarrow> (bytes \<Rightarrow> envelope option) \<Rightarrow> millis \<Rightarrow> session_state \<Rightarrow> session_state" where
  "poll_reads pl ser de now s =
     (if ss_end s \<noteq> Running then s
      else
        (let avail = inflight s @ rx (ss_stream s) in
         (case read_envelope de \<lparr>rx = avail, tx = [], tx_room = None\<rparr> of
            (Inr e, w) \<Rightarrow>
              poll_reads pl ser de now
                (server_message pl ser (word_of_nat now) e
                  (s\<lparr>inflight := [], ss_stream := (ss_stream s)\<lparr>rx := rx w\<rparr>, last_received := now\<rparr>))
          | (Inl err, w) \<Rightarrow>
              if err = Io UnexpectedEof
              then s\<lparr>inflight := avail, ss_stream := (ss_stream s)\<lparr>rx := []\<rparr>\<rparr>
              else s\<lparr>ss_end := EndedErr\<rparr>)))"
  by pat_completeness auto

lemma read_envelope_consumes:
  "read_envelope de w = (Inr e, w') \<Longrightarrow> length (rx w') < length (rx w)"
  by (auto simp: read_envelope_def read_exact_def bindM_def bail_def Let_def liftR_def
      split: if_splits prod.splits sum.splits)

lemma server_message_rx [simp]:
  "rx (ss_stream (server_message pl ser now e s)) = rx (ss_stream s)"
  "inflight (server_message pl ser now e s) = inflight s"
  by (cases e; auto simp: send_or_end_def s_send_def emit_def send_envelope_def bindM_def liftR_def write_all_def
      split: prod.splits sum.splits option.splits)+

termination poll_reads
  by (relation "measure (\<lambda>(pl, ser, de, now, s). length (inflight s) + length (rx (ss_stream s)))")
    (auto dest!: read_envelope_consumes [OF sym])

declare poll_reads.simps [simp del]

fun session_step ::
    "platform \<Rightarrow> (envelope \<Rightarrow> bytes option) \<Rightarrow> (bytes \<Rightarrow> envelope option) \<Rightarrow> session_input \<Rightarrow>
     session_state \<Rightarrow> session_state" where
  "session_step pl ser de Cancelled s =
     (snd (s_send ser Goodbye (s\<lparr>inflight := []\<rparr>)))\<lparr>ss_end := EndedOk\<rparr>"
| "session_step pl ser de (PingTick now ts) s =
     (let s1 = s\<lparr>inflight := []\<rparr> in
      if now - last_received s1 > DEAD_AFTER then s1\<lparr>ss_end := EndedErr\<rparr>
      else send_or_end ser (Ping ts) s1)"
| "session_step pl ser de (CmdToggle on) s = send_or_end ser (ToggleForward on) (s\<lparr>inflight := []\<rparr>)"
| "session_step pl ser de (CmdClipboard text) s = send_or_end ser (ClipboardSet text) (s\<lparr>inflight := []\<rparr>)"
| "session_step pl ser de (ClipOut text) s = snd (s_send ser (ClipboardSet text) (s\<lparr>inflight := []\<rparr>))"
| "session_step pl ser de (Arrive now bs) s =
     poll_reads pl ser de now (s\<lparr>ss_stream := (ss_stream s)\<lparr>rx := rx (ss_stream s) @ bs\<rparr>\<rparr>)"
| "session_step pl ser de PeerClosed s = s\<lparr>ss_end := EndedErr\<rparr>"

definition session_finish :: "session_state \<Rightarrow> session_state" where
  "session_finish s = emit (SE_Disconnected (ss_end s)) (s\<lparr>injector := release_all (injector s)\<rparr>)"

definition session_start :: "session_info \<Rightarrow> millis \<Rightarrow> wire \<Rightarrow> session_state" where
  "session_start si now w =
     \<lparr>ss_stream = w, inflight = [], injector = injector_new, last_received = now, clip_in = [],
      session_events = [SE_Connected (si_server_name si) (si_fingerprint si)], ss_end = Running\<rparr>"

fun session_run ::
    "platform \<Rightarrow> (envelope \<Rightarrow> bytes option) \<Rightarrow> (bytes \<Rightarrow> envelope option) \<Rightarrow> session_input list \<Rightarrow>
     session_state \<Rightarrow> session_state" where
  "session_run pl ser de [] s = s"
| "session_run pl ser de (i # is) s =
     (let s1 = session_step pl ser de i s
      in if ss_end s1 = Running then session_run pl ser de is s1 else session_finish s1)"

subsection \<open>The injector of a session\<close>

lemma server_message_injector:
  "injector_inv (injector s) \<Longrightarrow> injector_inv (injector (server_message pl ser now e s))"
  by (cases e) (auto simp: send_or_end_def s_send_def emit_def split: prod.splits sum.splits)

lemma poll_reads_injector:
  "injector_inv (injector s) \<Longrightarrow> injector_inv (injector (poll_reads pl ser de now s))"
proof (induction pl ser de now s rule: poll_reads.induct)
  case (1 pl ser de now s)
  show ?case
    by (subst poll_reads.simps)
      (auto simp: Let_def "1.prems" split: prod.splits sum.splits intro!: "1.IH" server_message_injector)
qed

lemma session_step_injector:
  "injector_inv (injector s) \<Longrightarrow> injector_inv (injector (session_step pl ser de i s))"
  by (cases i)
    (auto simp: send_or_end_def s_send_def Let_def poll_reads_injector split: prod.splits sum.splits)

lemma session_finish_injector:
  assumes "injector_inv (injector s)"
  shows "fold keys_down (calls (injector (session_finish s))) {} = {}"
    "fold buttons_down (calls (injector (session_finish s))) {} = {}"
proof -
  have "injector_inv (release_all (injector s))" using assms by simp
  then show "fold keys_down (calls (injector (session_finish s))) {} = {}"
    "fold buttons_down (calls (injector (session_finish s))) {} = {}"
    by (simp_all add: session_finish_def emit_def injector_inv_def release_all_def Let_def)
qed

lemma session_run_end:
  assumes "injector_inv (injector s)" and "ss_end s = Running"
    and "ss_end (session_run pl ser de is s) \<noteq> Running"
  shows "\<exists>s1. injector_inv (injector s1) \<and> session_run pl ser de is s = session_finish s1"
  using assms
proof (induction "is" arbitrary: s)
  case (Cons i "is")
  then show ?case
    by (auto simp: Let_def intro!: session_step_injector split: if_splits)
qed simp

section \<open>Properties of the loop\<close>

text \<open>
  C22: a session leaves nothing pressed. However it ends (cancelled, told goodbye, timed out or
  cut off), after any traffic before, no key and no mouse button is down on the client's system.
\<close>

theorem session_leaves_nothing_down:
  assumes "ss_end (session_run pl ser de is (session_start si now w)) \<noteq> Running"
  shows "fold keys_down (calls (injector (session_run pl ser de is (session_start si now w)))) {} = {} \<and>
    fold buttons_down (calls (injector (session_run pl ser de is (session_start si now w)))) {} = {}"
proof -
  have "injector_inv (injector (session_start si now w))" "ss_end (session_start si now w) = Running"
    by (simp_all add: session_start_def)
  from session_run_end [OF this assms] session_finish_injector show ?thesis by metis
qed

theorem session_leaves_nothing_down_witness:
  "fold keys_down (calls (injector (session_run Linux (\<lambda>_. Some []) (\<lambda>_. None) [PeerClosed]
     (session_start \<lparr>si_host = [], si_server_name = [], si_fingerprint = [], si_file_port = 1,
        si_stream = \<lparr>rx = [], tx = [], tx_room = None\<rparr>\<rparr> 0
       \<lparr>rx = [], tx = [], tx_room = None\<rparr>)))) {} = {}"
  by (rule session_leaves_nothing_down [THEN conjunct1]) (simp add: session_start_def session_finish_def emit_def)

section \<open>The loop at the level of messages\<close>

text \<open>
  The specification of the loop when reads are not interrupted: envelopes, not bytes, arrive.
\<close>

fun handle_messages ::
    "platform \<Rightarrow> (envelope \<Rightarrow> bytes option) \<Rightarrow> millis \<Rightarrow> envelope list \<Rightarrow> session_state \<Rightarrow> session_state" where
  "handle_messages pl ser now [] s = s"
| "handle_messages pl ser now (e # es) s =
     (if ss_end s \<noteq> Running then s
      else handle_messages pl ser now es
             (server_message pl ser (word_of_nat now) e (s\<lparr>last_received := now\<rparr>)))"

datatype message_input = Messages millis "envelope list" | Other session_input

fun message_step ::
    "platform \<Rightarrow> (envelope \<Rightarrow> bytes option) \<Rightarrow> message_input \<Rightarrow> session_state \<Rightarrow> session_state" where
  "message_step pl ser (Messages now es) s = handle_messages pl ser now es s"
| "message_step pl ser (Other i) s = session_step pl ser (\<lambda>_. None) i s"

fun message_run ::
    "platform \<Rightarrow> (envelope \<Rightarrow> bytes option) \<Rightarrow> message_input list \<Rightarrow> session_state \<Rightarrow> session_state" where
  "message_run pl ser [] s = s"
| "message_run pl ser (i # is) s =
     (let s1 = message_step pl ser i s
      in if ss_end s1 = Running then message_run pl ser is s1 else session_finish s1)"

text \<open>
  How the messages travel: each as one frame, the frames cut anywhere into the pieces that arrive. \<open>carries ser p is js\<close>:
  when the bytes \<open>p\<close> of an unfinished frame are in, the inputs \<open>js\<close> bring the messages \<open>is\<close>. A message is handled when its last
  byte arrives. What else the loop waits for happens between frames.
\<close>

definition frame :: "(envelope \<Rightarrow> bytes option) \<Rightarrow> envelope \<Rightarrow> bytes" where
  "frame ser e = (case serialize_envelope ser e of Inr b \<Rightarrow> b | Inl _ \<Rightarrow> [])"

definition sendable :: "(envelope \<Rightarrow> bytes option) \<Rightarrow> envelope \<Rightarrow> bool" where
  "sendable ser e \<longleftrightarrow> wf_envelope e \<and> \<not> isl (serialize_envelope ser e)"

definition unfinished :: "(envelope \<Rightarrow> bytes option) \<Rightarrow> bytes \<Rightarrow> bool" where
  "unfinished ser p \<longleftrightarrow> (\<exists>e q. sendable ser e \<and> q \<noteq> [] \<and> frame ser e = p @ q)"

fun is_arrival :: "session_input \<Rightarrow> bool" where
  "is_arrival (Arrive now bs) = True"
| "is_arrival _ = False"

inductive carries :: "(envelope \<Rightarrow> bytes option) \<Rightarrow> bytes \<Rightarrow> message_input list \<Rightarrow> session_input list \<Rightarrow> bool" for ser where
  carries_none: "carries ser p [] []"
| carries_bytes: "p @ b = concat (map (frame ser) es) @ q \<Longrightarrow> q = [] \<or> unfinished ser q \<Longrightarrow> list_all (sendable ser) es \<Longrightarrow>
    carries ser q is js \<Longrightarrow> carries ser p (Messages now es # is) (Arrive now b # js)"
| carries_other: "\<not> is_arrival j \<Longrightarrow> carries ser [] is js \<Longrightarrow> carries ser [] (Other j # is) (j # js)"

text \<open>A state with other bytes unread.\<close>

definition unread :: "bytes \<Rightarrow> bytes \<Rightarrow> session_state \<Rightarrow> session_state" where
  "unread r p s = s\<lparr>ss_stream := (ss_stream s)\<lparr>rx := r\<rparr>, inflight := p\<rparr>"

lemma unread_simps [simp]:
  "ss_end (unread r p s) = ss_end s" "inflight (unread r p s) = p" "rx (ss_stream (unread r p s)) = r"
  "unread r p (unread r' p' s) = unread r p s" "last_received (unread r p s) = last_received s"
  by (simp_all add: unread_def)

lemma unread_id: "rx (ss_stream s) = r \<Longrightarrow> inflight s = p \<Longrightarrow> unread r p s = s"
  by (simp add: unread_def)

lemma s_send_unread:
  "s_send ser e (unread r p s) = (fst (s_send ser e s), unread r p (snd (s_send ser e s)))"
  by (auto simp: s_send_def unread_def send_envelope_def bindM_def liftR_def write_all_def
      split: sum.splits option.splits)

lemma server_message_unread:
  "server_message pl ser now e (unread r p s) = unread r p (server_message pl ser now e s)"
  by (cases e) (auto simp: send_or_end_def s_send_unread case_prod_unfold, auto simp: unread_def emit_def)

lemma unread_received: "(unread r p s)\<lparr>last_received := n\<rparr> = unread r p (s\<lparr>last_received := n\<rparr>)"
  by (simp add: unread_def)

lemma handle_messages_unread:
  "handle_messages pl ser now es (unread r p s) = unread r p (handle_messages pl ser now es s)"
  by (induction es arbitrary: s) (simp_all add: unread_received server_message_unread)

lemma session_finish_unread: "session_finish (unread r p s) = unread r p (session_finish s)"
  by (simp add: session_finish_def unread_def emit_def)

text \<open>What is no arrival drops what is in flight, and what was in flight makes no other difference.\<close>

lemma session_step_other:
  assumes "\<not> is_arrival j"
  shows "session_step pl ser de j s = session_step pl ser (\<lambda>_. None) j s"
    and "rx (ss_stream (session_step pl ser de j s)) = rx (ss_stream s)"
    and "inflight s = [] \<Longrightarrow> inflight (session_step pl ser de j s) = []"
  using assms
  by (cases j; auto simp: send_or_end_def s_send_def send_envelope_def bindM_def liftR_def write_all_def Let_def
      split: prod.splits sum.splits option.splits)+

context envelope_codec
begin

lemma sendable_frame: "sendable ser e \<Longrightarrow> wf_envelope e \<and> serialize_envelope ser e = Inr (frame ser e)"
  by (auto simp: sendable_def frame_def isl_def split: sum.splits)

lemma read_unfinished:
  assumes "p = [] \<or> unfinished ser p"
  shows "read_envelope de \<lparr>rx = p, tx = [], tx_room = None\<rparr> = (Inl (Io UnexpectedEof), \<lparr>rx = [], tx = [], tx_room = None\<rparr>)"
proof (cases "length p < 4")
  case True
  then show ?thesis by (simp add: read_envelope_def read_exact_def bindM_def)
next
  case False
  with assms obtain e q where e: "sendable ser e" "q \<noteq> []" "frame ser e = p @ q" by (auto simp: unfinished_def)
  from sendable_frame [OF e(1)] obtain data where small: "length data \<le> MAX_ENVELOPE_SIZE"
    and fr: "frame ser e = to_be_bytes32 (word_of_nat (length data)) @ data"
    by (auto simp: serialize_envelope_def not_less split: option.splits if_splits dest: sym)
  have len: "unat (word_of_nat (length data) :: u32) = length data"
    using small by (simp add: MAX_ENVELOPE_SIZE_def unat_of_nat)
  have "take 4 (p @ q) @ drop 4 (p @ q) = to_be_bytes32 (word_of_nat (length data)) @ data"
    using fr e(3) by simp
  then have "take 4 p = to_be_bytes32 (word_of_nat (length data)) \<and> drop 4 p @ q = data"
    using False by (subst (asm) append_eq_append_conv) simp_all
  then obtain d where p: "p = to_be_bytes32 (word_of_nat (length data)) @ d" "data = d @ q"
    by (metis append_take_drop_id)
  have "length d < length data" using p(2) e(2) by simp
  with small p(1) len show ?thesis
    by (simp add: read_envelope_def read_exact_def bindM_def Let_def from_be_bytes32)
qed

lemma poll_reads_frames:
  assumes "list_all (sendable ser) es" and "q = [] \<or> unfinished ser q" and "ss_end s = Running"
    and "inflight s @ rx (ss_stream s) = concat (map (frame ser) es) @ q"
  shows "\<exists>r q'. poll_reads pl ser de now s = unread r q' (handle_messages pl ser now es s) \<and>
    (ss_end (handle_messages pl ser now es s) = Running \<longrightarrow> r = [] \<and> q' = q)"
  using assms
proof (induction es arbitrary: s)
  case Nil
  then have "poll_reads pl ser de now s = unread [] q s"
    using read_unfinished [OF Nil(2)] by (simp add: poll_reads.simps [of pl ser de now s] unread_def)
  then show ?case by (intro exI [of _ "[]"] exI [of _ q]) simp
next
  case (Cons e es)
  let ?rest = "concat (map (frame ser) es) @ q"
  from Cons.prems(1) have e: "wf_envelope e" "serialize_envelope ser e = Inr (frame ser e)" using sendable_frame by auto
  have read: "read_envelope de \<lparr>rx = frame ser e @ ?rest, tx = [], tx_room = None\<rparr> =
      (Inr e, \<lparr>rx = ?rest, tx = [], tx_room = None\<rparr>)"
    using read_serialized [OF e, of "\<lparr>rx = frame ser e @ ?rest, tx = [], tx_room = None\<rparr>" ?rest] by simp
  let ?m = "server_message pl ser (word_of_nat now) e (s\<lparr>last_received := now\<rparr>)"
  have "s\<lparr>inflight := [], ss_stream := (ss_stream s)\<lparr>rx := ?rest\<rparr>, last_received := now\<rparr> = unread ?rest [] (s\<lparr>last_received := now\<rparr>)"
    by (simp add: unread_def)
  then have step: "poll_reads pl ser de now s = poll_reads pl ser de now (unread ?rest [] ?m)"
    using Cons.prems(3,4) read by (simp add: poll_reads.simps [of pl ser de now s] server_message_unread)
  show ?case
  proof (cases "ss_end ?m = Running")
    case True
    with Cons.IH [of "unread ?rest [] ?m"] Cons.prems show ?thesis
      by (auto simp: step handle_messages_unread)
  next
    case False
    then have "poll_reads pl ser de now (unread ?rest [] ?m) = unread ?rest [] ?m" by (subst poll_reads.simps) simp
    moreover have "handle_messages pl ser now es ?m = ?m" using False by (cases es) simp_all
    ultimately show ?thesis
      using False step Cons.prems(3) by (intro exI [of _ ?rest] exI [of _ "[]"]) simp
  qed
qed

lemma session_run_carries:
  assumes "carries ser p is js" and "inflight s = []" and "rx (ss_stream s) = []" and "ss_end s = Running"
  shows "\<exists>r q. session_run pl ser de js (unread [] p s) = unread r q (message_run pl ser is s)"
  using assms
proof (induction arbitrary: s rule: carries.induct)
  case (carries_none p)
  show ?case by (intro exI) (simp only: session_run.simps message_run.simps)
next
  case (carries_bytes p b es q "is" js now)
  let ?m = "handle_messages pl ser now es s"
  have "session_step pl ser de (Arrive now b) (unread [] p s) = poll_reads pl ser de now (unread b p s)"
    by (cases s) (simp add: unread_def)
  moreover obtain r q' where "poll_reads pl ser de now (unread b p s) = unread r q' ?m"
    "ss_end ?m = Running \<longrightarrow> r = [] \<and> q' = q"
    using poll_reads_frames [OF carries_bytes(3,2), of "unread b p s" pl now] carries_bytes.prems carries_bytes(1)
    by (auto simp: handle_messages_unread)
  ultimately have step: "session_step pl ser de (Arrive now b) (unread [] p s) = unread r q' ?m"
    and run: "ss_end ?m = Running \<Longrightarrow> r = [] \<and> q' = q" by simp_all
  have clean: "inflight ?m = []" "rx (ss_stream ?m) = []"
    using carries_bytes.prems handle_messages_unread [of pl ser now es "[]" "[]" s] unread_id [of s "[]" "[]"]
    by (metis unread_simps(2,3))+
  show ?case
  proof (cases "ss_end ?m = Running")
    case True
    with run carries_bytes.IH [OF clean True] show ?thesis
      by (auto simp: step Let_def simp del: session_step.simps)
  next
    case False
    then show ?thesis
      by (intro exI [of _ r] exI [of _ q']) (simp add: step session_finish_unread Let_def del: session_step.simps)
  qed
next
  case (carries_other j "is" js)
  let ?m = "session_step pl ser (\<lambda>_. None) j s"
  have s: "unread [] [] s = s" using carries_other.prems by (simp add: unread_id)
  have step: "session_step pl ser de j s = ?m" using session_step_other(1) [OF carries_other(1)] .
  have clean: "inflight ?m = []" "rx (ss_stream ?m) = []"
    using session_step_other(2,3) [OF carries_other(1), where pl = pl and ser = ser and de = "\<lambda>_. None" and s = s]
      carries_other.prems by simp_all
  show ?case
  proof (cases "ss_end ?m = Running")
    case True
    from carries_other.IH [OF clean True] unread_id [OF clean(2,1)] show ?thesis
      using True by (auto simp: s step Let_def simp del: session_step.simps)
  next
    case False
    have fin: "inflight (session_finish ?m) = []" "rx (ss_stream (session_finish ?m)) = []"
      using clean by (simp_all add: session_finish_def emit_def)
    from unread_id [OF fin(2,1)] False show ?thesis
      by (intro exI [of _ "[]"] exI [of _ "[]"]) (simp add: s step Let_def del: session_step.simps)
  qed
qed

end

text \<open>
  C10: the loop over bytes does what the loop over messages does, as long as what else it waits for happens between
  frames. However the frames of the messages are cut into pieces and whenever these arrive, a session, interleaved in
  any way with ticks, commands and clipboard changes at which no frame is half in, ends in the state that handling each message at the
  time of its last byte gives, up to bytes that are not handled. (In the middle of a frame it does not:
  \<open>tick_drops_partial_frame\<close>.)
\<close>

theorem session_refines_messages:
  assumes "\<And>e bs. wf_envelope e \<Longrightarrow> ser e = Some bs \<Longrightarrow> de bs = Some e"
    and "carries ser [] is js" and "rx w = []"
  shows "\<exists>r q. session_run pl ser de js (session_start si now w) =
    unread r q (message_run pl ser is (session_start si now w))"
proof -
  have codec: "envelope_codec ser de" using assms(1) by unfold_locales
  let ?s = "session_start si now w"
  have s: "inflight ?s = []" "rx (ss_stream ?s) = []" "ss_end ?s = Running"
    using assms(3) by (simp_all add: session_start_def)
  from envelope_codec.session_run_carries [OF codec assms(2) s] unread_id [OF s(2,1)] show ?thesis by simp
qed

definition ex_info :: session_info where
  "ex_info = \<lparr>si_host = [], si_server_name = [], si_fingerprint = [], si_file_port = 1,
     si_stream = \<lparr>rx = [], tx = [], tx_room = None\<rparr>\<rparr>"

theorem session_refines_messages_witness:
  "\<exists>r q. session_run Linux bincode_ser bincode_de
      [Arrive 3 (take 5 (frame bincode_ser (Ping 7))), Arrive 4 (drop 5 (frame bincode_ser (Ping 7))), PingTick 9 1,
       Arrive 12 (frame bincode_ser Goodbye)]
      (session_start ex_info 0 \<lparr>rx = [], tx = [], tx_room = None\<rparr>) =
    unread r q (message_run Linux bincode_ser [Messages 3 [], Messages 4 [Ping 7], Other (PingTick 9 1), Messages 12 [Goodbye]]
      (session_start ex_info 0 \<lparr>rx = [], tx = [], tx_room = None\<rparr>))"
proof (rule session_refines_messages)
  have ok: "sendable bincode_ser (Ping 7)" "sendable bincode_ser Goodbye"
    by (simp_all add: sendable_def wf_envelope_def serialize_envelope_def bincode_ser_def MAX_ENVELOPE_SIZE_def tag_def enc_word_def)
  have "unfinished bincode_ser (take 5 (frame bincode_ser (Ping 7)))"
    unfolding unfinished_def
    by (intro exI [of _ "Ping 7"] exI [of _ "drop 5 (frame bincode_ser (Ping 7))"])
      (simp add: ok, simp add: frame_def serialize_envelope_def bincode_ser_def MAX_ENVELOPE_SIZE_def tag_def enc_word_def)
  then show "carries bincode_ser [] [Messages 3 [], Messages 4 [Ping 7], Other (PingTick 9 1), Messages 12 [Goodbye]]
      [Arrive 3 (take 5 (frame bincode_ser (Ping 7))), Arrive 4 (drop 5 (frame bincode_ser (Ping 7))), PingTick 9 1,
       Arrive 12 (frame bincode_ser Goodbye)]"
    by (intro carries_bytes [where q = "take 5 (frame bincode_ser (Ping 7))"] carries_bytes [where q = "[]"]
        carries_other carries_none) (simp_all add: ok)
qed (auto intro: bincode.de_ser)

text \<open>
  C38: a frame can be lost. When the first bytes of a frame have arrived and the keepalive tick completes before the rest,
  they are dropped with the pending read: whatever comes then, the session is the one in which they never
  arrived. Without the tick the message is handled when the rest arrives.
\<close>

theorem tick_drops_partial_frame:
  assumes "\<And>e bs. wf_envelope e \<Longrightarrow> ser e = Some bs \<Longrightarrow> de bs = Some e"
    and "sendable ser e" and "frame ser e = p @ q" and "q \<noteq> []" and "rx w = []"
  shows "session_run pl ser de (Arrive t1 p # PingTick t2 ts # js) (session_start si t0 w) =
      session_run pl ser de (PingTick t2 ts # js) (session_start si t0 w) \<and>
    (\<exists>r q'. session_run pl ser de [Arrive t1 p, Arrive t3 q] (session_start si t0 w) =
      unread r q' (message_run pl ser [Messages t3 [e]] (session_start si t0 w)))"
proof -
  have codec: "envelope_codec ser de" using assms(1) by unfold_locales
  let ?s = "session_start si t0 w"
  have s: "inflight ?s = []" "rx (ss_stream ?s) = []" "ss_end ?s = Running"
    using assms(5) by (simp_all add: session_start_def)
  have p: "unfinished ser p" using assms(2-4) by (auto simp: unfinished_def)
  have "poll_reads pl ser de t1 (?s\<lparr>ss_stream := (ss_stream ?s)\<lparr>rx := p\<rparr>\<rparr>) = unread [] p ?s"
    using envelope_codec.read_unfinished [OF codec disjI2 [OF p]] s
    by (subst poll_reads.simps) (simp add: unread_def)
  then have arrive: "session_step pl ser de (Arrive t1 p) ?s = unread [] p ?s" using s by simp
  have "(unread [] p ?s)\<lparr>inflight := []\<rparr> = ?s\<lparr>inflight := []\<rparr>" using assms(5) by (simp add: unread_def session_start_def)
  then have tick: "session_step pl ser de (PingTick t2 ts) (unread [] p ?s) = session_step pl ser de (PingTick t2 ts) ?s"
    by (simp add: Let_def)
  have "carries ser [] [Messages t1 [], Messages t3 [e]] [Arrive t1 p, Arrive t3 q]"
    using assms(2,3) p
    by (intro carries_bytes [where q = p] carries_bytes [where q = "[]"] carries_none) simp_all
  from envelope_codec.session_run_carries [OF codec this s] unread_id [OF s(2,1)]
  have "\<exists>r q'. session_run pl ser de [Arrive t1 p, Arrive t3 q] ?s = unread r q' (message_run pl ser [Messages t3 [e]] ?s)"
    using s(3) by (simp add: Let_def del: session_run.simps)
  moreover have "session_run pl ser de (Arrive t1 p # PingTick t2 ts # js) ?s = session_run pl ser de (PingTick t2 ts # js) ?s"
    using s(3) by (simp add: arrive tick Let_def del: session_step.simps)
  ultimately show ?thesis by blast
qed

theorem tick_drops_partial_frame_witness:
  "session_run Linux bincode_ser bincode_de (Arrive 1 (take 5 (frame bincode_ser Goodbye)) # PingTick 2 7 # [])
      (session_start ex_info 0 \<lparr>rx = [], tx = [], tx_room = None\<rparr>) =
    session_run Linux bincode_ser bincode_de (PingTick 2 7 # [])
      (session_start ex_info 0 \<lparr>rx = [], tx = [], tx_room = None\<rparr>) \<and>
   ss_end (session_run Linux bincode_ser bincode_de
      [Arrive 1 (take 5 (frame bincode_ser Goodbye)), Arrive 3 (drop 5 (frame bincode_ser Goodbye))]
      (session_start ex_info 0 \<lparr>rx = [], tx = [], tx_room = None\<rparr>)) = EndedOk"
proof -
  have ok: "sendable bincode_ser Goodbye"
    by (simp add: sendable_def wf_envelope_def serialize_envelope_def bincode_ser_def MAX_ENVELOPE_SIZE_def tag_def enc_word_def)
  have rest: "drop 5 (frame bincode_ser Goodbye) \<noteq> []"
    by (simp add: frame_def serialize_envelope_def bincode_ser_def MAX_ENVELOPE_SIZE_def tag_def enc_word_def)
  let ?w = "\<lparr>rx = [], tx = [], tx_room = None\<rparr> :: wire"
  note lost = tick_drops_partial_frame [where ser = bincode_ser and de = bincode_de and e = Goodbye and w = ?w
      and p = "take 5 (frame bincode_ser Goodbye)" and q = "drop 5 (frame bincode_ser Goodbye)", OF bincode.de_ser ok]
  have "ss_end (message_run Linux bincode_ser [Messages 3 [Goodbye]] (session_start ex_info 0 ?w)) = EndedOk"
    by (simp add: session_start_def session_finish_def emit_def)
  with lost [of Linux 1 2 7 "[]" ex_info 0 3] rest show ?thesis by auto
qed

section \<open>The clipboard thread\<close>

text \<open>
  One round of the client's clipboard thread: apply what the server sent, then look for a local
  change. \<open>set_ok\<close> says whether a text can be set; the last component is what goes to the server.
\<close>

fun apply_incoming ::
    "(string \<Rightarrow> bool) \<Rightarrow> string list \<Rightarrow> string option \<Rightarrow> string option \<Rightarrow> string option \<times> string option" where
  "apply_incoming set_ok [] last_seen board = (last_seen, board)"
| "apply_incoming set_ok (text # q) last_seen board =
     (if set_ok text then apply_incoming set_ok q (Some text) (Some text)
      else apply_incoming set_ok q last_seen board)"

definition CLIENT_MAX_CLIPBOARD_BYTES :: nat where
  "CLIENT_MAX_CLIPBOARD_BYTES = 1024 * 1024"

definition clip_round ::
    "(string \<Rightarrow> bool) \<Rightarrow> string list \<Rightarrow> string option \<Rightarrow> string option \<Rightarrow>
     string option \<times> string option \<times> string option" where
  "clip_round set_ok incoming last_seen0 board0 =
     (case apply_incoming set_ok incoming last_seen0 board0 of
        (last_seen, board) \<Rightarrow>
          (case board of
             None \<Rightarrow> (last_seen, board, None)
           | Some text \<Rightarrow>
               if text \<noteq> [] \<and> length text \<le> CLIENT_MAX_CLIPBOARD_BYTES \<and> last_seen \<noteq> Some text
               then (Some text, board, Some text)
               else (last_seen, board, None)))"

lemma apply_incoming_in_step:
  "apply_incoming set_ok q last_seen board = (l, b) \<Longrightarrow>
   (last_seen = board \<longrightarrow> l = b) \<and> (l = last_seen \<and> b = board \<or> l = b)"
  by (induction q arbitrary: last_seen board) (auto split: if_splits)

text \<open>
  The client does not echo either. A round that starts with the clipboard holding the text
  last seen sends nothing to the server, whether or not setting the received texts works.
\<close>

theorem client_clipboard_no_echo:
  "case clip_round set_ok incoming (Some cur) (Some cur) of
     (last_seen, board, sent) \<Rightarrow> sent = None \<and> last_seen = board"
proof -
  obtain l b where a: "apply_incoming set_ok incoming (Some cur) (Some cur) = (l, b)"
    by (cases "apply_incoming set_ok incoming (Some cur) (Some cur)")
  with apply_incoming_in_step have "l = b" by blast
  with a show ?thesis by (auto simp: clip_round_def split: option.split)
qed

end
