(* ===== verification/Channel.thy ===== *)
theory Channel
  imports Session "HOL-Library.Sublist"
begin

text \<open>
  The two ends of a control connection that may break: the writer and reader tasks of the server
  (\<^verbatim>\<open>server/src/server.rs\<close>, \<open>handle_client\<close>) and the session loop of the client (\<^verbatim>\<open>client/src/session.rs\<close>). The writer
  task stops at the first envelope that cannot be framed or written, the reader task at the first frame
  that is cut off.
\<close>

definition framable :: "(envelope \<Rightarrow> bytes option) \<Rightarrow> envelope \<Rightarrow> bool" where
  "framable ser e \<longleftrightarrow> (case serialize_envelope ser e of Inr _ \<Rightarrow> True | Inl _ \<Rightarrow> False)"

definition frames :: "(envelope \<Rightarrow> bytes option) \<Rightarrow> envelope list \<Rightarrow> bytes" where
  "frames ser es = concat (map (frame ser) (takeWhile (framable ser) es))"

lemma frames_simps [simp]:
  "frames ser [] = []"
  "framable ser e \<Longrightarrow> frames ser (e # es) = frame ser e @ frames ser es"
  "\<not> framable ser e \<Longrightarrow> frames ser (e # es) = []"
  by (simp_all add: frames_def)


section \<open>The writer task\<close>




section \<open>The reader task\<close>






section \<open>Down: the writer task and the session loop\<close>





section \<open>Up: the session loop and the reader task\<close>











section \<open>Both directions\<close>




section \<open>Properties\<close>



end
