(* ===== verification/Keys.thy ===== *)
theory Keys
  imports Protocol
begin

text \<open>
  The keys and buttons reported by \<open>rdev\<close>, as the exhaustive matches of
  \<^verbatim>\<open>server/src/capture.rs\<close> list them, and the table that maps a key to the code shared with the
  client (\<open>key_to_code\<close>).
\<close>

section \<open>Keys and buttons\<close>

datatype (plugins only: size) rdev_key =
    K_Escape | K_Num1 | K_Num2 | K_Num3 | K_Num4 | K_Num5 | K_Num6 | K_Num7 | K_Num8 |
    K_Num9 | K_Num0 | K_Minus | K_Equal | K_Backspace | K_Tab | K_KeyQ | K_KeyW | K_KeyE |
    K_KeyR | K_KeyT | K_KeyY | K_KeyU | K_KeyI | K_KeyO | K_KeyP | K_LeftBracket |
    K_RightBracket | K_Return | K_ControlLeft | K_KeyA | K_KeyS | K_KeyD | K_KeyF | K_KeyG |
    K_KeyH | K_KeyJ | K_KeyK | K_KeyL | K_SemiColon | K_Quote | K_BackQuote | K_ShiftLeft |
    K_BackSlash | K_KeyZ | K_KeyX | K_KeyC | K_KeyV | K_KeyB | K_KeyN | K_KeyM | K_Comma |
    K_Dot | K_Slash | K_ShiftRight | K_KpMultiply | K_Alt | K_Space | K_CapsLock | K_F1 |
    K_F2 | K_F3 | K_F4 | K_F5 | K_F6 | K_F7 | K_F8 | K_F9 | K_F10 | K_NumLock | K_ScrollLock |
    K_Kp7 | K_Kp8 | K_Kp9 | K_KpMinus | K_Kp4 | K_Kp5 | K_Kp6 | K_KpPlus | K_Kp1 | K_Kp2 |
    K_Kp3 | K_Kp0 | K_KpDelete | K_IntlBackslash | K_F11 | K_F12 | K_KpReturn |
    K_ControlRight | K_KpDivide | K_PrintScreen | K_AltGr | K_Home | K_UpArrow | K_PageUp |
    K_LeftArrow | K_RightArrow | K_End | K_DownArrow | K_PageDown | K_Insert | K_Delete |
    K_Pause | K_MetaLeft | K_MetaRight | K_Function | K_Unknown u32

datatype rdev_button = RB_Left | RB_Right | RB_Middle | RB_Unknown u8

fun convert_mouse_button :: "rdev_button \<Rightarrow> mouse_button" where
  "convert_mouse_button RB_Left = MB_Left"
| "convert_mouse_button RB_Right = MB_Right"
| "convert_mouse_button RB_Middle = MB_Middle"
| "convert_mouse_button (RB_Unknown n) =
     (if n = 4 then MB_Back else if n = 5 then MB_Forward else MB_Left)"

section \<open>Key codes\<close>

text \<open>
  The last equation adds on \<open>u32\<close>: as in a release build, the sum wraps around.
\<close>

primrec key_to_code :: "rdev_key \<Rightarrow> u32" where
  "key_to_code K_Escape = 1"
| "key_to_code K_Num1 = 2"
| "key_to_code K_Num2 = 3"
| "key_to_code K_Num3 = 4"
| "key_to_code K_Num4 = 5"
| "key_to_code K_Num5 = 6"
| "key_to_code K_Num6 = 7"
| "key_to_code K_Num7 = 8"
| "key_to_code K_Num8 = 9"
| "key_to_code K_Num9 = 10"
| "key_to_code K_Num0 = 11"
| "key_to_code K_Minus = 12"
| "key_to_code K_Equal = 13"
| "key_to_code K_Backspace = 14"
| "key_to_code K_Tab = 15"
| "key_to_code K_KeyQ = 16"
| "key_to_code K_KeyW = 17"
| "key_to_code K_KeyE = 18"
| "key_to_code K_KeyR = 19"
| "key_to_code K_KeyT = 20"
| "key_to_code K_KeyY = 21"
| "key_to_code K_KeyU = 22"
| "key_to_code K_KeyI = 23"
| "key_to_code K_KeyO = 24"
| "key_to_code K_KeyP = 25"
| "key_to_code K_LeftBracket = 26"
| "key_to_code K_RightBracket = 27"
| "key_to_code K_Return = 28"
| "key_to_code K_ControlLeft = 29"
| "key_to_code K_KeyA = 30"
| "key_to_code K_KeyS = 31"
| "key_to_code K_KeyD = 32"
| "key_to_code K_KeyF = 33"
| "key_to_code K_KeyG = 34"
| "key_to_code K_KeyH = 35"
| "key_to_code K_KeyJ = 36"
| "key_to_code K_KeyK = 37"
| "key_to_code K_KeyL = 38"
| "key_to_code K_SemiColon = 39"
| "key_to_code K_Quote = 40"
| "key_to_code K_BackQuote = 41"
| "key_to_code K_ShiftLeft = 42"
| "key_to_code K_BackSlash = 43"
| "key_to_code K_KeyZ = 44"
| "key_to_code K_KeyX = 45"
| "key_to_code K_KeyC = 46"
| "key_to_code K_KeyV = 47"
| "key_to_code K_KeyB = 48"
| "key_to_code K_KeyN = 49"
| "key_to_code K_KeyM = 50"
| "key_to_code K_Comma = 51"
| "key_to_code K_Dot = 52"
| "key_to_code K_Slash = 53"
| "key_to_code K_ShiftRight = 54"
| "key_to_code K_KpMultiply = 55"
| "key_to_code K_Alt = 56"
| "key_to_code K_Space = 57"
| "key_to_code K_CapsLock = 58"
| "key_to_code K_F1 = 59"
| "key_to_code K_F2 = 60"
| "key_to_code K_F3 = 61"
| "key_to_code K_F4 = 62"
| "key_to_code K_F5 = 63"
| "key_to_code K_F6 = 64"
| "key_to_code K_F7 = 65"
| "key_to_code K_F8 = 66"
| "key_to_code K_F9 = 67"
| "key_to_code K_F10 = 68"
| "key_to_code K_NumLock = 69"
| "key_to_code K_ScrollLock = 70"
| "key_to_code K_Kp7 = 71"
| "key_to_code K_Kp8 = 72"
| "key_to_code K_Kp9 = 73"
| "key_to_code K_KpMinus = 74"
| "key_to_code K_Kp4 = 75"
| "key_to_code K_Kp5 = 76"
| "key_to_code K_Kp6 = 77"
| "key_to_code K_KpPlus = 78"
| "key_to_code K_Kp1 = 79"
| "key_to_code K_Kp2 = 80"
| "key_to_code K_Kp3 = 81"
| "key_to_code K_Kp0 = 82"
| "key_to_code K_KpDelete = 83"
| "key_to_code K_IntlBackslash = 86"
| "key_to_code K_F11 = 87"
| "key_to_code K_F12 = 88"
| "key_to_code K_KpReturn = 96"
| "key_to_code K_ControlRight = 97"
| "key_to_code K_KpDivide = 98"
| "key_to_code K_PrintScreen = 99"
| "key_to_code K_AltGr = 100"
| "key_to_code K_Home = 102"
| "key_to_code K_UpArrow = 103"
| "key_to_code K_PageUp = 104"
| "key_to_code K_LeftArrow = 105"
| "key_to_code K_RightArrow = 106"
| "key_to_code K_End = 107"
| "key_to_code K_DownArrow = 108"
| "key_to_code K_PageDown = 109"
| "key_to_code K_Insert = 110"
| "key_to_code K_Delete = 111"
| "key_to_code K_Pause = 119"
| "key_to_code K_MetaLeft = 125"
| "key_to_code K_MetaRight = 126"
| "key_to_code K_Function = 464"
| "key_to_code (K_Unknown n) = 0x10000 + n"

section \<open>The canonical keys\<close>

text \<open>Every key but the platform-specific \<open>Unknown\<close> ones.\<close>

definition canonical_keys :: "rdev_key list" where
  "canonical_keys =
     [
      K_Escape, K_Num1, K_Num2, K_Num3, K_Num4, K_Num5, K_Num6, K_Num7, K_Num8, K_Num9,
      K_Num0, K_Minus, K_Equal, K_Backspace, K_Tab, K_KeyQ, K_KeyW, K_KeyE, K_KeyR, K_KeyT,
      K_KeyY, K_KeyU, K_KeyI, K_KeyO, K_KeyP, K_LeftBracket, K_RightBracket, K_Return,
      K_ControlLeft, K_KeyA, K_KeyS, K_KeyD, K_KeyF, K_KeyG, K_KeyH, K_KeyJ, K_KeyK, K_KeyL,
      K_SemiColon, K_Quote, K_BackQuote, K_ShiftLeft, K_BackSlash, K_KeyZ, K_KeyX, K_KeyC,
      K_KeyV, K_KeyB, K_KeyN, K_KeyM, K_Comma, K_Dot, K_Slash, K_ShiftRight, K_KpMultiply,
      K_Alt, K_Space, K_CapsLock, K_F1, K_F2, K_F3, K_F4, K_F5, K_F6, K_F7, K_F8, K_F9, K_F10,
      K_NumLock, K_ScrollLock, K_Kp7, K_Kp8, K_Kp9, K_KpMinus, K_Kp4, K_Kp5, K_Kp6, K_KpPlus,
      K_Kp1, K_Kp2, K_Kp3, K_Kp0, K_KpDelete, K_IntlBackslash, K_F11, K_F12, K_KpReturn,
      K_ControlRight, K_KpDivide, K_PrintScreen, K_AltGr, K_Home, K_UpArrow, K_PageUp,
      K_LeftArrow, K_RightArrow, K_End, K_DownArrow, K_PageDown, K_Insert, K_Delete, K_Pause,
      K_MetaLeft, K_MetaRight, K_Function]"

lemma canonical_keys_complete: "k \<in> set canonical_keys \<or> (\<exists>n. k = K_Unknown n)"
  by (cases k) (simp_all add: canonical_keys_def)

lemma Unknown_not_canonical [simp]: "K_Unknown n \<notin> set canonical_keys"
  by (simp add: canonical_keys_def)

lemma distinct_canonical_codes: "distinct (map key_to_code canonical_keys)"
  by (simp add: canonical_keys_def)

lemma canonical_codes_range:
  "\<forall>k \<in> set canonical_keys. key_to_code k \<noteq> 0 \<and> unat (key_to_code k) < 0x10000"
  by (simp add: canonical_keys_def)

lemma key_to_code_inject_canonical:
  assumes "k \<in> set canonical_keys" and "l \<in> set canonical_keys"
  shows "key_to_code k = key_to_code l \<longleftrightarrow> k = l"
  using distinct_canonical_codes assms by (auto simp: distinct_map inj_on_def)

lemma unat_key_to_code_Unknown:
  assumes "unat n < 2 ^ 32 - 2 ^ 16"
  shows "unat (key_to_code (K_Unknown n)) = 0x10000 + unat n"
  using assms by (simp add: unat_word_ariths)

end
