(* ===== verification/Hotkey.thy ===== *)
theory Hotkey
  imports Keys
begin

text \<open>
  \<^verbatim>\<open>server/src/hotkey.rs\<close>: parsing a configured hotkey such as \<open>Ctrl+Alt+F\<close> into a chord. The
  loop of \<open>parse_hotkey\<close> is \<open>parse_parts\<close>; the lemmas show that it accepts exactly the strings
  with one part that is not a modifier, provided that part names a key, and that the order
  and the spelling of the modifiers do not matter.
\<close>

section \<open>Chords\<close>

record hotkey_chord =
  hk_ctrl :: bool
  hk_alt :: bool
  hk_shift :: bool
  hk_meta :: bool
  hk_key :: rdev_key

datatype hotkey_error =
    EmptyHotkey
  | MultipleKeyCodes string
  | NoKeyCode string
  | UnknownKeyCode string
  | HotkeyUnreachable

section \<open>Key names\<close>

definition letter_keys :: "(char \<times> rdev_key) list" where
  "letter_keys =
     [(CHR ''A'', K_KeyA), (CHR ''B'', K_KeyB), (CHR ''C'', K_KeyC), (CHR ''D'', K_KeyD),
      (CHR ''E'', K_KeyE), (CHR ''F'', K_KeyF), (CHR ''G'', K_KeyG), (CHR ''H'', K_KeyH),
      (CHR ''I'', K_KeyI), (CHR ''J'', K_KeyJ), (CHR ''K'', K_KeyK), (CHR ''L'', K_KeyL),
      (CHR ''M'', K_KeyM), (CHR ''N'', K_KeyN), (CHR ''O'', K_KeyO), (CHR ''P'', K_KeyP),
      (CHR ''Q'', K_KeyQ), (CHR ''R'', K_KeyR), (CHR ''S'', K_KeyS), (CHR ''T'', K_KeyT),
      (CHR ''U'', K_KeyU), (CHR ''V'', K_KeyV), (CHR ''W'', K_KeyW), (CHR ''X'', K_KeyX),
      (CHR ''Y'', K_KeyY), (CHR ''Z'', K_KeyZ)]"

definition digit_keys :: "(char \<times> rdev_key) list" where
  "digit_keys =
     [(CHR ''0'', K_Num0), (CHR ''1'', K_Num1), (CHR ''2'', K_Num2), (CHR ''3'', K_Num3),
      (CHR ''4'', K_Num4), (CHR ''5'', K_Num5), (CHR ''6'', K_Num6), (CHR ''7'', K_Num7),
      (CHR ''8'', K_Num8), (CHR ''9'', K_Num9)]"

definition named_keys :: "(string \<times> rdev_key) list" where
  "named_keys =
     [(''F1'', K_F1), (''F2'', K_F2), (''F3'', K_F3), (''F4'', K_F4), (''F5'', K_F5),
      (''F6'', K_F6), (''F7'', K_F7), (''F8'', K_F8), (''F9'', K_F9), (''F10'', K_F10),
      (''F11'', K_F11), (''F12'', K_F12), (''SPACE'', K_Space),
      (''ESCAPE'', K_Escape), (''ESC'', K_Escape), (''TAB'', K_Tab),
      (''ENTER'', K_Return), (''RETURN'', K_Return),
      (''UP'', K_UpArrow), (''UPARROW'', K_UpArrow),
      (''DOWN'', K_DownArrow), (''DOWNARROW'', K_DownArrow),
      (''LEFT'', K_LeftArrow), (''LEFTARROW'', K_LeftArrow),
      (''RIGHT'', K_RightArrow), (''RIGHTARROW'', K_RightArrow),
      (''HOME'', K_Home), (''END'', K_End), (''PAGEUP'', K_PageUp),
      (''PAGEDOWN'', K_PageDown), (''INSERT'', K_Insert),
      (''DELETE'', K_Delete), (''DEL'', K_Delete), (''BACKSPACE'', K_Backspace),
      (''PAUSE'', K_Pause), (''SCROLLLOCK'', K_ScrollLock),
      (''PRINTSCREEN'', K_PrintScreen), (''PRTSC'', K_PrintScreen),
      (''BACKQUOTE'', K_BackQuote), (''GRAVE'', K_BackQuote), ([CHR 0x60], K_BackQuote)]"

text \<open>The two \<open>unreachable!()\<close> arms are kept as an error of their own.\<close>

definition table_key :: "(char \<times> rdev_key) list \<Rightarrow> char \<Rightarrow> hotkey_error + rdev_key" where
  "table_key t c = (case map_of t c of Some k \<Rightarrow> Inr k | None \<Rightarrow> Inl HotkeyUnreachable)"

definition parse_key_name :: "string \<Rightarrow> hotkey_error + rdev_key" where
  "parse_key_name s =
     (let upper = to_uppercase s in
      if length upper = 1 \<and> is_ascii_alphabetic (hd upper) then table_key letter_keys (hd upper)
      else if length upper = 1 \<and> is_ascii_digit (hd upper) then table_key digit_keys (hd upper)
      else (case map_of named_keys upper of
              Some k \<Rightarrow> Inr k
            | None \<Rightarrow> Inl (UnknownKeyCode s)))"

section \<open>The parser\<close>

definition hotkey_parts :: "string \<Rightarrow> string list" where
  "hotkey_parts s = filter (\<lambda>p. p \<noteq> []) (map trim (split_char (CHR ''+'') s))"

record chord_acc =
  acc_ctrl :: bool
  acc_alt :: bool
  acc_shift :: bool
  acc_meta :: bool
  acc_key :: "rdev_key option"

fun parse_parts :: "string \<Rightarrow> string list \<Rightarrow> chord_acc \<Rightarrow> hotkey_error + chord_acc" where
  "parse_parts s [] a = Inr a"
| "parse_parts s (part # ps) a =
     (let low = to_lowercase part in
      if low \<in> {''ctrl'', ''control''} then parse_parts s ps (a\<lparr>acc_ctrl := True\<rparr>)
      else if low = ''alt'' then parse_parts s ps (a\<lparr>acc_alt := True\<rparr>)
      else if low = ''shift'' then parse_parts s ps (a\<lparr>acc_shift := True\<rparr>)
      else if low \<in> {''super'', ''win'', ''meta'', ''cmd''}
      then parse_parts s ps (a\<lparr>acc_meta := True\<rparr>)
      else if acc_key a \<noteq> None then Inl (MultipleKeyCodes s)
      else (case parse_key_name low of
              Inl e \<Rightarrow> Inl e
            | Inr k \<Rightarrow> parse_parts s ps (a\<lparr>acc_key := Some k\<rparr>)))"

definition parse_hotkey :: "string \<Rightarrow> hotkey_error + hotkey_chord" where
  "parse_hotkey s =
     (let parts = hotkey_parts s in
      if parts = [] then Inl EmptyHotkey
      else (case parse_parts s parts
                   \<lparr>acc_ctrl = False, acc_alt = False, acc_shift = False, acc_meta = False,
                    acc_key = None\<rparr> of
              Inl e \<Rightarrow> Inl e
            | Inr a \<Rightarrow>
                (case acc_key a of
                   None \<Rightarrow> Inl (NoKeyCode s)
                 | Some k \<Rightarrow>
                     Inr \<lparr>hk_ctrl = acc_ctrl a, hk_alt = acc_alt a, hk_shift = acc_shift a,
                          hk_meta = acc_meta a, hk_key = k\<rparr>)))"

section \<open>What a part contributes\<close>

definition is_ctrl :: "string \<Rightarrow> bool" where
  "is_ctrl p \<longleftrightarrow> to_lowercase p \<in> {''ctrl'', ''control''}"

definition is_alt :: "string \<Rightarrow> bool" where
  "is_alt p \<longleftrightarrow> to_lowercase p = ''alt''"

definition is_shift :: "string \<Rightarrow> bool" where
  "is_shift p \<longleftrightarrow> to_lowercase p = ''shift''"

definition is_meta :: "string \<Rightarrow> bool" where
  "is_meta p \<longleftrightarrow> to_lowercase p \<in> {''super'', ''win'', ''meta'', ''cmd''}"

definition is_key_part :: "string \<Rightarrow> bool" where
  "is_key_part p \<longleftrightarrow> \<not> is_ctrl p \<and> \<not> is_alt p \<and> \<not> is_shift p \<and> \<not> is_meta p"

lemmas part_class_defs = is_ctrl_def is_alt_def is_shift_def is_meta_def is_key_part_def

definition add_modifiers :: "string list \<Rightarrow> chord_acc \<Rightarrow> chord_acc" where
  "add_modifiers ps a =
     a\<lparr>acc_ctrl := acc_ctrl a \<or> list_ex is_ctrl ps,
       acc_alt := acc_alt a \<or> list_ex is_alt ps,
       acc_shift := acc_shift a \<or> list_ex is_shift ps,
       acc_meta := acc_meta a \<or> list_ex is_meta ps\<rparr>"

lemma parse_parts_step:
  "parse_parts s (p # ps) a =
     (if is_key_part p then
        (if acc_key a \<noteq> None then Inl (MultipleKeyCodes s)
         else (case parse_key_name (to_lowercase p) of
                 Inl e \<Rightarrow> Inl e
               | Inr k \<Rightarrow> parse_parts s ps (a\<lparr>acc_key := Some k\<rparr>)))
      else parse_parts s ps (add_modifiers [p] a))"
  by (auto simp: part_class_defs add_modifiers_def Let_def)

lemma add_modifiers_Cons:
  "add_modifiers (p # ps) a = add_modifiers ps (add_modifiers [p] a)"
  "add_modifiers [] a = a"
  by (simp_all add: add_modifiers_def disj_assoc)

lemma add_modifiers_key [simp]:
  "acc_key (add_modifiers ps a) = acc_key a"
  "add_modifiers ps (a\<lparr>acc_key := k\<rparr>) = (add_modifiers ps a)\<lparr>acc_key := k\<rparr>"
  by (simp_all add: add_modifiers_def)

lemma add_modifiers_key_part: "is_key_part p \<Longrightarrow> add_modifiers [p] a = a"
  by (simp add: add_modifiers_def part_class_defs)

declare parse_parts.simps(2) [simp del]

lemma parse_parts_key_taken:
  "acc_key a = Some k \<Longrightarrow>
   parse_parts s ps a = Inr b \<longleftrightarrow> filter is_key_part ps = [] \<and> b = add_modifiers ps a"
proof (induction ps arbitrary: a)
  case Nil
  then show ?case by (auto simp: add_modifiers_Cons)
next
  case (Cons p ps)
  show ?case
  proof (cases "is_key_part p")
    case True
    with Cons.prems show ?thesis by (simp add: parse_parts_step)
  next
    case False
    with Cons.IH [of "add_modifiers [p] a"] Cons.prems show ?thesis
      by (simp add: parse_parts_step add_modifiers_Cons(1) [of p ps])
  qed
qed

lemma parse_parts_key_free:
  "acc_key a = None \<Longrightarrow>
   parse_parts s ps a = Inr b \<longleftrightarrow>
     (filter is_key_part ps = [] \<and> b = add_modifiers ps a) \<or>
     (\<exists>p k. filter is_key_part ps = [p] \<and> parse_key_name (to_lowercase p) = Inr k \<and>
            b = (add_modifiers ps a)\<lparr>acc_key := Some k\<rparr>)"
proof (induction ps arbitrary: a)
  case Nil
  then show ?case by (auto simp: add_modifiers_Cons)
next
  case (Cons p ps)
  show ?case
  proof (cases "is_key_part p")
    case True
    with Cons.prems show ?thesis
      by (auto simp: parse_parts_step parse_parts_key_taken add_modifiers_Cons(1) [of p ps]
          add_modifiers_key_part split: sum.splits)
  next
    case False
    with Cons.IH [of "add_modifiers [p] a"] Cons.prems show ?thesis
      by (simp add: parse_parts_step add_modifiers_Cons(1) [of p ps])
  qed
qed

definition chord_of :: "string list \<Rightarrow> rdev_key \<Rightarrow> hotkey_chord" where
  "chord_of ps k =
     \<lparr>hk_ctrl = list_ex is_ctrl ps, hk_alt = list_ex is_alt ps, hk_shift = list_ex is_shift ps,
      hk_meta = list_ex is_meta ps, hk_key = k\<rparr>"

text \<open>
  What \<open>parse_hotkey\<close> accepts. A chord is accepted exactly when one of its non-empty,
  trimmed parts is not a modifier word and names a key; the chord then has each modifier
  that some part names, in whatever order and spelling the parts come.
\<close>

theorem parse_hotkey_accepts:
  "parse_hotkey s = Inr ch \<longleftrightarrow>
     (\<exists>p k. filter is_key_part (hotkey_parts s) = [p] \<and>
            parse_key_name (to_lowercase p) = Inr k \<and> ch = chord_of (hotkey_parts s) k)"
proof -
  define a0 where "a0 = \<lparr>acc_ctrl = False, acc_alt = False, acc_shift = False, acc_meta = False,
    acc_key = None :: rdev_key option\<rparr>"
  have key: "acc_key a0 = None" by (simp add: a0_def)
  have chord: "\<lparr>hk_ctrl = acc_ctrl (add_modifiers ps a0), hk_alt = acc_alt (add_modifiers ps a0),
      hk_shift = acc_shift (add_modifiers ps a0), hk_meta = acc_meta (add_modifiers ps a0),
      hk_key = k\<rparr> = chord_of ps k" for ps k
    by (simp add: add_modifiers_def a0_def chord_of_def)
  show ?thesis
  proof (cases "parse_parts s (hotkey_parts s) a0")
    case (Inl e)
    have "\<not> (\<exists>p k. filter is_key_part (hotkey_parts s) = [p] \<and>
      parse_key_name (to_lowercase p) = Inr k)"
    proof (rule notI, elim exE)
      fix p k
      assume "filter is_key_part (hotkey_parts s) = [p] \<and> parse_key_name (to_lowercase p) = Inr k"
      then have "parse_parts s (hotkey_parts s) a0 =
          Inr ((add_modifiers (hotkey_parts s) a0)\<lparr>acc_key := Some k\<rparr>)"
        by (subst parse_parts_key_free [OF key]) blast
      with Inl show False by simp
    qed
    with Inl show ?thesis
      by (auto simp: parse_hotkey_def Let_def a0_def [symmetric])
  next
    case (Inr b)
    note spec = Inr [unfolded parse_parts_key_free [OF key]]
    show ?thesis
      using spec
    proof
      assume "filter is_key_part (hotkey_parts s) = [] \<and> b = add_modifiers (hotkey_parts s) a0"
      with Inr key show ?thesis
        by (simp add: parse_hotkey_def Let_def a0_def [symmetric])
    next
      assume "\<exists>p k. filter is_key_part (hotkey_parts s) = [p] \<and>
        parse_key_name (to_lowercase p) = Inr k \<and>
        b = (add_modifiers (hotkey_parts s) a0)\<lparr>acc_key := Some k\<rparr>"
      then obtain p k where p: "filter is_key_part (hotkey_parts s) = [p]"
        and k: "parse_key_name (to_lowercase p) = Inr k"
        and b: "b = (add_modifiers (hotkey_parts s) a0)\<lparr>acc_key := Some k\<rparr>"
        by blast
      from p have "hotkey_parts s \<noteq> []" by auto
      with Inr b chord [of "hotkey_parts s" k] have "parse_hotkey s = Inr (chord_of (hotkey_parts s) k)"
        by (simp add: parse_hotkey_def Let_def a0_def [symmetric])
      with p k show ?thesis by auto
    qed
  qed
qed

subsection \<open>The unreachable arms\<close>

lemma table_complete:
  assumes "list_all (\<lambda>n. map_of t (char_of n) \<noteq> None) [lo..<hi]"
    and "lo \<le> (of_char c :: nat)" and "(of_char c :: nat) < hi"
  shows "\<exists>k. map_of t c = Some k"
proof -
  from assms(2,3) have "(of_char c :: nat) \<in> set [lo..<hi]" by simp
  with assms(1) [unfolded list_all_iff] have "map_of t (char_of (of_char c :: nat)) \<noteq> None"
    by (rule bspec)
  then show ?thesis by simp
qed

lemma letter_keys_complete: "is_ascii_upper c \<Longrightarrow> \<exists>k. map_of letter_keys c = Some k"
proof -
  have "list_all (\<lambda>n. map_of letter_keys (char_of n) \<noteq> None) [65..<91]"
    by code_simp
  then show "is_ascii_upper c \<Longrightarrow> \<exists>k. map_of letter_keys c = Some k"
    by (rule table_complete) (simp_all add: is_ascii_upper_def)
qed

lemma digit_keys_complete: "is_ascii_digit c \<Longrightarrow> \<exists>k. map_of digit_keys c = Some k"
proof -
  have "list_all (\<lambda>n. map_of digit_keys (char_of n) \<noteq> None) [48..<58]"
    by code_simp
  then show "is_ascii_digit c \<Longrightarrow> \<exists>k. map_of digit_keys c = Some k"
    by (rule table_complete) (simp_all add: is_ascii_digit_def)
qed

lemma ascii_upper_not_lower: "\<not> is_ascii_lower (ascii_upper c)"
  by (auto simp: ascii_upper_def is_ascii_lower_def of_char_of)

lemma upper_two_not_lower: "upper_two a b = Some u \<Longrightarrow> c \<in> set u \<Longrightarrow> \<not> is_ascii_lower c"
  by (auto simp: upper_two_def is_ascii_lower_def Let_def split: if_splits)

lemma upper_ligature_not_lower:
  "upper_ligature a = Some u \<Longrightarrow> c \<in> set u \<Longrightarrow> \<not> is_ascii_lower c"
  by (auto simp: upper_ligature_def is_ascii_lower_def Let_def split: if_splits)

lemma to_uppercase_not_lower: "c \<in> set (to_uppercase s) \<Longrightarrow> \<not> is_ascii_lower c"
proof (induction s rule: to_uppercase.induct)
  case (3 a b cs)
  let ?lig = "\<lambda>c. if a = char_of (0xEF :: nat) \<and> b = char_of (0xAC :: nat)
    then upper_ligature c else None"
  show ?case
  proof (cases "upper_two a b")
    case (Some u)
    with 3 show ?thesis by (auto dest: upper_two_not_lower)
  next
    case two: None
    show ?thesis
    proof (cases cs)
      case Nil
      with 3 two show ?thesis by (auto simp: ascii_upper_not_lower)
    next
      case (Cons d ds)
      show ?thesis
      proof (cases "?lig d")
        case None
        with 3 two Cons have "c = ascii_upper a \<or> c \<in> set (to_uppercase (b # cs))"
          by (simp del: to_uppercase.simps(3) add: to_uppercase.simps(3) [of a b])
        with 3 two Cons None show ?thesis by (auto simp: ascii_upper_not_lower)
      next
        case (Some u)
        with 3 two Cons have "c \<in> set u \<or> c \<in> set (to_uppercase ds)"
          by (simp del: to_uppercase.simps(3) add: to_uppercase.simps(3) [of a b])
        with 3 two Cons Some show ?thesis
          by (auto dest: upper_ligature_not_lower split: if_splits)
      qed
    qed
  qed
qed (auto simp: ascii_upper_not_lower)

lemma parse_key_name_not_unreachable: "parse_key_name s \<noteq> Inl HotkeyUnreachable"
proof -
  have "is_ascii_upper (hd (to_uppercase s))"
    if "length (to_uppercase s) = 1" "is_ascii_alphabetic (hd (to_uppercase s))"
  proof -
    from that(1) have "hd (to_uppercase s) \<in> set (to_uppercase s)"
      by (cases "to_uppercase s") auto
    then have "\<not> is_ascii_lower (hd (to_uppercase s))" by (rule to_uppercase_not_lower)
    with that(2) show ?thesis by (simp add: is_ascii_alphabetic_def)
  qed
  then show ?thesis
    using letter_keys_complete [of "hd (to_uppercase s)"]
      digit_keys_complete [of "hd (to_uppercase s)"]
    by (auto simp: parse_key_name_def table_key_def Let_def split: option.splits)
qed

lemma parse_parts_not_unreachable: "parse_parts s ps a \<noteq> Inl HotkeyUnreachable"
  using parse_key_name_not_unreachable
  by (induction ps arbitrary: a) (auto simp: parse_parts_step split: sum.splits)

text \<open>
  Neither \<open>unreachable!()\<close> arm of \<open>parse_key_name\<close> can be reached, whatever the
  configured string: parsing a hotkey never panics.
\<close>

theorem parse_hotkey_never_panics: "parse_hotkey s \<noteq> Inl HotkeyUnreachable"
  using parse_parts_not_unreachable
  by (auto simp: parse_hotkey_def Let_def split: sum.splits option.splits)

end
