(* ===== verification/Float64.thy ===== *)
theory Float64
  imports Complex_Main Prelude
begin

text \<open>
  Rust's \<open>f64\<close> as far as the sources use it: IEEE 754 binary64 with rounding to nearest, ties
  to even. A finite value is the rational number it stands for, so the two zeros are one
  value; the sources never divide by a zero, which is the only operation used that could
  tell them apart. Casts to \<open>i32\<close> truncate and saturate, and send NaN to 0.
\<close>

section \<open>Values and rounding\<close>

datatype f64 = NaN | Inf (negative: bool) | Fin rat

fun nat_log2 :: "nat \<Rightarrow> nat" where
  "nat_log2 n = (if n < 2 then 0 else Suc (nat_log2 (n div 2)))"

declare nat_log2.simps [simp del]

definition floor_log2 :: "rat \<Rightarrow> int" where
  "floor_log2 q =
     (let (a, b) = quotient_of q;
          d = int (nat_log2 (nat a)) - int (nat_log2 (nat b))
      in if 2 powi d \<le> q then d else d - 1)"

definition round_half_even :: "rat \<Rightarrow> int" where
  "round_half_even q =
     (let f = \<lfloor>q\<rfloor>; r = q - of_int f in
      if r < 1 / 2 then f else if r > 1 / 2 then f + 1 else if even f then f else f + 1)"

definition round64 :: "rat \<Rightarrow> f64" where
  "round64 q =
     (if q = 0 then Fin 0
      else (let k = max (floor_log2 \<bar>q\<bar> - 52) (- 1074);
                v = of_int (round_half_even (q / 2 powi k)) * 2 powi k
            in if \<bar>v\<bar> \<ge> 2 powi 1024 then Inf (q < 0) else Fin v))"

section \<open>Operations\<close>

fun f_sub :: "f64 \<Rightarrow> f64 \<Rightarrow> f64" where
  "f_sub (Fin x) (Fin y) = round64 (x - y)"
| "f_sub (Inf s) (Fin y) = Inf s"
| "f_sub (Fin x) (Inf s) = Inf (\<not> s)"
| "f_sub (Inf s) (Inf t) = (if s = t then NaN else Inf s)"
| "f_sub _ _ = NaN"

fun f_mul :: "f64 \<Rightarrow> f64 \<Rightarrow> f64" where
  "f_mul (Fin x) (Fin y) = round64 (x * y)"
| "f_mul (Inf s) (Fin y) = (if y = 0 then NaN else Inf (s \<noteq> (y < 0)))"
| "f_mul (Fin x) (Inf s) = (if x = 0 then NaN else Inf (s \<noteq> (x < 0)))"
| "f_mul (Inf s) (Inf t) = Inf (s \<noteq> t)"
| "f_mul _ _ = NaN"

fun f_div :: "f64 \<Rightarrow> f64 \<Rightarrow> f64" where
  "f_div (Fin x) (Fin y) =
     (if y = 0 then (if x = 0 then NaN else Inf (x < 0)) else round64 (x / y))"
| "f_div (Inf s) (Fin y) = Inf (s \<noteq> (y < 0))"
| "f_div (Fin x) (Inf s) = Fin 0"
| "f_div _ _ = NaN"

fun f_le :: "f64 \<Rightarrow> f64 \<Rightarrow> bool" where
  "f_le (Fin x) (Fin y) = (x \<le> y)"
| "f_le (Inf s) (Fin y) = s"
| "f_le (Fin x) (Inf s) = (\<not> s)"
| "f_le (Inf s) (Inf t) = (s \<or> \<not> t)"
| "f_le _ _ = False"

definition f_gt_zero :: "f64 \<Rightarrow> bool" where
  "f_gt_zero x \<longleftrightarrow> (case x of Fin q \<Rightarrow> 0 < q | Inf s \<Rightarrow> \<not> s | NaN \<Rightarrow> False)"

definition is_finite :: "f64 \<Rightarrow> bool" where
  "is_finite x \<longleftrightarrow> (case x of Fin _ \<Rightarrow> True | _ \<Rightarrow> False)"

text \<open>\<open>f64::round\<close>: to the nearest integer, halves away from zero.\<close>

definition f_round :: "f64 \<Rightarrow> f64" where
  "f_round x =
     (case x of
        Fin q \<Rightarrow> Fin (of_int (if 0 \<le> q then \<lfloor>q + 1 / 2\<rfloor> else \<lceil>q - 1 / 2\<rceil>))
      | _ \<Rightarrow> x)"

definition i32_max :: int where "i32_max = 2147483647"
definition i32_min :: int where "i32_min = - 2147483648"

definition truncate_rat :: "rat \<Rightarrow> int" where
  "truncate_rat q = (if 0 \<le> q then \<lfloor>q\<rfloor> else \<lceil>q\<rceil>)"

text \<open>\<open>x as i32\<close>, as the integer it denotes and as the 32-bit word.\<close>

definition f64_to_int :: "f64 \<Rightarrow> int" where
  "f64_to_int x =
     (case x of
        NaN \<Rightarrow> 0
      | Inf s \<Rightarrow> if s then i32_min else i32_max
      | Fin q \<Rightarrow> max i32_min (min i32_max (truncate_rat q)))"

definition f64_as_i32 :: "f64 \<Rightarrow> i32" where
  "f64_as_i32 x = word_of_int (f64_to_int x)"

text \<open>\<open>n as f64\<close> for the 32-bit and 64-bit integers in the sources, all below \<open>2 ^ 64\<close>.\<close>

definition f64_of_int :: "int \<Rightarrow> f64" where
  "f64_of_int n = round64 (of_int n)"

lemma f64_to_int_bounds: "i32_min \<le> f64_to_int x" "f64_to_int x \<le> i32_max"
  by (auto simp: f64_to_int_def i32_min_def i32_max_def split: f64.splits)

lemma sint_f64_as_i32: "sint (f64_as_i32 x) = f64_to_int x"
  using f64_to_int_bounds [of x]
  by (simp add: f64_as_i32_def i32_min_def i32_max_def signed_of_int signed_take_bit_int_eq_self)

section \<open>Integers are exact\<close>

lemma nat_log2_bounds: "0 < n \<Longrightarrow> 2 ^ nat_log2 n \<le> n \<and> n < 2 ^ Suc (nat_log2 n)"
proof (induction n rule: nat_log2.induct)
  case (1 n)
  show ?case
  proof (cases "n < 2")
    case True
    with "1.prems" show ?thesis by (subst (1 2) nat_log2.simps) simp
  next
    case False
    then have "0 < n div 2" by simp
    with False "1.IH" have "2 ^ nat_log2 (n div 2) \<le> n div 2 \<and> n div 2 < 2 ^ Suc (nat_log2 (n div 2))"
      by blast
    moreover have "nat_log2 n = Suc (nat_log2 (n div 2))"
      using False by (subst nat_log2.simps) simp
    ultimately show ?thesis by auto
  qed
qed

lemma nat_log2_real_bounds:
  assumes "0 < a"
  shows "(2 :: rat) powi int (nat_log2 (nat a)) \<le> of_int a"
    and "(of_int a :: rat) < 2 powi (int (nat_log2 (nat a)) + 1)"
proof -
  let ?m = "nat_log2 (nat a)"
  from assms have b: "2 ^ ?m \<le> nat a" "nat a < 2 ^ Suc ?m"
    using nat_log2_bounds [of "nat a"] by auto
  have "(of_nat (2 ^ ?m) :: rat) \<le> of_nat (nat a)"
    using b(1) by (simp only: of_nat_le_iff)
  with assms show "(2 :: rat) powi int ?m \<le> of_int a" by simp
  have "(of_nat (nat a) :: rat) < of_nat (2 ^ Suc ?m)"
    using b(2) by (simp only: of_nat_less_iff)
  with assms show "(of_int a :: rat) < 2 powi (int ?m + 1)"
    by (simp add: power_int_add)
qed

lemma floor_log2_lower:
  assumes "0 < q"
  shows "2 powi floor_log2 q \<le> q"
proof -
  obtain a b where ab: "quotient_of q = (a, b)" by (cases "quotient_of q")
  then have b0: "0 < b" and q: "q = of_int a / of_int b"
    by (simp_all add: quotient_of_denom_pos quotient_of_div)
  with assms have a0: "0 < a" by (simp add: zero_less_divide_iff)
  let ?i = "int (nat_log2 (nat a))" and ?j = "int (nat_log2 (nat b))"
  have "(2 :: rat) powi (?i - ?j - 1) = 2 powi ?i / 2 powi (?j + 1)"
    by (simp add: power_int_diff power_int_add)
  also have "\<dots> \<le> of_int a / of_int b"
    using nat_log2_real_bounds [OF a0] nat_log2_real_bounds [OF b0] a0 b0
    by (intro frac_le) auto
  finally have "2 powi (?i - ?j - 1) \<le> q" using q by simp
  with ab show ?thesis by (simp add: floor_log2_def Let_def)
qed

lemma floor_log2_upper:
  assumes "0 < q"
  shows "q < 2 powi (floor_log2 q + 1)"
proof -
  obtain a b where ab: "quotient_of q = (a, b)" by (cases "quotient_of q")
  then have b0: "0 < b" and q: "q = of_int a / of_int b"
    by (simp_all add: quotient_of_denom_pos quotient_of_div)
  with assms have a0: "0 < a" by (simp add: zero_less_divide_iff)
  let ?i = "int (nat_log2 (nat a))" and ?j = "int (nat_log2 (nat b))"
  have "of_int a / of_int b < (2 :: rat) powi (?i + 1) / 2 powi ?j"
    using nat_log2_real_bounds [OF a0] nat_log2_real_bounds [OF b0] a0 b0
    by (intro frac_less) auto
  also have "\<dots> = 2 powi (?i - ?j + 1)" by (simp add: power_int_diff power_int_add)
  finally have "q < 2 powi (?i - ?j + 1)" using q by simp
  with ab show ?thesis by (simp add: floor_log2_def Let_def not_le)
qed

lemma floor_log2_le: "0 < q \<Longrightarrow> q < 2 powi (e + 1) \<Longrightarrow> floor_log2 q \<le> e"
proof -
  assume "0 < q" "q < 2 powi (e + 1)"
  then have "(2 :: rat) powi floor_log2 q < 2 powi (e + 1)"
    using floor_log2_lower by (rule_tac le_less_trans) auto
  then have "\<not> e + 1 \<le> floor_log2 q"
    by (metis not_le power_int_increasing one_le_numeral)
  then show ?thesis by simp
qed

lemma round_half_even_int [simp]: "round_half_even (of_int n) = n"
  by (simp add: round_half_even_def Let_def)

lemma round64_int:
  assumes "\<bar>n\<bar> < 2 ^ 53"
  shows "round64 (of_int n) = Fin (of_int n)"
proof (cases "n = 0")
  case True
  then show ?thesis by (simp add: round64_def)
next
  case False
  let ?e = "floor_log2 \<bar>of_int n\<bar>"
  let ?k = "max (?e - 52) (- 1074)"
  have nr: "\<bar>of_int n :: rat\<bar> < 2 ^ 53"
  proof -
    have "of_int \<bar>n\<bar> < (of_int (2 ^ 53) :: rat)" using assms by (simp only: of_int_less_iff)
    then show ?thesis by simp
  qed
  then have "?e \<le> 52"
    using False by (intro floor_log2_le) (auto simp: power_int_def)
  then have k: "?k \<le> 0" by simp
  have "(of_int n :: rat) / 2 powi ?k = of_int (n * 2 ^ nat (- ?k))"
  proof -
    have "inverse ((2 :: rat) powi ?k) = 2 powi (- ?k)" by (simp add: power_int_minus)
    also have "\<dots> = 2 ^ nat (- ?k)" using k by (simp add: power_int_def)
    finally show ?thesis by (simp add: divide_inverse)
  qed
  then have "of_int (round_half_even (of_int n / 2 powi ?k)) * (2 :: rat) powi ?k
      = (of_int n / 2 powi ?k) * 2 powi ?k"
    by (simp only: round_half_even_int)
  also have "\<dots> = of_int n" by simp
  finally have v: "of_int (round_half_even (of_int n / 2 powi ?k)) * (2 :: rat) powi ?k = of_int n" .
  have "\<not> \<bar>of_int n :: rat\<bar> \<ge> 2 powi 1024"
  proof -
    have "(2 :: rat) ^ 53 \<le> 2 ^ 1024" by (rule power_increasing) simp_all
    with nr show ?thesis by (simp add: power_int_def not_le)
  qed
  with False v show ?thesis by (simp add: round64_def Let_def)
qed

lemma f_sub_int:
  assumes "\<bar>m - n\<bar> < 2 ^ 53"
  shows "f_sub (Fin (of_int m)) (Fin (of_int n)) = Fin (of_int (m - n))"
  using round64_int [OF assms] by simp

lemma truncate_rat_int [simp]: "truncate_rat (of_int n) = n"
  by (simp add: truncate_rat_def)

lemma f64_to_int_sub_int:
  assumes "i32_min \<le> m - n" and "m - n \<le> i32_max"
  shows "f64_to_int (f_sub (Fin (of_int m)) (Fin (of_int n))) = m - n"
proof -
  from assms have "\<bar>m - n\<bar> < 2 ^ 53" by (auto simp: i32_min_def i32_max_def)
  then have "f_sub (Fin (of_int m)) (Fin (of_int n)) = Fin (of_int (m - n))"
    by (rule f_sub_int)
  moreover have "truncate_rat (of_int (m - n)) = m - n" by (rule truncate_rat_int)
  ultimately show ?thesis
    using assms by (simp only: f64_to_int_def f64.case min_absorb2 max_absorb2)
qed

lemma f64_of_int_exact: "\<bar>n\<bar> < 2 ^ 53 \<Longrightarrow> f64_of_int n = Fin (of_int n)"
  by (simp add: f64_of_int_def round64_int)

end
