(* ===== verification/Capture.thy ===== *)
theory Capture
  imports Hotkey Float64
begin

text \<open>
  \<^verbatim>\<open>server/src/capture.rs\<close>: the input-capture callback. One call of the callback is
  \<open>process_event\<close>, a function from the capture state and one \<open>rdev\<close> event to an outcome and
  the next state. What the callback asks of its surroundings (the clock, \<open>rdev::display_size\<close>,
  whether \<open>rdev::simulate\<close> succeeds) is an \<open>env\<close> argument; the warps it requests are logged in
  \<open>warps\<close>. The \<open>enabled\<close> flag is shared with the connection handlers, so a run interleaves
  events with stores to that flag (\<open>capture_input\<close>).
\<close>

section \<open>State\<close>

definition HOTKEY_DEBOUNCE :: millis where
  "HOTKEY_DEBOUNCE = 250"

definition EDGE_THRESHOLD :: f64 where
  "EDGE_THRESHOLD = Fin 2"

datatype capture_event = CapInput event | ForwardingToggled bool

datatype event_type =
    ET_KeyPress rdev_key
  | ET_KeyRelease rdev_key
  | ET_ButtonPress rdev_button
  | ET_ButtonRelease rdev_button
  | ET_Wheel i64 i64
  | ET_MouseMove f64 f64

record capture_state =
  enabled :: bool
  was_enabled :: bool
  last_x :: f64
  last_y :: f64
  pressed_keys :: "rdev_key set"
  warping :: bool
  seed_next :: bool
  last_hotkey_fire :: "millis option"
  hotkey :: "hotkey_chord option"
  hotkey_swallowed_keys :: "rdev_key set"
  warps :: "(f64 \<times> f64) list"

record capture_env =
  env_now :: millis
  env_display :: "(u64 \<times> u64) option"
  env_simulate_ok :: bool

record process_outcome =
  swallow :: bool
  forward :: "event option"
  toggled :: "bool option"

definition outcome_default :: process_outcome where
  "outcome_default = \<lparr>swallow = False, forward = None, toggled = None\<rparr>"

text \<open>\<open>InputCapture::start\<close>: the state the callback begins with.\<close>

definition capture_start :: "bool \<Rightarrow> hotkey_chord option \<Rightarrow> capture_state" where
  "capture_start on hk =
     \<lparr>enabled = on, was_enabled = on, last_x = Fin 0, last_y = Fin 0, pressed_keys = {},
      warping = False, seed_next = True, last_hotkey_fire = None, hotkey = hk,
      hotkey_swallowed_keys = {}, warps = []\<rparr>"

definition set_enabled :: "bool \<Rightarrow> capture_state \<Rightarrow> capture_state" where
  "set_enabled value st = st\<lparr>enabled := value\<rparr>"

definition is_enabled :: "capture_state \<Rightarrow> bool" where
  "is_enabled st = enabled st"

section \<open>Modifiers and chords\<close>

definition compute_modifiers :: "rdev_key set \<Rightarrow> u8" where
  "compute_modifiers pressed =
     (let m0 = (0 :: u8);
          m1 = (if K_ControlLeft \<in> pressed \<or> K_ControlRight \<in> pressed then m0 OR CTRL else m0);
          m2 = (if K_Alt \<in> pressed \<or> K_AltGr \<in> pressed then m1 OR ALT else m1);
          m3 = (if K_ShiftLeft \<in> pressed \<or> K_ShiftRight \<in> pressed then m2 OR SHIFT else m2)
      in if K_MetaLeft \<in> pressed \<or> K_MetaRight \<in> pressed then m3 OR META else m3)"

definition chord_satisfied :: "hotkey_chord \<Rightarrow> u8 \<Rightarrow> bool" where
  "chord_satisfied hk mods =
     (let r0 = (0 :: u8);
          r1 = (if hk_ctrl hk then r0 OR CTRL else r0);
          r2 = (if hk_alt hk then r1 OR ALT else r1);
          r3 = (if hk_shift hk then r2 OR SHIFT else r2);
          required = (if hk_meta hk then r3 OR META else r3)
      in mods AND required = required)"

lemma chord_satisfied_iff:
  "chord_satisfied hk (compute_modifiers P) \<longleftrightarrow>
     (hk_ctrl hk \<longrightarrow> K_ControlLeft \<in> P \<or> K_ControlRight \<in> P) \<and>
     (hk_alt hk \<longrightarrow> K_Alt \<in> P \<or> K_AltGr \<in> P) \<and>
     (hk_shift hk \<longrightarrow> K_ShiftLeft \<in> P \<or> K_ShiftRight \<in> P) \<and>
     (hk_meta hk \<longrightarrow> K_MetaLeft \<in> P \<or> K_MetaRight \<in> P)"
  by (simp add: chord_satisfied_def compute_modifiers_def modifier_bits Let_def)

section \<open>The callback\<close>

definition try_fire_hotkey ::
    "millis \<Rightarrow> bool \<Rightarrow> capture_state \<Rightarrow> bool option \<times> capture_state" where
  "try_fire_hotkey now now_enabled st =
     (if (case last_hotkey_fire st of None \<Rightarrow> False | Some prev \<Rightarrow> now - prev < HOTKEY_DEBOUNCE)
      then (None, st)
      else
        (let new_state = \<not> now_enabled;
             st1 = st\<lparr>last_hotkey_fire := Some now, enabled := new_state, was_enabled := new_state\<rparr>
         in (Some new_state, if new_state then st1\<lparr>seed_next := True\<rparr> else st1)))"

definition near_edge :: "u64 \<Rightarrow> u64 \<Rightarrow> f64 \<Rightarrow> f64 \<Rightarrow> bool" where
  "near_edge w h x y \<longleftrightarrow>
     f_le x EDGE_THRESHOLD \<or> f_le y EDGE_THRESHOLD \<or>
     f_le (f_sub (f_sub (f64_of_int (uint w)) (Fin 1)) EDGE_THRESHOLD) x \<or>
     f_le (f_sub (f_sub (f64_of_int (uint h)) (Fin 1)) EDGE_THRESHOLD) y"

text \<open>The part of \<open>process_mouse_move\<close> that may warp the cursor back to the centre.\<close>

definition edge_warp :: "capture_env \<Rightarrow> f64 \<Rightarrow> f64 \<Rightarrow> capture_state \<Rightarrow> capture_state" where
  "edge_warp env x y st =
     (case env_display env of
        None \<Rightarrow> st
      | Some (w, h) \<Rightarrow>
          if w > 0 \<and> h > 0 \<and> near_edge w h x y then
            (let center_x = f_div (f64_of_int (uint w)) (Fin 2);
                 center_y = f_div (f64_of_int (uint h)) (Fin 2);
                 st1 = st\<lparr>warps := warps st @ [(center_x, center_y)]\<rparr>
             in if env_simulate_ok env then st1\<lparr>warping := True\<rparr> else st1)
          else st)"

definition process_mouse_move ::
    "capture_env \<Rightarrow> f64 \<Rightarrow> f64 \<Rightarrow> bool \<Rightarrow> capture_state \<Rightarrow> event option \<times> capture_state" where
  "process_mouse_move env x y now_enabled st =
     (if warping st then (None, st\<lparr>warping := False, last_x := x, last_y := y\<rparr>)
      else if seed_next st then (None, st\<lparr>seed_next := False, last_x := x, last_y := y\<rparr>)
      else
        (let dx = f64_as_i32 (f_sub x (last_x st));
             dy = f64_as_i32 (f_sub y (last_y st));
             st1 = st\<lparr>last_x := x, last_y := y\<rparr>;
             st2 = (if now_enabled then edge_warp env x y st1 else st1)
         in (if now_enabled \<and> (dx \<noteq> 0 \<or> dy \<noteq> 0) then Some (MouseDelta dx dy) else None, st2)))"

text \<open>The swap of \<open>was_enabled\<close> at the top of \<open>process_event\<close>.\<close>

definition note_enabled :: "capture_state \<Rightarrow> capture_state" where
  "note_enabled st =
     (let st1 = st\<lparr>was_enabled := enabled st\<rparr>
      in if enabled st \<and> \<not> was_enabled st then st1\<lparr>seed_next := True\<rparr> else st1)"

definition process_key_press ::
    "capture_env \<Rightarrow> rdev_key \<Rightarrow> bool \<Rightarrow> capture_state \<Rightarrow> process_outcome \<times> capture_state" where
  "process_key_press env key now_enabled st =
     (let is_repeat = key \<in> pressed_keys st;
          st1 = st\<lparr>pressed_keys := insert key (pressed_keys st)\<rparr>;
          mods = compute_modifiers (pressed_keys st1);
          ordinary =
            (if now_enabled
             then outcome_default\<lparr>swallow := True, forward := Some (KeyPress (key_to_code key) mods)\<rparr>
             else outcome_default)
      in (case hotkey st of
            None \<Rightarrow> (ordinary, st1)
          | Some hk \<Rightarrow>
              if key = hk_key hk \<and> chord_satisfied hk mods then
                (let st2 = st1\<lparr>hotkey_swallowed_keys := insert key (hotkey_swallowed_keys st1)\<rparr>
                 in if is_repeat then (outcome_default\<lparr>swallow := True\<rparr>, st2)
                    else (case try_fire_hotkey (env_now env) now_enabled st2 of
                            (t, st3) \<Rightarrow> (outcome_default\<lparr>swallow := True, toggled := t\<rparr>, st3)))
              else (ordinary, st1)))"

definition process_key_release ::
    "rdev_key \<Rightarrow> bool \<Rightarrow> capture_state \<Rightarrow> process_outcome \<times> capture_state" where
  "process_key_release key now_enabled st =
     (let st1 = st\<lparr>pressed_keys := pressed_keys st - {key}\<rparr>;
          mods = compute_modifiers (pressed_keys st1)
      in if key \<in> hotkey_swallowed_keys st1
         then (outcome_default\<lparr>swallow := True\<rparr>,
               st1\<lparr>hotkey_swallowed_keys := hotkey_swallowed_keys st1 - {key}\<rparr>)
         else if now_enabled
         then (outcome_default\<lparr>swallow := True, forward := Some (KeyRelease (key_to_code key) mods)\<rparr>,
               st1)
         else (outcome_default, st1))"

definition forward_if :: "bool \<Rightarrow> event \<Rightarrow> process_outcome" where
  "forward_if now_enabled ev =
     (if now_enabled then outcome_default\<lparr>swallow := True, forward := Some ev\<rparr>
      else outcome_default)"

fun process_event ::
    "capture_env \<Rightarrow> event_type \<Rightarrow> capture_state \<Rightarrow> process_outcome \<times> capture_state" where
  "process_event env (ET_KeyPress key) st =
     process_key_press env key (enabled st) (note_enabled st)"
| "process_event env (ET_KeyRelease key) st =
     process_key_release key (enabled st) (note_enabled st)"
| "process_event env (ET_ButtonPress b) st =
     (forward_if (enabled st) (MouseButtonPress (convert_mouse_button b)), note_enabled st)"
| "process_event env (ET_ButtonRelease b) st =
     (forward_if (enabled st) (MouseButtonRelease (convert_mouse_button b)), note_enabled st)"
| "process_event env (ET_Wheel dx dy) st =
     (forward_if (enabled st) (Wheel (ucast dx) (ucast dy)), note_enabled st)"
| "process_event env (ET_MouseMove x y) st =
     (case process_mouse_move env x y (enabled st) (note_enabled st) of
        (fw, st') \<Rightarrow> (outcome_default\<lparr>forward := fw\<rparr>, st'))"

definition dispatch :: "process_outcome \<Rightarrow> capture_event list" where
  "dispatch oc =
     (case toggled oc of Some t \<Rightarrow> [ForwardingToggled t] | None \<Rightarrow> []) @
     (case forward oc of Some ev \<Rightarrow> [CapInput ev] | None \<Rightarrow> [])"

text \<open>
  Under \<open>grab\<close> (Windows, macOS) the callback decides what the local system still sees; under
  \<open>listen\<close> (Linux) it sees everything.
\<close>

definition handle_grab_event ::
    "capture_env \<Rightarrow> event_type \<Rightarrow> capture_state \<Rightarrow>
     event_type option \<times> capture_event list \<times> capture_state" where
  "handle_grab_event env ev st =
     (case process_event env ev st of
        (oc, st') \<Rightarrow> (if swallow oc then None else Some ev, dispatch oc, st'))"

definition handle_listen_event ::
    "capture_env \<Rightarrow> event_type \<Rightarrow> capture_state \<Rightarrow> capture_event list \<times> capture_state" where
  "handle_listen_event env ev st =
     (case process_event env ev st of (oc, st') \<Rightarrow> (dispatch oc, st'))"

section \<open>Runs\<close>

text \<open>A step of the system around the callback: one event, or a store to the shared flag.\<close>

datatype capture_input = Ev capture_env event_type | Store bool

fun capture_step :: "capture_input \<Rightarrow> capture_state \<Rightarrow> process_outcome \<times> capture_state" where
  "capture_step (Ev env e) st = process_event env e st"
| "capture_step (Store b) st = (outcome_default, set_enabled b st)"

fun capture_run :: "capture_input list \<Rightarrow> capture_state \<Rightarrow> process_outcome list \<times> capture_state" where
  "capture_run [] st = ([], st)"
| "capture_run (i # is) st =
     (case capture_step i st of (oc, st1) \<Rightarrow>
        (case capture_run is st1 of (ocs, st2) \<Rightarrow> (oc # ocs, st2)))"

lemma capture_run_length: "capture_run is st = (ocs, st') \<Longrightarrow> length ocs = length is"
  by (induction "is" arbitrary: st ocs) (auto split: prod.splits)

section \<open>Facts about one step\<close>

lemmas capture_defs =
  process_key_press_def process_key_release_def process_mouse_move_def try_fire_hotkey_def
  edge_warp_def note_enabled_def forward_if_def outcome_default_def set_enabled_def

lemma note_enabled_simps [simp]:
  "enabled (note_enabled st) = enabled st" "was_enabled (note_enabled st) = enabled st"
  "pressed_keys (note_enabled st) = pressed_keys st" "hotkey (note_enabled st) = hotkey st"
  "hotkey_swallowed_keys (note_enabled st) = hotkey_swallowed_keys st"
  "last_hotkey_fire (note_enabled st) = last_hotkey_fire st"
  "last_x (note_enabled st) = last_x st" "last_y (note_enabled st) = last_y st"
  "warping (note_enabled st) = warping st" "warps (note_enabled st) = warps st"
  by (simp_all add: note_enabled_def Let_def)

lemma outcome_default_simps [simp]:
  "swallow outcome_default = False" "forward outcome_default = None"
  "toggled outcome_default = None"
  by (simp_all add: outcome_default_def)

lemma edge_warp_simps [simp]:
  "enabled (edge_warp env x y st) = enabled st" "pressed_keys (edge_warp env x y st) = pressed_keys st"
  "hotkey (edge_warp env x y st) = hotkey st"
  "hotkey_swallowed_keys (edge_warp env x y st) = hotkey_swallowed_keys st"
  "last_hotkey_fire (edge_warp env x y st) = last_hotkey_fire st"
  "was_enabled (edge_warp env x y st) = was_enabled st"
  "last_x (edge_warp env x y st) = last_x st" "last_y (edge_warp env x y st) = last_y st"
  "seed_next (edge_warp env x y st) = seed_next st"
  by (simp_all add: edge_warp_def Let_def split: option.splits)

lemma process_event_forward_enabled:
  "process_event env e st = (oc, st') \<Longrightarrow> forward oc = Some ev \<Longrightarrow> enabled st"
  by (cases e)
    (auto simp: process_key_press_def process_key_release_def process_mouse_move_def forward_if_def
      Let_def split: if_splits option.splits prod.splits)

lemma process_event_toggled_no_forward:
  "process_event env e st = (oc, st') \<Longrightarrow> toggled oc = Some t \<Longrightarrow> forward oc = None"
  by (cases e)
    (auto simp: process_key_press_def process_key_release_def process_mouse_move_def forward_if_def
      Let_def split: if_splits option.splits prod.splits)

lemma process_event_hotkey [simp]: "hotkey (snd (process_event env e st)) = hotkey st"
  by (cases e)
    (auto simp: process_key_press_def process_key_release_def process_mouse_move_def
      try_fire_hotkey_def Let_def split: option.splits prod.splits)

text \<open>Which keys are down, whatever else happens.\<close>

fun keys_after :: "event_type \<Rightarrow> rdev_key set \<Rightarrow> rdev_key set" where
  "keys_after (ET_KeyPress k) P = insert k P"
| "keys_after (ET_KeyRelease k) P = P - {k}"
| "keys_after _ P = P"

lemma process_event_pressed_keys:
  "pressed_keys (snd (process_event env e st)) = keys_after e (pressed_keys st)"
  by (cases e)
    (auto simp: process_key_press_def process_key_release_def process_mouse_move_def
      try_fire_hotkey_def Let_def split: option.splits prod.splits)

text \<open>
  A toggle flips the flag that was read at the start of the call, and records the time; an
  event without one leaves both alone.
\<close>

lemma process_event_enabled:
  assumes "process_event env e st = (oc, st')"
  shows "enabled st' = (case toggled oc of None \<Rightarrow> enabled st | Some t \<Rightarrow> t)"
    and "toggled oc = Some t \<Longrightarrow> t = (\<not> enabled st)"
    and "last_hotkey_fire st' =
           (case toggled oc of None \<Rightarrow> last_hotkey_fire st | Some _ \<Rightarrow> Some (env_now env))"
    and "toggled oc = Some t \<Longrightarrow> last_hotkey_fire st = Some p \<Longrightarrow> HOTKEY_DEBOUNCE \<le> env_now env - p"
  using assms
  by (cases e; auto simp: process_key_press_def process_key_release_def process_mouse_move_def
      try_fire_hotkey_def forward_if_def Let_def split: if_splits option.splits prod.splits)+

section \<open>Facts about runs\<close>

subsection \<open>When input is forwarded\<close>

text \<open>
  The last switch of the forwarding flag in a run: a store by another thread, or a toggle by
  the hotkey.
\<close>

fun switch_of :: "capture_input \<times> process_outcome \<Rightarrow> bool option" where
  "switch_of (Store b, oc) = Some b"
| "switch_of (Ev env e, oc) = toggled oc"

fun flag_after :: "bool \<Rightarrow> (capture_input \<times> process_outcome) list \<Rightarrow> bool" where
  "flag_after b [] = b"
| "flag_after b (p # ps) = flag_after (case switch_of p of None \<Rightarrow> b | Some b' \<Rightarrow> b') ps"

lemma capture_step_enabled:
  "capture_step i st = (oc, st') \<Longrightarrow>
   enabled st' = (case switch_of (i, oc) of None \<Rightarrow> enabled st | Some b \<Rightarrow> b)"
  by (cases i) (auto simp: set_enabled_def dest: process_event_enabled(1))

lemma capture_run_enabled:
  "capture_run is st = (ocs, st') \<Longrightarrow> enabled st' = flag_after (enabled st) (zip is ocs)"
proof (induction "is" arbitrary: st ocs)
  case Nil
  then show ?case by simp
next
  case (Cons i "is")
  then obtain oc st1 ocs1 where "capture_step i st = (oc, st1)" "capture_run is st1 = (ocs1, st')"
    and "ocs = oc # ocs1"
    by (auto split: prod.splits)
  with Cons.IH [of st1 ocs1] show ?case by (simp add: capture_step_enabled)
qed

lemma capture_run_append:
  "capture_run (is @ js) st =
     (case capture_run is st of (ocs, st1) \<Rightarrow>
        (case capture_run js st1 of (ocs', st2) \<Rightarrow> (ocs @ ocs', st2)))"
  by (induction "is" arbitrary: st) (auto split: prod.splits)

text \<open>Splitting a run at one of its inputs.\<close>

lemma capture_run_split:
  assumes "capture_run is st = (ocs, st')" and "i < length is"
  obtains st1 st2 where
    "capture_run (take i is) st = (take i ocs, st1)"
    "capture_step (is ! i) st1 = (ocs ! i, st2)"
    "capture_run (drop (Suc i) is) st2 = (drop (Suc i) ocs, st')"
proof -
  obtain ocs1 st1 where r1: "capture_run (take i is) st = (ocs1, st1)"
    by (cases "capture_run (take i is) st")
  obtain oc st2 where r2: "capture_step (is ! i) st1 = (oc, st2)"
    by (cases "capture_step (is ! i) st1")
  obtain ocs3 st3 where r3: "capture_run (drop (Suc i) is) st2 = (ocs3, st3)"
    by (cases "capture_run (drop (Suc i) is) st2")
  have "capture_run (take i is @ is ! i # drop (Suc i) is) st = (ocs1 @ oc # ocs3, st3)"
    by (simp add: capture_run_append r1 r2 r3)
  then have eq: "ocs = ocs1 @ oc # ocs3" "st' = st3"
    using assms by (simp_all flip: id_take_nth_drop)
  have "length ocs1 = i" using capture_run_length [OF r1] assms(2) by simp
  with eq r1 r2 r3 show ?thesis by (intro that [of st1 st2]) (auto simp: nth_append)
qed

lemma capture_step_forward_enabled:
  "capture_step i st = (oc, st') \<Longrightarrow> forward oc = Some ev \<Longrightarrow> enabled st"
  by (cases i) (auto dest: process_event_forward_enabled)

subsection \<open>Debouncing\<close>

text \<open>The clock does not go back.\<close>

fun clock_ok :: "millis \<Rightarrow> capture_input list \<Rightarrow> bool" where
  "clock_ok p [] = True"
| "clock_ok p (Ev env e # is) = (p \<le> env_now env \<and> clock_ok (env_now env) is)"
| "clock_ok p (Store b # is) = clock_ok p is"

fun input_time :: "capture_input \<Rightarrow> millis" where
  "input_time (Ev env e) = env_now env"
| "input_time (Store b) = 0"

lemma clock_ok_mono: "clock_ok q is \<Longrightarrow> p \<le> q \<Longrightarrow> clock_ok p is"
  by (induction q "is" rule: clock_ok.induct) auto

lemma clock_ok_drop:
  "clock_ok p is \<Longrightarrow> i < length is \<Longrightarrow> is ! i = Ev env e \<Longrightarrow>
   clock_ok (env_now env) (drop (Suc i) is)"
  by (induction p "is" arbitrary: i rule: clock_ok.induct) (auto simp: nth_Cons split: nat.splits)

lemma capture_step_fire:
  assumes "capture_step i st = (oc, st')"
  shows "last_hotkey_fire st' =
     (case toggled oc of None \<Rightarrow> last_hotkey_fire st | Some _ \<Rightarrow> Some (input_time i))"
    and "toggled oc \<noteq> None \<Longrightarrow> last_hotkey_fire st = Some p \<Longrightarrow> p + HOTKEY_DEBOUNCE \<le> input_time i"
proof -
  show "last_hotkey_fire st' =
     (case toggled oc of None \<Rightarrow> last_hotkey_fire st | Some _ \<Rightarrow> Some (input_time i))"
  proof (cases i)
    case (Ev env e)
    with assms have "process_event env e st = (oc, st')" by simp
    from process_event_enabled(3) [OF this] Ev show ?thesis by (simp split: option.split)
  qed (use assms in \<open>auto simp: set_enabled_def\<close>)
  assume "toggled oc \<noteq> None" and p: "last_hotkey_fire st = Some p"
  with assms show "p + HOTKEY_DEBOUNCE \<le> input_time i"
  proof (cases i)
    case (Ev env e)
    obtain t where "toggled oc = Some t" using \<open>toggled oc \<noteq> None\<close> by auto
    moreover from assms Ev have "process_event env e st = (oc, st')" by simp
    ultimately have "HOTKEY_DEBOUNCE \<le> env_now env - p"
      using p process_event_enabled(4) by blast
    with Ev show ?thesis by (simp add: HOTKEY_DEBOUNCE_def)
  qed (use assms in auto)
qed

lemma capture_run_debounce:
  assumes "capture_run is st = (ocs, st')" and "last_hotkey_fire st = Some p"
    and "clock_ok p is" and "j < length is" and "toggled (ocs ! j) \<noteq> None"
  shows "p + HOTKEY_DEBOUNCE \<le> input_time (is ! j)"
  using assms
proof (induction "is" arbitrary: st ocs p j)
  case Nil
  then show ?case by simp
next
  case (Cons i "is")
  then obtain oc st1 ocs1 where s: "capture_step i st = (oc, st1)"
    and r: "capture_run is st1 = (ocs1, st')" and ocs: "ocs = oc # ocs1"
    by (auto split: prod.splits)
  note fire = capture_step_fire [OF s]
  show ?case
  proof (cases j)
    case 0
    with Cons.prems(5) ocs have "toggled oc \<noteq> None" by simp
    with fire(2) Cons.prems(2) 0 show ?thesis by simp
  next
    case (Suc j')
    with Cons.prems ocs have j': "j' < length is" "toggled (ocs1 ! j') \<noteq> None" by auto
    show ?thesis
    proof (cases "toggled oc")
      case None
      with fire(1) Cons.prems(2) have "last_hotkey_fire st1 = Some p" by simp
      moreover have "clock_ok p is" using Cons.prems(3) by (cases i) (auto intro: clock_ok_mono)
      ultimately show ?thesis using Cons.IH [OF r _ _ j'] Suc by simp
    next
      case (Some t)
      with fire(1) have "last_hotkey_fire st1 = Some (input_time i)" by simp
      moreover have "clock_ok (input_time i) is"
        using Cons.prems(3) s Some by (cases i) auto
      ultimately have "input_time i + HOTKEY_DEBOUNCE \<le> input_time (is ! j')"
        using Cons.IH [OF r _ _ j'] by simp
      moreover have "p + HOTKEY_DEBOUNCE \<le> input_time i"
        using fire(2) Cons.prems(2) Some by simp
      ultimately show ?thesis using Suc by simp
    qed
  qed
qed

subsection \<open>The hotkey's own key\<close>

lemma process_event_toggles:
  "toggled (fst (process_event env (ET_KeyPress key) st)) \<noteq> None \<longleftrightarrow>
     (case hotkey st of
        None \<Rightarrow> False
      | Some hk \<Rightarrow>
          key = hk_key hk \<and> key \<notin> pressed_keys st \<and>
          chord_satisfied hk (compute_modifiers (insert key (pressed_keys st))) \<and>
          (case last_hotkey_fire st of
             None \<Rightarrow> True
           | Some prev \<Rightarrow> HOTKEY_DEBOUNCE \<le> env_now env - prev))"
  by (cases "hotkey st"; cases "last_hotkey_fire st")
    (auto simp: process_key_press_def try_fire_hotkey_def Let_def)

text \<open>
  The keys whose last press was consumed as the chord and that have not been released since,
  read off the outcomes alone: a press is consumed when it is swallowed and not forwarded.
\<close>

fun consumed_step :: "capture_input \<times> process_outcome \<Rightarrow> rdev_key set \<Rightarrow> rdev_key set" where
  "consumed_step (Ev env (ET_KeyPress k), oc) C =
     (if swallow oc \<and> forward oc = None then insert k C else C)"
| "consumed_step (Ev env (ET_KeyRelease k), oc) C = C - {k}"
| "consumed_step _ C = C"

lemma capture_step_swallowed_keys:
  "capture_step i st = (oc, st') \<Longrightarrow>
   hotkey_swallowed_keys st' = consumed_step (i, oc) (hotkey_swallowed_keys st)"
  by (induction "(i, oc)" "hotkey_swallowed_keys st" rule: consumed_step.induct)
    (auto simp: process_key_press_def process_key_release_def process_mouse_move_def
      try_fire_hotkey_def set_enabled_def Let_def split: if_splits option.splits prod.splits)

lemma capture_run_swallowed_keys:
  "capture_run is st = (ocs, st') \<Longrightarrow>
   hotkey_swallowed_keys st' = fold consumed_step (zip is ocs) (hotkey_swallowed_keys st)"
  by (induction "is" arbitrary: st ocs)
    (auto simp: capture_step_swallowed_keys split: prod.splits)

subsection \<open>Motion\<close>

text \<open>
  The desktop as the user drives it: each entry moves the cursor by \<open>d\<close> from where it is, and
  the callback sees the new position. When that event made it warp the cursor, the cursor
  lands at \<open>c\<close> and the callback sees this as one more move.
\<close>

definition move_to :: "int \<times> int \<Rightarrow> event_type" where
  "move_to p = ET_MouseMove (Fin (of_int (fst p))) (Fin (of_int (snd p)))"

fun desktop_run ::
    "(capture_env \<times> (int \<times> int) \<times> (int \<times> int)) list \<Rightarrow> int \<times> int \<Rightarrow> capture_state \<Rightarrow>
     event list \<times> capture_state" where
  "desktop_run [] p st = ([], st)"
| "desktop_run ((env, d, c) # ms) p st =
     (let p' = (fst p + fst d, snd p + snd d);
          (oc, st1) = process_event env (move_to p') st;
          (q, fw, st2) =
            (if warping st1
             then (case process_event env (move_to c) st1 of (oc', st') \<Rightarrow> (c, forward oc', st'))
             else (p', None, st1));
          (evs, st3) = desktop_run ms q st2
      in (List.map_filter id [forward oc, fw] @ evs, st3))"

fun motion :: "event \<Rightarrow> int \<times> int" where
  "motion (MouseDelta dx dy) = (sint dx, sint dy)"
| "motion _ = (0, 0)"

definition total :: "(int \<times> int) list \<Rightarrow> int \<times> int" where
  "total ps = (sum_list (map fst ps), sum_list (map snd ps))"

lemma total_simps [simp]:
  "total [] = (0, 0)"
  "total (p # ps) = (fst p + fst (total ps), snd p + snd (total ps))"
  by (simp_all add: total_def)

text \<open>The state in which the callback follows the cursor at \<open>p\<close>.\<close>

definition tracking :: "int \<times> int \<Rightarrow> capture_state \<Rightarrow> bool" where
  "tracking p st \<longleftrightarrow> enabled st \<and> was_enabled st \<and> \<not> warping st \<and> \<not> seed_next st \<and>
     last_x st = Fin (of_int (fst p)) \<and> last_y st = Fin (of_int (snd p))"

definition small_move :: "int \<times> int \<Rightarrow> bool" where
  "small_move d \<longleftrightarrow> i32_min \<le> fst d \<and> fst d \<le> i32_max \<and> i32_min \<le> snd d \<and> snd d \<le> i32_max"

lemma note_enabled_tracking: "tracking p st \<Longrightarrow> note_enabled st = st"
  by (simp add: tracking_def note_enabled_def Let_def)

lemma f64_as_i32_sub_int:
  assumes "i32_min \<le> d" and "d \<le> i32_max"
  shows "f64_as_i32 (f_sub (Fin (of_int (a + d))) (Fin (of_int a))) = word_of_int d"
  using f64_to_int_sub_int [of "a + d" a] assms by (simp add: f64_as_i32_def)

lemma sint_i32_small: "i32_min \<le> d \<Longrightarrow> d \<le> i32_max \<Longrightarrow> sint (word_of_int d :: i32) = d"
  by (simp add: i32_min_def i32_max_def signed_of_int signed_take_bit_int_eq_self)

lemma process_move_tracking:
  assumes "tracking p st" and "small_move d"
  shows "process_event env (move_to (fst p + fst d, snd p + snd d)) st =
    (outcome_default\<lparr>forward := (if word_of_int (fst d) \<noteq> (0 :: i32) \<or> word_of_int (snd d) \<noteq> (0 :: i32)
       then Some (MouseDelta (word_of_int (fst d)) (word_of_int (snd d))) else None)\<rparr>,
     edge_warp env (Fin (of_int (fst p + fst d))) (Fin (of_int (snd p + snd d)))
       (st\<lparr>last_x := Fin (of_int (fst p + fst d)), last_y := Fin (of_int (snd p + snd d))\<rparr>))"
  using assms f64_as_i32_sub_int [of "fst d" "fst p"] f64_as_i32_sub_int [of "snd d" "snd p"]
  by (simp add: move_to_def note_enabled_tracking process_mouse_move_def Let_def small_move_def
      tracking_def del: f_sub.simps of_int_add)

lemma motion_forwarded:
  assumes "small_move d"
  shows "total (map motion (List.map_filter id
    [if word_of_int (fst d) \<noteq> (0 :: i32) \<or> word_of_int (snd d) \<noteq> (0 :: i32)
     then Some (MouseDelta (word_of_int (fst d)) (word_of_int (snd d))) else None])) = d"
  using assms sint_i32_small [of "fst d"] sint_i32_small [of "snd d"]
  by (cases d) (auto simp: small_move_def List.map_filter_def)

lemma total_append: "total (ps @ qs) = (fst (total ps) + fst (total qs), snd (total ps) + snd (total qs))"
  by (simp add: total_def)

lemma desktop_run_motion:
  assumes "tracking p st" and "list_all (\<lambda>(env, d, c). small_move d) ms"
    and "desktop_run ms p st = (evs, st')"
  shows "total (map motion evs) = total (map (\<lambda>(env, d, c). d) ms)"
  using assms
proof (induction ms arbitrary: p st evs)
  case Nil
  then show ?case by simp
next
  case (Cons m ms)
  obtain env d c where m: "m = (env, d, c)" by (cases m)
  let ?p' = "(fst p + fst d, snd p + snd d)"
  have d: "small_move d" using Cons.prems(2) m by simp
  let ?fw = "if word_of_int (fst d) \<noteq> (0 :: i32) \<or> word_of_int (snd d) \<noteq> (0 :: i32)
       then Some (MouseDelta (word_of_int (fst d)) (word_of_int (snd d))) else None"
  define st1 where "st1 = edge_warp env (Fin (of_int (fst ?p'))) (Fin (of_int (snd ?p')))
       (st\<lparr>last_x := Fin (of_int (fst ?p')), last_y := Fin (of_int (snd ?p'))\<rparr>)"
  have e1: "process_event env (move_to ?p') st = (outcome_default\<lparr>forward := ?fw\<rparr>, st1)"
    using process_move_tracking [OF Cons.prems(1) d] by (simp add: st1_def del: of_int_add)
  have on: "enabled st1" "was_enabled st1" "\<not> seed_next st1"
    "last_x st1 = Fin (of_int (fst ?p'))" "last_y st1 = Fin (of_int (snd ?p'))"
    using Cons.prems(1) by (simp_all add: st1_def tracking_def)
  define q where "q = (if warping st1 then c else ?p')"
  define st2 where "st2 = (if warping st1 then
      st1\<lparr>warping := False, last_x := Fin (of_int (fst c)), last_y := Fin (of_int (snd c))\<rparr> else st1)"
  have e2: "process_event env (move_to c) st1 = (outcome_default, st2)" if "warping st1"
    using that on by (simp add: move_to_def process_mouse_move_def note_enabled_def Let_def st2_def)
  have t2: "tracking q st2" using on by (simp add: tracking_def q_def st2_def)
  obtain evs' where r: "desktop_run ms q st2 = (evs', st')"
    and evs: "evs = List.map_filter id [?fw] @ evs'"
    using Cons.prems(3) unfolding m
    by (cases "warping st1")
      (auto simp: e1 e2 q_def st2_def List.map_filter_def Let_def split: prod.splits if_splits)
  have "total (map motion evs') = total (map (\<lambda>(env, d, c). d) ms)"
    using Cons.IH [OF t2 _ r] Cons.prems(2) by simp
  with motion_forwarded [OF d] show ?case
    by (simp add: m evs total_append del: total_simps(2)) simp
qed

section \<open>Properties\<close>

text \<open>
  C3: input leaves the machine only while forwarding is on. Whatever events arrive and however
  other threads store to the flag in between, an event forwarded at position \<open>i\<close> of a run is
  preceded by switches (stores and hotkey toggles) the last of which turned forwarding on.
\<close>

theorem forwarded_only_when_on:
  assumes "capture_run is (capture_start on hk) = (ocs, st')" and "i < length is"
    and "forward (ocs ! i) = Some ev"
  shows "flag_after on (zip (take i is) (take i ocs))"
proof -
  obtain st1 st2 where "capture_run (take i is) (capture_start on hk) = (take i ocs, st1)"
    and s: "capture_step (is ! i) st1 = (ocs ! i, st2)"
    using capture_run_split [OF assms(1,2)] .
  from capture_run_enabled [OF this(1)] have "enabled st1 = flag_after on (zip (take i is) (take i ocs))"
    by (simp add: capture_start_def)
  with capture_step_forward_enabled [OF s assms(3)] show ?thesis by simp
qed

theorem forwarded_only_when_on_witness:
  "flag_after False [(Store True, outcome_default)]"
proof -
  let ?env = "\<lparr>env_now = 0, env_display = None, env_simulate_ok = True\<rparr>"
  let ?is = "[Store True, Ev ?env (ET_ButtonPress RB_Left)]"
  have "capture_run ?is (capture_start False None) =
    ([outcome_default, outcome_default\<lparr>swallow := True, forward := Some (MouseButtonPress MB_Left)\<rparr>],
     (capture_start False None)\<lparr>enabled := True, was_enabled := True\<rparr>)"
    by (simp add: capture_start_def set_enabled_def forward_if_def note_enabled_def)
  from forwarded_only_when_on [OF this, of 1 "MouseButtonPress MB_Left"] show ?thesis by simp
qed

text \<open>
  Two toggles of the hotkey are never less than 250 ms apart, on any run whose clock does
  not go back.
\<close>

theorem toggles_debounced:
  assumes "capture_run is (capture_start on hk) = (ocs, st')" and "clock_ok 0 is"
    and "i < j" and "j < length is"
    and "toggled (ocs ! i) \<noteq> None" and "toggled (ocs ! j) \<noteq> None"
  shows "input_time (is ! i) + HOTKEY_DEBOUNCE \<le> input_time (is ! j)"
proof -
  obtain st1 st2 where s: "capture_step (is ! i) st1 = (ocs ! i, st2)"
    and r: "capture_run (drop (Suc i) is) st2 = (drop (Suc i) ocs, st')"
    using capture_run_split [OF assms(1) less_trans [OF assms(3,4)]] .
  from assms(5) have "last_hotkey_fire st2 = Some (input_time (is ! i))"
    using capture_step_fire(1) [OF s] by auto
  moreover from assms(5) s obtain env e where i: "is ! i = Ev env e" by (cases "is ! i") auto
  have "clock_ok (input_time (is ! i)) (drop (Suc i) is)"
    using clock_ok_drop [OF assms(2), of i] i assms(3,4) by simp
  moreover have "toggled (drop (Suc i) ocs ! (j - Suc i)) \<noteq> None"
    using assms(3,4,6) capture_run_length [OF assms(1)] by simp
  ultimately have "input_time (is ! i) + HOTKEY_DEBOUNCE \<le> input_time (drop (Suc i) is ! (j - Suc i))"
    using capture_run_debounce [OF r, of _ "j - Suc i"] assms(3,4) by simp
  then show ?thesis using assms(3,4) by simp
qed

text \<open>Two presses of a bare F12, bound as the hotkey, at 1000 ms and at \<open>t\<close>.\<close>

definition f12_hotkey :: hotkey_chord where
  "f12_hotkey = \<lparr>hk_ctrl = False, hk_alt = False, hk_shift = False, hk_meta = False, hk_key = K_F12\<rparr>"

definition f12_run :: "millis \<Rightarrow> capture_input list" where
  "f12_run t = (let tm = (\<lambda>n. \<lparr>env_now = n, env_display = None, env_simulate_ok = True\<rparr>) in
     [Ev (tm 1000) (ET_KeyPress K_F12), Ev (tm 1001) (ET_KeyRelease K_F12),
      Ev (tm t) (ET_KeyPress K_F12)])"

lemmas f12_eval =
  f12_run_def f12_hotkey_def process_key_press_def process_key_release_def try_fire_hotkey_def
  note_enabled_def capture_start_def chord_satisfied_def HOTKEY_DEBOUNCE_def Let_def

theorem toggles_debounced_witness:
  "map toggled (fst (capture_run (f12_run 1250) (capture_start False (Some f12_hotkey)))) =
     [Some True, None, Some False] \<and>
   input_time (f12_run 1250 ! 0) + HOTKEY_DEBOUNCE \<le> input_time (f12_run 1250 ! 2)"
proof -
  let ?r = "capture_run (f12_run 1250) (capture_start False (Some f12_hotkey))"
  have t: "map toggled (fst ?r) = [Some True, None, Some False]" by (simp add: f12_eval)
  then have "toggled (fst ?r ! 0) \<noteq> None" "toggled (fst ?r ! 2) \<noteq> None"
    by (auto simp: map_eq_Cons_conv)
  moreover have "clock_ok 0 (f12_run 1250)" "2 < length (f12_run 1250)"
    by (simp_all add: f12_run_def Let_def)
  ultimately show ?thesis
    using toggles_debounced [of "f12_run 1250" False "Some f12_hotkey" "fst ?r" "snd ?r" 0 2] t by simp
qed

text \<open>
  C26: between whole pixels no delta is lost or invented. While forwarding stays on and the callback has seen a first
  position, the deltas sent to the client add up to the distance the user moved the mouse, also when the cursor was warped
  back to the centre of the screen any number of times in between, provided that positions are whole numbers, each move fits in an
  \<open>i32\<close>, and the event of a warp is the next one the callback gets. (The fraction of a fractional move is cut off.)
\<close>

theorem motion_preserved:
  assumes "tracking p st" and "list_all (\<lambda>(env, d, c). small_move d) ms"
    and "desktop_run ms p st = (evs, st')"
  shows "total (map motion evs) = total (map (\<lambda>(env, d, c). d) ms)"
  using assms by (rule desktop_run_motion)

theorem motion_preserved_witness:
  "let env = \<lparr>env_now = 0, env_display = Some (1920, 1080), env_simulate_ok = True\<rparr>;
       st = snd (process_event env (move_to (1900, 500)) (capture_start True None))
   in total (map motion (fst (desktop_run
        [(env, (19, 4), (960, 540)), (env, (7, - 3), (960, 540))] (1900, 500) st))) = (26, 1)"
proof -
  let ?env = "\<lparr>env_now = 0, env_display = Some (1920, 1080), env_simulate_ok = True\<rparr>"
  let ?st = "snd (process_event ?env (move_to (1900, 500)) (capture_start True None))"
  let ?ms = "[(?env, (19, 4), (960, 540)), (?env, (7, - 3), (960, 540))] ::
    (capture_env \<times> (int \<times> int) \<times> (int \<times> int)) list"
  have "tracking (1900, 500) ?st"
    by (simp add: tracking_def move_to_def process_mouse_move_def note_enabled_def capture_start_def)
  moreover have "list_all (\<lambda>(env, d, c). small_move d) ?ms"
    by (simp add: small_move_def i32_min_def i32_max_def)
  ultimately have "total (map motion (fst (desktop_run ?ms (1900, 500) ?st)))
    = total (map (\<lambda>(env, d, c). d) ?ms)"
    by (rule motion_preserved) (rule prod.collapse [symmetric])
  also have "\<dots> = (26, 1)" by simp
  finally show ?thesis unfolding Let_def .
qed

text \<open>
  A release is withheld exactly when its press was consumed as the hotkey. On every run,
  the release of a key that was consumed is swallowed and not forwarded; any other release is
  treated as the flag says.
\<close>

theorem release_follows_press:
  assumes "capture_run is (capture_start on hk) = (ocs, st)"
  shows "fst (process_event env (ET_KeyRelease k) st) =
    (if k \<in> fold consumed_step (zip is ocs) {} then outcome_default\<lparr>swallow := True\<rparr>
     else forward_if (enabled st) (KeyRelease (key_to_code k) (compute_modifiers (pressed_keys st - {k}))))"
proof -
  have "hotkey_swallowed_keys st = fold consumed_step (zip is ocs) {}"
    using capture_run_swallowed_keys [OF assms] by (simp add: capture_start_def)
  then show ?thesis by (simp add: process_key_release_def forward_if_def Let_def)
qed

theorem release_follows_press_witness:
  "let (ocs, st) = capture_run (take 1 (f12_run 0)) (capture_start False (Some f12_hotkey)) in
   \<forall>env. fst (process_event env (ET_KeyRelease K_F12) st) = outcome_default\<lparr>swallow := True\<rparr>"
proof -
  let ?r = "capture_run (take 1 (f12_run 0)) (capture_start False (Some f12_hotkey))"
  have "K_F12 \<in> fold consumed_step (zip (take 1 (f12_run 0)) (fst ?r)) {}" by (simp add: f12_eval)
  with release_follows_press [of "take 1 (f12_run 0)" False "Some f12_hotkey" "fst ?r" "snd ?r"]
  show ?thesis by (simp add: case_prod_unfold)
qed

text \<open>
  C27: when the hotkey fires. A key press toggles forwarding exactly when the key is the
  chord's, it is not an auto-repeat, for each modifier of the chord its left or right key is
  down, and the debounce interval since the last toggle is over.
\<close>

theorem hotkey_fires_iff:
  "toggled (fst (process_event env (ET_KeyPress key) st)) \<noteq> None \<longleftrightarrow>
     (case hotkey st of
        None \<Rightarrow> False
      | Some hk \<Rightarrow>
          key = hk_key hk \<and> key \<notin> pressed_keys st \<and>
          (let P = insert key (pressed_keys st) in
             (\<not> hk_ctrl hk \<or> K_ControlLeft \<in> P \<or> K_ControlRight \<in> P) \<and>
             (\<not> hk_alt hk \<or> K_Alt \<in> P \<or> K_AltGr \<in> P) \<and>
             (\<not> hk_shift hk \<or> K_ShiftLeft \<in> P \<or> K_ShiftRight \<in> P) \<and>
             (\<not> hk_meta hk \<or> K_MetaLeft \<in> P \<or> K_MetaRight \<in> P)) \<and>
          (case last_hotkey_fire st of
             None \<Rightarrow> True
           | Some prev \<Rightarrow> HOTKEY_DEBOUNCE \<le> env_now env - prev))"
  unfolding process_event_toggles chord_satisfied_iff Let_def imp_conv_disj
  by (simp only: conj_ac)

theorem hotkey_fires_iff_witness:
  "toggled (fst (process_event \<lparr>env_now = 9, env_display = None, env_simulate_ok = True\<rparr>
     (ET_KeyPress K_F12) (capture_start False (Some f12_hotkey)))) \<noteq> None"
  unfolding hotkey_fires_iff by (simp add: capture_start_def f12_hotkey_def)

section \<open>Two runs the comments of the source rule out\<close>

fun grab_run ::
    "(capture_env \<times> event_type) list \<Rightarrow> capture_state \<Rightarrow>
     event_type list \<times> capture_event list \<times> capture_state" where
  "grab_run [] st = ([], [], st)"
| "grab_run ((env, e) # es) st =
     (case handle_grab_event env e st of (os, sent, st1) \<Rightarrow>
        (case grab_run es st1 of (oss, sents, st2) \<Rightarrow>
           ((case os of None \<Rightarrow> [] | Some e \<Rightarrow> [e]) @ oss, sent @ sents, st2)))"

definition ctrl_alt_f :: hotkey_chord where
  "ctrl_alt_f = \<lparr>hk_ctrl = True, hk_alt = True, hk_shift = False, hk_meta = False, hk_key = K_KeyF\<rparr>"

lemmas grab_eval =
  handle_grab_event_def process_key_press_def process_key_release_def try_fire_hotkey_def
  note_enabled_def outcome_default_def capture_start_def dispatch_def compute_modifiers_def
  chord_satisfied_def ctrl_alt_f_def modifier_bits Let_def

text \<open>
  Turning forwarding on with the chord: the local system saw Ctrl and Alt go down, and the
  callback swallows both releases, so the local system goes on seeing them held.
\<close>

lemma modifiers_left_held_locally:
  "\<exists>os sent st.
     grab_run (map (Pair env)
       [ET_KeyPress K_ControlLeft, ET_KeyPress K_Alt, ET_KeyPress K_KeyF,
        ET_KeyRelease K_KeyF, ET_KeyRelease K_Alt, ET_KeyRelease K_ControlLeft])
       (capture_start False (Some ctrl_alt_f)) = (os, sent, st) \<and>
     pressed_keys st = {} \<and> fold keys_after os {} = {K_ControlLeft, K_Alt}"
  by (simp add: grab_eval) auto

text \<open>
  A plain F that was forwarded and is still held when Ctrl and Alt go down: its auto-repeat is
  taken for the chord, and then its release is swallowed, so the client is never told.
\<close>

lemma forwarded_press_without_release:
  "\<exists>os st mc ma mr mr'.
     grab_run (map (Pair env)
       [ET_KeyPress K_KeyF, ET_KeyPress K_ControlLeft, ET_KeyPress K_Alt, ET_KeyPress K_KeyF,
        ET_KeyRelease K_KeyF, ET_KeyRelease K_Alt, ET_KeyRelease K_ControlLeft])
       (capture_start True (Some ctrl_alt_f)) =
     (os,
      [CapInput (KeyPress (key_to_code K_KeyF) 0),
       CapInput (KeyPress (key_to_code K_ControlLeft) mc), CapInput (KeyPress (key_to_code K_Alt) ma),
       CapInput (KeyRelease (key_to_code K_Alt) mr),
       CapInput (KeyRelease (key_to_code K_ControlLeft) mr')], st) \<and> pressed_keys st = {}"
  by (simp add: grab_eval) auto

end
