(* ===== verification/Display.thy ===== *)
theory Display
  imports Float64
begin

text \<open>
  \<^verbatim>\<open>common/src/display.rs\<close>: scaling a point between displays and detecting the screen edge.
  The two subtractions on \<open>i32\<close> can overflow; \<open>checks\<close> says whether the build checks for
  overflow (it then panics, the value \<open>None\<close>) or wraps around.
\<close>

section \<open>Definitions\<close>

record display_info =
  width :: u32
  height :: u32
  scale_factor :: f64

definition display_default :: display_info where
  "display_default = \<lparr>width = 1920, height = 1080, scale_factor = Fin 1\<rparr>"

datatype screen_edge = EdgeLeft | EdgeRight | EdgeTop | EdgeBottom

definition i32_sub :: "bool \<Rightarrow> i32 \<Rightarrow> i32 \<Rightarrow> i32 option" where
  "i32_sub checks a b =
     (if checks \<and> (sint a - sint b < i32_min \<or> i32_max < sint a - sint b) then None
      else Some (a - b))"

definition i32_max_of :: "i32 \<Rightarrow> i32 \<Rightarrow> i32" where
  "i32_max_of a b = (if sint a \<le> sint b then b else a)"

text \<open>\<open>Ord::clamp\<close> asserts that the bounds are in order.\<close>

definition i32_clamp :: "i32 \<Rightarrow> i32 \<Rightarrow> i32 \<Rightarrow> i32 option" where
  "i32_clamp v lo hi =
     (if sint hi < sint lo then None
      else Some (if sint v < sint lo then lo else if sint hi < sint v then hi else v))"

definition sane_scale :: "f64 \<Rightarrow> f64" where
  "sane_scale s = (if is_finite s \<and> f_gt_zero s then s else Fin 1)"

definition scaled :: "i32 \<Rightarrow> u32 \<Rightarrow> u32 \<Rightarrow> f64 \<Rightarrow> i32" where
  "scaled x src tgt dpi_ratio =
     (let norm_x = f_div (f64_of_int (sint x)) (f64_of_int (uint src))
      in f64_as_i32 (f_round (f_mul (f_mul norm_x (f64_of_int (uint tgt))) dpi_ratio)))"

definition scale_coordinates ::
    "bool \<Rightarrow> i32 \<Rightarrow> i32 \<Rightarrow> display_info \<Rightarrow> display_info \<Rightarrow> (i32 \<times> i32) option" where
  "scale_coordinates checks x y source target =
     (if width source = 0 \<or> height source = 0 \<or> width target = 0 \<or> height target = 0
      then Some (x, y)
      else
        (let dpi_ratio = f_div (sane_scale (scale_factor target)) (sane_scale (scale_factor source));
             target_x = scaled x (width source) (width target) dpi_ratio;
             target_y = scaled y (height source) (height target) dpi_ratio
         in (case i32_sub checks (width target) 1 of
               None \<Rightarrow> None
             | Some wx \<Rightarrow>
                 (case i32_sub checks (height target) 1 of
                    None \<Rightarrow> None
                  | Some hy \<Rightarrow>
                      (case i32_clamp target_x 0 (i32_max_of wx 0) of
                         None \<Rightarrow> None
                       | Some clamped_x \<Rightarrow>
                           (case i32_clamp target_y 0 (i32_max_of hy 0) of
                              None \<Rightarrow> None
                            | Some clamped_y \<Rightarrow> Some (clamped_x, clamped_y)))))))"

text \<open>\<open>extent as i32 - 1 - threshold\<close>\<close>

definition edge_limit :: "bool \<Rightarrow> u32 \<Rightarrow> i32 \<Rightarrow> i32 option" where
  "edge_limit checks extent threshold =
     (case i32_sub checks extent 1 of None \<Rightarrow> None | Some e \<Rightarrow> i32_sub checks e threshold)"

definition detect_edge_transition ::
    "bool \<Rightarrow> i32 \<Rightarrow> i32 \<Rightarrow> display_info \<Rightarrow> i32 \<Rightarrow> screen_edge option option" where
  "detect_edge_transition checks x y display threshold0 =
     (if width display = 0 \<or> height display = 0 then Some None
      else
        (let threshold = i32_max_of threshold0 0 in
         if sint x \<le> sint threshold then Some (Some EdgeLeft)
         else (case edge_limit checks (width display) threshold of
                 None \<Rightarrow> None
               | Some right \<Rightarrow>
                   if sint right \<le> sint x then Some (Some EdgeRight)
                   else if sint y \<le> sint threshold then Some (Some EdgeTop)
                   else (case edge_limit checks (height display) threshold of
                           None \<Rightarrow> None
                         | Some bottom \<Rightarrow>
                             if sint bottom \<le> sint y then Some (Some EdgeBottom) else Some None))))"

section \<open>Signed arithmetic\<close>

lemma sint_i32_bounds: "i32_min \<le> sint (a :: i32)" "sint (a :: i32) \<le> i32_max"
  using sint_ge [of a] sint_lt [of a] by (simp_all add: i32_min_def i32_max_def)

lemma sint_sub_exact:
  fixes a b :: i32
  assumes "i32_min \<le> sint a - sint b" and "sint a - sint b \<le> i32_max"
  shows "sint (a - b) = sint a - sint b"
proof -
  have "a - b = word_of_int (sint a - sint b)" by simp
  with assms show ?thesis
    by (simp only: signed_of_int i32_min_def i32_max_def)
      (simp add: signed_take_bit_int_eq_self)
qed

lemma i32_sub_exact:
  assumes "i32_min \<le> sint a - sint b" and "sint a - sint b \<le> i32_max"
  shows "i32_sub checks a b = Some (a - b)" and "sint (a - b) = sint a - sint b"
  using assms by (simp_all add: i32_sub_def sint_sub_exact)

lemma sint_i32_max_of: "sint (i32_max_of a b) = max (sint a) (sint b)"
  by (simp add: i32_max_of_def max_def)

lemma sint_small_u32: "uint (a :: u32) \<le> i32_max \<Longrightarrow> sint a = uint a"
proof -
  assume "uint a \<le> i32_max"
  moreover have "- (2 ^ 31) \<le> uint a" by (rule order_trans [OF _ uint_ge_0]) simp
  ultimately show ?thesis by (simp add: i32_max_def sint_uint signed_take_bit_int_eq_self)
qed

lemma i32_sub_one:
  assumes "0 < uint (e :: u32)" and "uint e \<le> i32_max"
  shows "i32_sub checks e 1 = Some (e - 1)" and "sint (e - 1) = uint e - 1"
proof -
  have "sint (1 :: i32) = 1" by simp
  with assms sint_small_u32 [OF assms(2)]
  show "i32_sub checks e 1 = Some (e - 1)" "sint (e - 1) = uint e - 1"
    using i32_sub_exact(1) [of e 1 checks] i32_sub_exact(2) [of e 1] by (simp_all add: i32_min_def i32_max_def)
qed

lemma u32_pos: "(e :: u32) \<noteq> 0 \<Longrightarrow> 0 < uint e"
  by (metis uint_ge_0 uint_0_iff order_le_less)

lemma clamp_axis:
  assumes "(e :: u32) \<noteq> 0" and "uint e \<le> i32_max"
  obtains c where "i32_clamp v 0 (i32_max_of (e - 1) 0) = Some c" and "0 \<le> sint c"
    and "sint c < uint e" and "0 \<le> sint v \<Longrightarrow> sint v < uint e \<Longrightarrow> c = v"
proof -
  have m: "sint (i32_max_of (e - 1) 0) = uint e - 1"
    using i32_sub_one(2) [OF u32_pos [OF assms(1)] assms(2)] u32_pos [OF assms(1)]
    by (simp add: sint_i32_max_of)
  with u32_pos [OF assms(1)] show ?thesis
    by (intro that [of "if sint v < 0 then 0 else if uint e - 1 < sint v then i32_max_of (e - 1) 0 else v"])
      (auto simp: i32_clamp_def)
qed

section \<open>Rounding\<close>

lemma round_half_even_error: "\<bar>of_int (round_half_even q) - q\<bar> \<le> 1 / 2"
proof -
  have "of_int \<lfloor>q\<rfloor> \<le> q" "q < of_int \<lfloor>q\<rfloor> + 1" by linarith+
  then show ?thesis
    unfolding round_half_even_def Let_def abs_le_iff
    by (auto simp: field_simps simp del: of_int_floor_le)
qed

lemma round64_error:
  assumes "2 powi (- 1022) \<le> \<bar>q\<bar>" and "\<bar>q\<bar> < 2 ^ 1000"
  obtains v where "round64 q = Fin v" and "\<bar>v - q\<bar> \<le> \<bar>q\<bar> / 2 ^ 53"
proof -
  have q0: "q \<noteq> 0" using assms(1) by (auto simp: power_int_def)
  let ?e = "floor_log2 \<bar>q\<bar>"
  have lower: "2 powi ?e \<le> \<bar>q\<bar>" using q0 by (intro floor_log2_lower) simp
  have "?e - 52 \<ge> - 1074"
  proof (rule ccontr)
    assume "\<not> ?e - 52 \<ge> - 1074"
    then have "?e + 1 \<le> - 1022" by simp
    then have "(2 :: rat) powi (?e + 1) \<le> 2 powi (- 1022)" by (intro power_int_increasing) simp_all
    with assms(1) floor_log2_upper [of "\<bar>q\<bar>"] q0 show False by simp
  qed
  then have k: "max (?e - 52) (- 1074) = ?e - 52" by simp
  let ?k = "?e - 52"
  define v where "v = of_int (round_half_even (q / 2 powi ?k)) * (2 :: rat) powi ?k"
  have p: "(0 :: rat) < 2 powi ?k" by simp
  have "v - q = (of_int (round_half_even (q / 2 powi ?k)) - q / 2 powi ?k) * 2 powi ?k"
    by (simp add: v_def left_diff_distrib)
  then have "\<bar>v - q\<bar> = \<bar>of_int (round_half_even (q / 2 powi ?k)) - q / 2 powi ?k\<bar> * 2 powi ?k"
    using p by (simp add: abs_mult)
  also have "\<dots> \<le> 1 / 2 * 2 powi ?k"
    using p by (intro mult_right_mono round_half_even_error) simp
  also have "\<dots> = 2 powi ?e / 2 ^ 53" by (simp add: power_int_diff)
  also have "\<dots> \<le> \<bar>q\<bar> / 2 ^ 53" using lower by (simp add: divide_right_mono)
  finally have err: "\<bar>v - q\<bar> \<le> \<bar>q\<bar> / 2 ^ 53" .
  have "\<bar>q\<bar> / 2 ^ 53 \<le> \<bar>q\<bar>" by (simp add: field_simps)
  then have "\<bar>v\<bar> \<le> 2 * \<bar>q\<bar>" using err by linarith
  also have "\<dots> < 2 * 2 ^ 1000" using assms(2) by simp
  also have "\<dots> \<le> 2 ^ 1024" by (simp flip: power_Suc)
  finally have "\<not> 2 powi 1024 \<le> \<bar>v\<bar>" by (simp add: power_int_def not_le)
  then have "round64 q = Fin v" using q0 k by (simp add: round64_def Let_def v_def)
  with err show ?thesis by (intro that)
qed

lemma abs_diff_le_iff: "\<bar>a - b\<bar> \<le> e \<longleftrightarrow> b - e \<le> a \<and> a \<le> b + e" for a b e :: "'a :: linordered_idom"
  by (auto simp: abs_le_iff)

lemma rounded_product:
  assumes "1 / 2 \<le> q" and "q < 2 ^ 40"
  obtains v where "round64 q = Fin v" and "\<bar>v - q\<bar> \<le> 1 / 2 ^ 13"
proof -
  have q: "0 < q" using assms(1) by linarith
  have "(2 :: rat) powi (- 1022) \<le> 2 powi (- 1)" by (rule power_int_increasing) simp_all
  also have "\<dots> = 1 / 2" by (simp add: power_int_minus)
  also have "\<dots> \<le> q" by (rule assms(1))
  finally have lo: "2 powi (- 1022) \<le> \<bar>q\<bar>" unfolding abs_of_pos [OF q] .
  have "(2 :: rat) ^ 40 \<le> 2 ^ 1000" by (rule power_increasing) simp_all
  then have hi: "\<bar>q\<bar> < 2 ^ 1000" using assms by simp
  obtain v where v: "round64 q = Fin v" "\<bar>v - q\<bar> \<le> \<bar>q\<bar> / 2 ^ 53"
    using round64_error [OF lo hi] .
  have "\<bar>q\<bar> / 2 ^ 53 \<le> 2 ^ 40 / 2 ^ 53" using assms by (intro divide_right_mono) auto
  also have "\<dots> = 1 / (2 :: rat) ^ 13" by simp
  finally show ?thesis using v by (intro that [of v]) auto
qed

lemma ratio_times_extent:
  assumes "1 \<le> x" and "x < w" and "w < 2 ^ 31"
  obtains v where "round64 (of_int x / of_int w) = Fin v" and "\<bar>v * of_int w - of_int x\<bar> \<le> 1 / 2 ^ 13"
proof -
  let ?x = "of_int x :: rat" and ?w = "of_int w :: rat"
  have w: "1 < ?w" "?w < 2 ^ 31" and x: "1 \<le> ?x" "?x < ?w"
    using assms by (simp_all add: of_int_less_iff [of _ "2 ^ 31", where 'a = rat, simplified])
  then have q: "0 < ?x / ?w" "?x / ?w < 1" by auto
  have "(2 :: rat) powi (- 1022) \<le> 2 powi (- 31)" by (rule power_int_increasing) simp_all
  also have "\<dots> \<le> ?x / ?w"
    using w x by (simp add: power_int_minus field_simps)
  finally have lo: "2 powi (- 1022) \<le> \<bar>?x / ?w\<bar>" unfolding abs_of_pos [OF q(1)] .
  have "(1 :: rat) \<le> 2 ^ 1000" by simp
  with q have hi: "\<bar>?x / ?w\<bar> < 2 ^ 1000" by linarith
  obtain v where v: "round64 (?x / ?w) = Fin v" "\<bar>v - ?x / ?w\<bar> \<le> \<bar>?x / ?w\<bar> / 2 ^ 53"
    using round64_error [OF lo hi] .
  have "v * ?w - ?x = (v - ?x / ?w) * ?w" using w by (simp add: left_diff_distrib)
  then have "\<bar>v * ?w - ?x\<bar> = \<bar>v - ?x / ?w\<bar> * ?w" using w by (simp add: abs_mult)
  also have "\<dots> \<le> (?x / ?w / 2 ^ 53) * ?w" using v(2) q w by (intro mult_right_mono) auto
  also have "\<dots> = ?x / 2 ^ 53" using w by simp
  also have "\<dots> \<le> 2 ^ 40 / 2 ^ 53" using x w by (intro divide_right_mono) auto
  also have "\<dots> = 1 / 2 ^ 13" by simp
  finally show ?thesis using v(1) by (intro that)
qed

lemma scale_round_trip:
  assumes "0 \<le> x" and "x < w" and "w < 2 ^ 31"
  shows "f_round (f_mul (f_mul (f_div (Fin (of_int x)) (Fin (of_int w))) (Fin (of_int w))) (Fin 1))
    = Fin (of_int x)"
proof (cases "x = 0")
  case True
  moreover have "\<lfloor>1 / 2 :: rat\<rfloor> = 0" by (simp add: floor_eq_iff)
  ultimately show ?thesis using assms by (simp add: round64_def f_round_def)
next
  case False
  then have x1: "1 \<le> x" using assms(1) by simp
  let ?x = "of_int x :: rat" and ?w = "of_int w :: rat"
  have xr: "1 \<le> ?x" "?x < 2 ^ 31"
    using x1 assms by (simp_all add: of_int_less_iff [of _ "2 ^ 31", where 'a = rat, simplified])
  obtain v1 where v1: "round64 (?x / ?w) = Fin v1" "\<bar>v1 * ?w - ?x\<bar> \<le> 1 / 2 ^ 13"
    using ratio_times_extent [OF x1 assms(2,3)] .
  have d: "f_div (Fin ?x) (Fin ?w) = Fin v1" using assms v1 by simp
  note near = abs_diff_le_iff [THEN iffD1, of _ _ "_ :: rat"]
  have b1: "?x - 1 / 8192 \<le> v1 * ?w" "v1 * ?w \<le> ?x + 1 / 8192" using near [OF v1(2)] by simp_all
  then have m1: "1 / 2 \<le> v1 * ?w" "v1 * ?w < 2 ^ 40" using xr by simp_all
  obtain v2 where v2: "round64 (v1 * ?w) = Fin v2" "\<bar>v2 - v1 * ?w\<bar> \<le> 1 / 2 ^ 13"
    using rounded_product [OF m1] .
  have b2: "?x - 2 / 8192 \<le> v2" "v2 \<le> ?x + 2 / 8192" using near [OF v2(2)] b1 by simp_all
  then have m2: "1 / 2 \<le> v2 * 1" "v2 * 1 < 2 ^ 40" using xr by simp_all
  obtain v3 where v3: "round64 (v2 * 1) = Fin v3" "\<bar>v3 - v2 * 1\<bar> \<le> 1 / 2 ^ 13"
    using rounded_product [OF m2] .
  have "?x - 3 / 8192 \<le> v3" "v3 \<le> ?x + 3 / 8192" using near [OF v3(2)] b2 by simp_all
  then have "\<lfloor>v3 + 1 / 2\<rfloor> = x" "0 \<le> v3" using xr by (simp_all add: floor_eq_iff)
  with d v2(1) v3(1) show ?thesis by (simp only: f_mul.simps f_round_def f64.case) simp
qed

lemma scaled_same:
  assumes "0 \<le> sint x" and "sint x < uint w" and "uint w \<le> i32_max"
  shows "scaled x w w (Fin 1) = x"
proof -
  have w31: "uint w < 2 ^ 31" using assms(3) by (simp add: i32_max_def)
  have fx: "f64_of_int (sint x) = Fin (of_int (sint x))"
    using assms w31 by (intro f64_of_int_exact) simp
  have fw: "f64_of_int (uint w) = Fin (of_int (uint w))"
    using assms w31 by (intro f64_of_int_exact) simp
  have "scaled x w w (Fin 1) = f64_as_i32 (Fin (of_int (sint x)))"
    unfolding scaled_def Let_def fx fw scale_round_trip [OF assms(1,2) w31] ..
  also have "\<dots> = word_of_int (sint x)"
    using sint_i32_bounds [of x]
    unfolding f64_as_i32_def f64_to_int_def f64.case truncate_rat_int by (simp only: min_absorb2 max_absorb2)
  finally show ?thesis by simp
qed

section \<open>Properties\<close>

lemma scale_coordinates_clamped:
  assumes "width source \<noteq> 0" "height source \<noteq> 0" "width target \<noteq> 0" "height target \<noteq> 0"
    and "uint (width target) \<le> i32_max" "uint (height target) \<le> i32_max"
    and "dpi = f_div (sane_scale (scale_factor target)) (sane_scale (scale_factor source))"
    and "tx = scaled x (width source) (width target) dpi"
    and "ty = scaled y (height source) (height target) dpi"
  obtains cx cy where "scale_coordinates checks x y source target = Some (cx, cy)"
    and "0 \<le> sint cx" "sint cx < uint (width target)" "0 \<le> sint cy" "sint cy < uint (height target)"
    and "0 \<le> sint tx \<Longrightarrow> sint tx < uint (width target) \<Longrightarrow> cx = tx"
    and "0 \<le> sint ty \<Longrightarrow> sint ty < uint (height target) \<Longrightarrow> cy = ty"
proof -
  obtain cx where cx: "i32_clamp tx 0 (i32_max_of (width target - 1) 0) = Some cx" "0 \<le> sint cx"
    "sint cx < uint (width target)" "0 \<le> sint tx \<Longrightarrow> sint tx < uint (width target) \<Longrightarrow> cx = tx"
    using clamp_axis [OF assms(3,5)] by blast
  obtain cy where cy: "i32_clamp ty 0 (i32_max_of (height target - 1) 0) = Some cy" "0 \<le> sint cy"
    "sint cy < uint (height target)" "0 \<le> sint ty \<Longrightarrow> sint ty < uint (height target) \<Longrightarrow> cy = ty"
    using clamp_axis [OF assms(4,6)] by blast
  have "scale_coordinates checks x y source target = Some (cx, cy)"
    using assms(1-4) cx(1) cy(1) i32_sub_one(1) [OF u32_pos [OF assms(3)] assms(5)]
      i32_sub_one(1) [OF u32_pos [OF assms(4)] assms(6)]
    by (simp add: scale_coordinates_def Let_def assms(7-9))
  with cx cy that show ?thesis by blast
qed

text \<open>
  C31: a scaled point is on the target display. For any point and any scale factors (zero,
  negative, NaN or infinite ones included), displays with no empty side whose target sides
  fit an \<open>i32\<close> give a point inside the target, in checked and in wrapping builds.
\<close>

theorem scaled_point_on_target:
  assumes "width source \<noteq> 0" "height source \<noteq> 0" "width target \<noteq> 0" "height target \<noteq> 0"
    and "uint (width target) \<le> i32_max" "uint (height target) \<le> i32_max"
  shows "\<exists>cx cy. scale_coordinates checks x y source target = Some (cx, cy) \<and>
    0 \<le> sint cx \<and> sint cx < uint (width target) \<and> 0 \<le> sint cy \<and> sint cy < uint (height target)"
  using scale_coordinates_clamped [OF assms refl refl refl] by blast

theorem scaled_point_on_target_witness:
  "\<exists>cx cy. scale_coordinates True (- 5) 7 display_default (display_default\<lparr>scale_factor := NaN\<rparr>) = Some (cx, cy) \<and>
    0 \<le> sint cx \<and> sint cx < 1920 \<and> 0 \<le> sint cy \<and> sint cy < 1080"
  using scaled_point_on_target [of display_default "display_default\<lparr>scale_factor := NaN\<rparr>" True "- 5" 7]
  by (simp add: display_default_def i32_max_def)

text \<open>
  Scaling between equal displays is the identity. The chain of rounded divisions and
  multiplications returns every point of the display to itself.
\<close>

theorem scale_same_display:
  assumes "width d \<noteq> 0" "height d \<noteq> 0"
    and "uint (width d) \<le> i32_max" "uint (height d) \<le> i32_max"
    and "0 \<le> sint x" "sint x < uint (width d)" "0 \<le> sint y" "sint y < uint (height d)"
  shows "scale_coordinates checks x y d d = Some (x, y)"
proof -
  have dpi: "Fin 1 = f_div (sane_scale (scale_factor d)) (sane_scale (scale_factor d))"
    using round64_int [of 1]
    by (auto simp: sane_scale_def is_finite_def f_gt_zero_def split: f64.splits)
  have tx: "x = scaled x (width d) (width d) (Fin 1)" and ty: "y = scaled y (height d) (height d) (Fin 1)"
    using assms by (simp_all add: scaled_same)
  show ?thesis
    using scale_coordinates_clamped [OF assms(1,2,1,2,3,4) dpi tx ty] assms(5-8) by metis
qed

theorem scale_same_display_witness:
  "scale_coordinates True 1919 3 display_default display_default = Some (1919, 3)"
  by (rule scale_same_display) (simp_all add: display_default_def i32_max_def)

text \<open>
  The comment of \<open>scale_coordinates\<close> promises that it is safe for all inputs; a target
  \<open>2\<^sup>3\<^sup>1\<close> pixels wide makes a build with overflow checks panic.
\<close>

theorem scale_coordinates_overflow:
  "scale_coordinates True x y display_default (display_default\<lparr>width := 2147483648\<rparr>) = None"
  by (simp add: scale_coordinates_def display_default_def i32_sub_def i32_min_def)

text \<open>
  Edge detection. With sides that fit an \<open>i32\<close>, no build panics, no edge is reported
  exactly for the points more than \<open>threshold\<close> pixels inside every border, and otherwise the
  first border touched in the order left, right, top, bottom is reported.
\<close>

theorem detect_edge_transition_spec:
  assumes "width d \<noteq> 0" "height d \<noteq> 0"
    and "uint (width d) \<le> i32_max" "uint (height d) \<le> i32_max"
  shows "detect_edge_transition checks x y d threshold =
    (let t = max (sint threshold) 0 in
     Some (if sint x \<le> t then Some EdgeLeft
           else if uint (width d) - 1 - t \<le> sint x then Some EdgeRight
           else if sint y \<le> t then Some EdgeTop
           else if uint (height d) - 1 - t \<le> sint y then Some EdgeBottom else None))"
proof -
  define t where "t = i32_max_of threshold 0"
  have t: "sint t = max (sint threshold) 0" by (simp add: t_def sint_i32_max_of)
  have lim: "edge_limit checks e t = Some (e - 1 - t) \<and> sint (e - 1 - t) = uint e - 1 - sint t"
    if "e \<noteq> 0" "uint e \<le> i32_max" for e :: u32
  proof -
    note one = i32_sub_one [OF u32_pos [OF that(1)] that(2)]
    have "i32_min \<le> sint (e - 1) - sint t" "sint (e - 1) - sint t \<le> i32_max"
      using one(2) that(2) t sint_i32_bounds [of t] u32_pos [OF that(1)]
      by (auto simp: i32_min_def i32_max_def)
    with one show ?thesis by (simp add: edge_limit_def i32_sub_exact)
  qed
  show ?thesis
    using assms lim [OF assms(1,3)] lim [OF assms(2,4)]
    by (simp add: detect_edge_transition_def Let_def t t_def [symmetric])
qed

theorem detect_edge_transition_spec_witness:
  "detect_edge_transition True 1918 500 display_default 5 = Some (Some EdgeRight)"
  using detect_edge_transition_spec [of display_default True 1918 500 5]
  by (simp add: display_default_def i32_max_def)

end
