(* ===== verification/RateLimit.thy ===== *)
theory RateLimit
  imports Prelude
begin

text \<open>
  The per-address lockout of \<^verbatim>\<open>server/src/server.rs\<close> (\<open>is_rate_limited\<close>,
  \<open>record_pairing_failure\<close>), which the pairing handler and the SOCKS5 server share. The locale
  \<open>per_peer\<close> states that peers do not influence each other; \<open>lockout\<close> adds the law that a burst
  of failures blocks the peer, and bounds how many guesses get through. The limiter of the
  source is an interpretation of both.
\<close>

section \<open>The limiter\<close>

definition RATE_LIMIT_MAX_FAILURES :: nat where
  "RATE_LIMIT_MAX_FAILURES = 5"

definition RATE_LIMIT_WINDOW :: millis where
  "RATE_LIMIT_WINDOW = 10 * 60 * 1000"

record rate_limit_entry =
  failures :: "millis list"
  blocked_until :: "millis option"

datatype ip_addr = IPv4 bytes | IPv6 bytes

type_synonym limiter = "ip_addr \<rightharpoonup> rate_limit_entry"

definition is_rate_limited :: "millis \<Rightarrow> limiter \<Rightarrow> ip_addr \<Rightarrow> bool" where
  "is_rate_limited now m ip =
     (case m ip of
        None \<Rightarrow> False
      | Some entry \<Rightarrow> (case blocked_until entry of None \<Rightarrow> False | Some until \<Rightarrow> now < until))"

definition fresh_entry :: rate_limit_entry where
  "fresh_entry = \<lparr>failures = [], blocked_until = None\<rparr>"

definition note_failure :: "millis \<Rightarrow> rate_limit_entry \<Rightarrow> rate_limit_entry" where
  "note_failure now entry =
     (let fs = filter (\<lambda>t. now - t < RATE_LIMIT_WINDOW) (failures entry) @ [now];
          entry1 = entry\<lparr>failures := fs\<rparr>
      in if length fs \<ge> RATE_LIMIT_MAX_FAILURES
         then entry1\<lparr>blocked_until := Some (now + RATE_LIMIT_WINDOW)\<rparr> else entry1)"

definition record_pairing_failure :: "millis \<Rightarrow> limiter \<Rightarrow> ip_addr \<Rightarrow> limiter" where
  "record_pairing_failure now m ip =
     m(ip \<mapsto> note_failure now (case m ip of None \<Rightarrow> fresh_entry | Some entry \<Rightarrow> entry))"

section \<open>Peers are independent\<close>

text \<open>
  A limiter keeps one entry per peer: whether a peer is limited depends on its entry only, and
  a failure changes the entry of the failing peer only.
\<close>

locale per_peer =
  fixes entry :: "'s \<Rightarrow> 'ip \<Rightarrow> 'e"
    and blocked :: "millis \<Rightarrow> 'e \<Rightarrow> bool"
    and note_fail :: "millis \<Rightarrow> 'e \<Rightarrow> 'e"
    and limited :: "millis \<Rightarrow> 's \<Rightarrow> 'ip \<Rightarrow> bool"
    and fail :: "millis \<Rightarrow> 's \<Rightarrow> 'ip \<Rightarrow> 's"
  assumes limited_entry: "limited t s ip = blocked t (entry s ip)"
    and fail_entry: "entry (fail t s ip) ip' = (if ip' = ip then note_fail t (entry s ip) else entry s ip')"
begin

text \<open>
  Wrong guesses of many peers, one after the other: each is checked against the limiter first
  and recorded when it is let through. The result lists the guesses that were let through.
\<close>

fun guesses :: "(millis \<times> 'ip) list \<Rightarrow> 's \<Rightarrow> (millis \<times> 'ip) list" where
  "guesses [] s = []"
| "guesses ((t, ip) # gs) s =
     (if limited t s ip then guesses gs s else (t, ip) # guesses gs (fail t s ip))"

fun peer_guesses :: "millis list \<Rightarrow> 'e \<Rightarrow> millis list" where
  "peer_guesses [] e = []"
| "peer_guesses (t # ts) e =
     (if blocked t e then peer_guesses ts e else t # peer_guesses ts (note_fail t e))"

definition of_peer :: "'ip \<Rightarrow> (millis \<times> 'ip) list \<Rightarrow> millis list" where
  "of_peer ip gs = map fst (filter (\<lambda>g. snd g = ip) gs)"

lemma of_peer_simps [simp]:
  "of_peer ip [] = []"
  "of_peer ip ((t, ip') # gs) = (if ip' = ip then t # of_peer ip gs else of_peer ip gs)"
  by (simp_all add: of_peer_def)

lemma guesses_of_peer: "of_peer ip (guesses gs s) = peer_guesses (of_peer ip gs) (entry s ip)"
proof (induction gs s rule: guesses.induct)
  case (2 t ip' gs s)
  then show ?case
    using limited_entry [of t s ip'] by (cases "limited t s ip'") (auto simp: fail_entry)
qed simp

lemma peer_guesses_subset: "set (peer_guesses ts e) \<subseteq> set ts"
  by (induction ts e rule: peer_guesses.induct) auto

lemma sorted_peer_guesses: "sorted ts \<Longrightarrow> sorted (peer_guesses ts e)"
proof (induction ts e rule: peer_guesses.induct)
  case (2 t ts e)
  then show ?case using peer_guesses_subset by fastforce
qed simp

text \<open>A guess let through was not blocked by those let through before it.\<close>

lemma peer_guesses_not_blocked:
  "i < length (peer_guesses ts e) \<Longrightarrow>
   \<not> blocked (peer_guesses ts e ! i) (fold note_fail (take i (peer_guesses ts e)) e)"
proof (induction ts e arbitrary: i rule: peer_guesses.induct)
  case (2 t ts e)
  show ?case
  proof (cases "blocked t e")
    case True
    with 2 show ?thesis by simp
  next
    case False
    with 2 show ?thesis by (cases i) auto
  qed
qed simp

lemma sorted_of_peer: "sorted (map fst gs) \<Longrightarrow> sorted (of_peer ip gs)"
  by (induction gs) (auto simp: of_peer_def)

end

section \<open>Bursts are blocked\<close>

locale lockout = per_peer entry blocked note_fail limited fail
  for entry :: "'s \<Rightarrow> 'ip \<Rightarrow> 'e" and blocked note_fail limited fail +
  fixes e0 :: 'e and n :: nat and w :: millis
  assumes burst:
    "sorted ts \<Longrightarrow> n \<le> length ts \<Longrightarrow> 0 < n \<Longrightarrow> last ts - ts ! (length ts - n) < w \<Longrightarrow>
     last ts \<le> t \<Longrightarrow> t < last ts + w \<Longrightarrow> blocked t (fold note_fail ts e0)"
begin

lemma peer_guesses_spaced:
  assumes "sorted ts" and "0 < n" and "i + n < length (peer_guesses ts e0)"
  shows "peer_guesses ts e0 ! i + w \<le> peer_guesses ts e0 ! (i + n)"
proof (rule ccontr)
  let ?g = "peer_guesses ts e0"
  assume "\<not> ?thesis"
  then have close: "?g ! (i + n) < ?g ! i + w" by simp
  have s: "sorted ?g" using assms(1) by (rule sorted_peer_guesses)
  let ?us = "take (i + n) ?g"
  have len: "length ?us = i + n" using assms(3) by simp
  then have "?us \<noteq> []" using assms(2) by auto
  then have last: "last ?us = ?g ! (i + n - 1)"
    using len assms(2) by (simp add: last_conv_nth)
  have mono: "?g ! i \<le> ?g ! (i + n - 1)" "?g ! (i + n - 1) \<le> ?g ! (i + n)"
    using s assms(2,3) by (auto intro!: sorted_nth_mono)
  have "blocked (?g ! (i + n)) (fold note_fail ?us e0)"
  proof (rule burst)
    show "sorted ?us" using s by (rule sorted_wrt_take)
    show "last ?us - ?us ! (length ?us - n) < w"
      unfolding last len using assms(2) close mono by simp
    show "last ?us \<le> ?g ! (i + n)" "?g ! (i + n) < last ?us + w"
      unfolding last using close mono by simp_all
  qed (use assms(2) len in simp_all)
  with peer_guesses_not_blocked [OF assms(3)] show False by simp
qed

lemma guesses_spaced:
  assumes "sorted (map fst gs)" and "0 < n" and "entry s ip = e0"
    and "i + n < length (of_peer ip (guesses gs s))"
  shows "of_peer ip (guesses gs s) ! i + w \<le> of_peer ip (guesses gs s) ! (i + n)"
  using peer_guesses_spaced [OF sorted_of_peer [OF assms(1)] assms(2), of i ip] assms(3,4)
  by (simp add: guesses_of_peer)

end

section \<open>The limiter of the server\<close>

definition entry_of :: "limiter \<Rightarrow> ip_addr \<Rightarrow> rate_limit_entry" where
  "entry_of m ip = (case m ip of None \<Rightarrow> fresh_entry | Some e \<Rightarrow> e)"

definition entry_blocked :: "millis \<Rightarrow> rate_limit_entry \<Rightarrow> bool" where
  "entry_blocked now e = (case blocked_until e of None \<Rightarrow> False | Some until \<Rightarrow> now < until)"

interpretation limiter: per_peer entry_of entry_blocked note_failure is_rate_limited
  record_pairing_failure
proof
  show "is_rate_limited t s ip = entry_blocked t (entry_of s ip)" for t s ip
    by (simp add: is_rate_limited_def entry_blocked_def entry_of_def fresh_entry_def split: option.split)
  show "entry_of (record_pairing_failure t s ip) ip' =
      (if ip' = ip then note_failure t (entry_of s ip) else entry_of s ip')" for t s ip ip'
    by (simp add: record_pairing_failure_def entry_of_def)
qed

lemma RATE_LIMIT_WINDOW_pos [simp]: "0 < RATE_LIMIT_WINDOW"
  by (simp add: RATE_LIMIT_WINDOW_def)

lemma failures_note_failure:
  "failures (note_failure t e) = filter (\<lambda>u. t - u < RATE_LIMIT_WINDOW) (failures e) @ [t]"
  by (simp add: note_failure_def Let_def)

lemma fold_note_failure_failures:
  assumes "sorted ts" and "ts \<noteq> []"
  shows "failures (fold note_failure ts fresh_entry) =
    filter (\<lambda>t. last ts - t < RATE_LIMIT_WINDOW) ts"
  using assms
proof (induction ts rule: rev_induct)
  case (snoc t ts)
  show ?case
  proof (cases "ts = []")
    case True
    then show ?thesis by (simp add: failures_note_failure fresh_entry_def)
  next
    case False
    with snoc have IH: "failures (fold note_failure ts fresh_entry) =
        filter (\<lambda>u. last ts - u < RATE_LIMIT_WINDOW) ts"
      by (simp add: sorted_append)
    have "last ts \<le> t" using snoc.prems(1) False by (simp add: sorted_append)
    then have "filter (\<lambda>u. t - u < RATE_LIMIT_WINDOW)
        (filter (\<lambda>u. last ts - u < RATE_LIMIT_WINDOW) ts) = filter (\<lambda>u. t - u < RATE_LIMIT_WINDOW) ts"
      by (auto intro!: filter_cong)
    with IH show ?thesis
      by (simp add: failures_note_failure del: filter_filter)
  qed
qed simp

lemma note_failure_blocks:
  "length (failures (note_failure t e)) \<ge> RATE_LIMIT_MAX_FAILURES \<Longrightarrow>
   blocked_until (note_failure t e) = Some (t + RATE_LIMIT_WINDOW)"
  by (simp add: note_failure_def Let_def split: if_splits)

interpretation limiter: lockout entry_of entry_blocked note_failure is_rate_limited
  record_pairing_failure fresh_entry RATE_LIMIT_MAX_FAILURES RATE_LIMIT_WINDOW
proof
  fix ts t
  let ?n = RATE_LIMIT_MAX_FAILURES and ?e = "fold note_failure ts fresh_entry"
  assume s: "sorted ts" and n: "?n \<le> length ts" "0 < ?n"
    and burst: "last ts - ts ! (length ts - ?n) < RATE_LIMIT_WINDOW"
    and t: "last ts \<le> t" "t < last ts + RATE_LIMIT_WINDOW"
  from n have ne: "ts \<noteq> []" by auto
  have "u \<in> set (drop (length ts - ?n) ts) \<Longrightarrow> last ts - u < RATE_LIMIT_WINDOW" for u
  proof -
    assume "u \<in> set (drop (length ts - ?n) ts)"
    then obtain i where "i < ?n" "u = ts ! (length ts - ?n + i)"
      using n by (auto simp: in_set_conv_nth)
    then have "ts ! (length ts - ?n) \<le> u" using s n by (auto intro!: sorted_nth_mono)
    with burst show ?thesis by simp
  qed
  then have "filter (\<lambda>u. last ts - u < RATE_LIMIT_WINDOW) (drop (length ts - ?n) ts) =
      drop (length ts - ?n) ts"
    by simp
  then have "?n \<le> length (filter (\<lambda>u. last ts - u < RATE_LIMIT_WINDOW) ts)"
    using n(1) by (subst append_take_drop_id [symmetric, of _ "length ts - ?n"])
      (simp only: filter_append length_append length_drop)
  then have "?n \<le> length (failures ?e)"
    using fold_note_failure_failures [OF s ne] by simp
  moreover have e: "?e = note_failure (last ts) (fold note_failure (butlast ts) fresh_entry)"
    by (subst append_butlast_last_id [OF ne, symmetric]) simp
  ultimately have "blocked_until ?e = Some (last ts + RATE_LIMIT_WINDOW)"
    by (simp only: note_failure_blocks)
  with t show "entry_blocked t ?e" by (simp add: entry_blocked_def)
qed

definition blocks_end :: "millis \<Rightarrow> limiter \<Rightarrow> bool" where
  "blocks_end now m \<longleftrightarrow>
     (\<forall>ip e until. m ip = Some e \<longrightarrow> blocked_until e = Some until \<longrightarrow> until \<le> now)"

lemma blocks_end_record:
  "blocks_end now m \<Longrightarrow> t + RATE_LIMIT_WINDOW \<le> now \<Longrightarrow> blocks_end now (record_pairing_failure t m ip)"
  by (auto simp: blocks_end_def record_pairing_failure_def note_failure_def fresh_entry_def Let_def
      split: option.splits if_splits)

section \<open>Properties\<close>

text \<open>The wrong guesses of several peers that the limiter lets through, in order.\<close>

fun guess_run :: "(millis \<times> ip_addr) list \<Rightarrow> limiter \<Rightarrow> (millis \<times> ip_addr) list" where
  "guess_run [] m = []"
| "guess_run ((t, ip) # gs) m =
     (if is_rate_limited t m ip then guess_run gs m
      else (t, ip) # guess_run gs (record_pairing_failure t m ip))"

definition times_of :: "ip_addr \<Rightarrow> (millis \<times> ip_addr) list \<Rightarrow> millis list" where
  "times_of ip gs = map fst (filter (\<lambda>g. snd g = ip) gs)"

lemma guess_run_eq: "guess_run gs m = limiter.guesses gs m"
  by (induction gs m rule: guess_run.induct) simp_all

lemma times_of_eq: "times_of ip gs = limiter.of_peer ip gs"
  by (simp add: times_of_def limiter.of_peer_def)

text \<open>
  How fast a PIN or a password can be guessed. However the guesses of any number of peers
  interleave, the wrong guesses of one peer that are let through are such that any six
  consecutive ones span at least ten minutes.
\<close>

theorem guesses_rate_limited:
  assumes "sorted (map fst gs)"
    and "i + RATE_LIMIT_MAX_FAILURES < length (times_of ip (guess_run gs Map.empty))"
  shows "times_of ip (guess_run gs Map.empty) ! i + RATE_LIMIT_WINDOW
    \<le> times_of ip (guess_run gs Map.empty) ! (i + RATE_LIMIT_MAX_FAILURES)"
  using limiter.guesses_spaced [OF assms(1), of Map.empty ip i] assms(2)
  by (simp add: guess_run_eq times_of_eq entry_of_def RATE_LIMIT_MAX_FAILURES_def)

definition six_guesses :: "(millis \<times> ip_addr) list" where
  "six_guesses = map (\<lambda>t. (t, IPv4 [10, 0, 0, 9])) [1, 2, 3, 4, 5, 6, 600005]"

lemma six_guesses_run:
  "times_of (IPv4 [10, 0, 0, 9]) (guess_run six_guesses Map.empty) = [1, 2, 3, 4, 5, 600005]"
  by (simp add: six_guesses_def times_of_def is_rate_limited_def record_pairing_failure_def
      note_failure_def fresh_entry_def RATE_LIMIT_MAX_FAILURES_def RATE_LIMIT_WINDOW_def Let_def)

theorem guesses_rate_limited_witness:
  "times_of (IPv4 [10, 0, 0, 9]) (guess_run six_guesses Map.empty) ! 0 + RATE_LIMIT_WINDOW
    \<le> times_of (IPv4 [10, 0, 0, 9]) (guess_run six_guesses Map.empty) ! (0 + RATE_LIMIT_MAX_FAILURES)"
proof (rule guesses_rate_limited)
  show "sorted (map fst six_guesses)" by (simp add: six_guesses_def)
  show "0 + RATE_LIMIT_MAX_FAILURES <
      length (times_of (IPv4 [10, 0, 0, 9]) (guess_run six_guesses Map.empty))"
    by (simp add: six_guesses_run RATE_LIMIT_MAX_FAILURES_def)
qed

text \<open>
  A lockout ends. Whatever failures of whatever peers were recorded up to time \<open>u\<close>, ten
  minutes later no peer is limited any more.
\<close>

theorem lockout_ends:
  assumes "\<forall>f \<in> set fs. fst f \<le> u" and "u + RATE_LIMIT_WINDOW \<le> now"
  shows "\<not> is_rate_limited now (fold (\<lambda>(t, ip) m. record_pairing_failure t m ip) fs Map.empty) ip"
proof -
  have "blocks_end now (fold (\<lambda>(t, ip) m. record_pairing_failure t m ip) fs Map.empty)"
    using assms(1)
  proof (induction fs rule: rev_induct)
    case Nil
    then show ?case by (simp add: blocks_end_def)
  next
    case (snoc f fs)
    obtain t ip where f: "f = (t, ip)" by (cases f)
    with snoc.prems have "t + RATE_LIMIT_WINDOW \<le> now" using assms(2) by simp
    with snoc f show ?case by (simp add: blocks_end_record)
  qed
  then show ?thesis by (fastforce simp: blocks_end_def is_rate_limited_def split: option.splits)
qed

theorem lockout_ends_witness:
  "is_rate_limited 600004 (fold (\<lambda>(t, ip) m. record_pairing_failure t m ip)
     (take 5 six_guesses) Map.empty) (IPv4 [10, 0, 0, 9]) \<and>
   \<not> is_rate_limited 600005 (fold (\<lambda>(t, ip) m. record_pairing_failure t m ip)
     (take 5 six_guesses) Map.empty) (IPv4 [10, 0, 0, 9])"
proof
  show "is_rate_limited 600004 (fold (\<lambda>(t, ip) m. record_pairing_failure t m ip)
     (take 5 six_guesses) Map.empty) (IPv4 [10, 0, 0, 9])"
    by (simp add: six_guesses_def is_rate_limited_def record_pairing_failure_def
      note_failure_def fresh_entry_def RATE_LIMIT_MAX_FAILURES_def RATE_LIMIT_WINDOW_def Let_def)
  show "\<not> is_rate_limited 600005 (fold (\<lambda>(t, ip) m. record_pairing_failure t m ip)
     (take 5 six_guesses) Map.empty) (IPv4 [10, 0, 0, 9])"
    by (rule lockout_ends [where u = 5]) (auto simp: six_guesses_def RATE_LIMIT_WINDOW_def)
qed

end
