(* ===== verification/ServerConfig.thy ===== *)
theory ServerConfig
  imports Protocol
begin

text \<open>
  \<^verbatim>\<open>server/src/config.rs\<close> and the start-up decisions of \<^verbatim>\<open>server/src/main.rs\<close>. A configuration
  file is its text; reading and printing TOML (crate \<open>toml\<close>) are the arguments \<open>from_toml\<close> and
  \<open>to_toml\<close>. What the operating system answers (host name, directories, environment variables,
  random numbers, whether a write succeeds) is an argument where it is used.
\<close>

section \<open>Data\<close>

record paired_device =
  pd_name :: string
  pd_fingerprint :: string
  pd_paired_at :: millis

record hotkey_config =
  toggle_forward :: string
  show_panel :: string

definition hotkey_config_default :: hotkey_config where
  "hotkey_config_default = \<lparr>toggle_forward = ''Ctrl+Alt+F'', show_panel = ''Ctrl+Alt+K''\<rparr>"

record socks5_settings =
  ss_port :: "u16 option"
  ss_username :: "string option"
  ss_password :: "string option"
  ss_allow_anonymous :: bool

definition socks5_settings_default :: socks5_settings where
  "socks5_settings_default =
     \<lparr>ss_port = None, ss_username = None, ss_password = None, ss_allow_anonymous = False\<rparr>"

record server_config =
  server_name :: string
  paired_devices :: "string \<rightharpoonup> paired_device"
  hotkey_cfg :: hotkey_config
  auto_forward :: bool
  clipboard_sync :: bool
  transfer_dir :: string
  file_transfer_port :: u16
  pairing_pin :: "string option"
  bind_address :: string
  max_file_size :: u64
  audit_log :: "string option"
  socks5 :: socks5_settings

definition path_join :: "string \<Rightarrow> string \<Rightarrow> string" where
  "path_join a b = (if starts_with b ''/'' then b else if a = [] \<or> last a = CHR ''/'' then a @ b else a @ ''/'' @ b)"

definition server_config_default ::
    "string option \<Rightarrow> string option \<Rightarrow> string option \<Rightarrow> server_config" where
  "server_config_default hostname download_dir home_dir =
     (let base = (case download_dir of
                    Some d \<Rightarrow> d
                  | None \<Rightarrow> (case home_dir of Some h \<Rightarrow> h | None \<Rightarrow> ''.''))
      in \<lparr>server_name = (case hostname of Some h \<Rightarrow> h | None \<Rightarrow> ''KVM-Server''),
          paired_devices = Map.empty, hotkey_cfg = hotkey_config_default, auto_forward = False,
          clipboard_sync = True, transfer_dir = path_join base ''kvm-transfers'',
          file_transfer_port = DEFAULT_FILE_PORT, pairing_pin = None, bind_address = ''0.0.0.0'',
          max_file_size = 0, audit_log = None, socks5 = socks5_settings_default\<rparr>)"

section \<open>Operations\<close>

datatype config_error = ReadFailed | ParseFailed | CreateDirFailed | PrintFailed | WriteFailed

datatype file_state = Missing | Unreadable | Content string

definition load_or_default ::
    "(string \<Rightarrow> server_config option) \<Rightarrow> server_config \<Rightarrow> file_state \<Rightarrow> config_error + server_config" where
  "load_or_default from_toml deflt file =
     (case file of
        Missing \<Rightarrow> Inr deflt
      | Unreadable \<Rightarrow> Inl ReadFailed
      | Content content \<Rightarrow>
          (case from_toml content of None \<Rightarrow> Inl ParseFailed | Some config \<Rightarrow> Inr config))"

text \<open>Restricting the file to its owner may fail too; the source then only logs.\<close>

definition save_config ::
    "(server_config \<Rightarrow> string option) \<Rightarrow> bool \<Rightarrow> bool \<Rightarrow> server_config \<Rightarrow> file_state \<Rightarrow>
     (config_error + unit) \<times> file_state" where
  "save_config to_toml dir_ok write_ok config file =
     (if \<not> dir_ok then (Inl CreateDirFailed, file)
      else (case to_toml config of
              None \<Rightarrow> (Inl PrintFailed, file)
            | Some content \<Rightarrow>
                if write_ok then (Inr (), Content content) else (Inl WriteFailed, file)))"

definition is_paired :: "server_config \<Rightarrow> string \<Rightarrow> bool" where
  "is_paired config fingerprint \<longleftrightarrow> paired_devices config fingerprint \<noteq> None"

definition add_paired_device :: "millis \<Rightarrow> string \<Rightarrow> string \<Rightarrow> server_config \<Rightarrow> server_config" where
  "add_paired_device now fingerprint name config =
     config\<lparr>paired_devices := (paired_devices config)(fingerprint \<mapsto>
       \<lparr>pd_name = name, pd_fingerprint = fingerprint, pd_paired_at = now\<rparr>)\<rparr>"

definition remove_paired_device :: "string \<Rightarrow> server_config \<Rightarrow> bool \<times> server_config" where
  "remove_paired_device fingerprint config =
     (paired_devices config fingerprint \<noteq> None,
      config\<lparr>paired_devices := (paired_devices config)(fingerprint := None)\<rparr>)"

text \<open>Every entry is stored under its own fingerprint.\<close>

definition wf_config :: "server_config \<Rightarrow> bool" where
  "wf_config config \<longleftrightarrow> (\<forall>fp d. paired_devices config fp = Some d \<longrightarrow> pd_fingerprint d = fp)"

lemma wf_config_add [simp]: "wf_config config \<Longrightarrow> wf_config (add_paired_device now fp name config)"
  by (auto simp: wf_config_def add_paired_device_def)

lemma wf_config_remove [simp]: "wf_config config \<Longrightarrow> wf_config (snd (remove_paired_device fp config))"
  by (auto simp: wf_config_def remove_paired_device_def split: if_splits)

lemma is_paired_add [simp]:
  "is_paired (add_paired_device now fp name config) fp' \<longleftrightarrow> fp' = fp \<or> is_paired config fp'"
  by (simp add: is_paired_def add_paired_device_def)

lemma is_paired_remove [simp]:
  "is_paired (snd (remove_paired_device fp config)) fp' \<longleftrightarrow> fp' \<noteq> fp \<and> is_paired config fp'"
  by (simp add: is_paired_def remove_paired_device_def)

section \<open>Start-up\<close>

definition or_else :: "'a option \<Rightarrow> 'a option \<Rightarrow> 'a option" where
  "or_else a b = (case a of Some x \<Rightarrow> Some x | None \<Rightarrow> b)"

text \<open>\<open>format!("{:06}", n)\<close>\<close>

definition show_06 :: "nat \<Rightarrow> string" where
  "show_06 n = (let d = show_nat n in replicate (6 - length d) (CHR ''0'') @ d)"

definition resolve_pin :: "string option \<Rightarrow> string option \<Rightarrow> server_config \<Rightarrow> nat \<Rightarrow> string" where
  "resolve_pin arg_pin env_pin config rnd =
     (case or_else arg_pin (or_else env_pin (pairing_pin config)) of
        Some pin \<Rightarrow> pin
      | None \<Rightarrow> show_06 (rnd mod 1000000))"

section \<open>Properties\<close>

lemma show_nat_length: "n < 10 ^ k \<Longrightarrow> 0 < k \<Longrightarrow> length (show_nat n) \<le> k"
proof (induction n arbitrary: k rule: show_nat.induct)
  case (1 n)
  show ?case
  proof (cases "n < 10")
    case True
    with "1.prems" show ?thesis by (subst show_nat.simps) simp
  next
    case False
    with "1.prems" obtain j where k: "k = Suc j" "0 < j"
      by (cases k; cases "k = 1") auto
    have "n div 10 < 10 ^ j" using "1.prems"(1) k by (simp add: div_less_iff_less_mult mult.commute)
    with False "1.IH" k have "length (show_nat (n div 10)) \<le> j" by blast
    with False k show ?thesis by (subst show_nat.simps) simp
  qed
qed

text \<open>
  The PIN of a run. A PIN given on the command line wins over the environment, which wins
  over the configuration; without any of them the PIN is generated, and it is always six
  decimal digits.
\<close>

theorem resolve_pin_spec:
  "resolve_pin arg env config rnd = (case (arg, env, pairing_pin config) of
       (Some p, _, _) \<Rightarrow> p
     | (None, Some p, _) \<Rightarrow> p
     | (None, None, Some p) \<Rightarrow> p
     | (None, None, None) \<Rightarrow> show_06 (rnd mod 1000000)) \<and>
   length (show_06 (rnd mod 1000000)) = 6 \<and> set (show_06 (rnd mod 1000000)) \<subseteq> {c. is_ascii_digit c}"
proof -
  have "length (show_nat (rnd mod 1000000)) \<le> 6" by (rule show_nat_length) simp_all
  then have "length (show_06 (rnd mod 1000000)) = 6" by (simp add: show_06_def Let_def)
  moreover have "set (show_06 (rnd mod 1000000)) \<subseteq> {c. is_ascii_digit c}"
    using show_nat_digits by (auto simp: show_06_def Let_def is_ascii_digit_def)
  ultimately show ?thesis by (simp add: resolve_pin_def or_else_def split: option.split)
qed

text \<open>A configuration with one paired device, for examples.\<close>

definition phone_config :: server_config where
  "phone_config = add_paired_device 5 ''AA'' ''phone'' (server_config_default None None None)"

end
