(* ===== verification/Server.thy ===== *)
theory Server
  imports Capture RateLimit ServerConfig
begin

text \<open>
  \<^verbatim>\<open>server/src/server.rs\<close>: the connection handler and the tasks around it.

  Up to a successful pairing a connection is a sequential program over a byte stream; it is
  \<open>handshake\<close>, in the state-and-error monad. After that the connection is one of several tasks
  that share the forwarding flag, the registry and the configuration. Each turn of such a task
  (one arm of a \<open>select!\<close>, one message of the forwarder) is a function on the shared state, and
  \<open>server_step\<close> interleaves them.

  The channel of a registered connection is \<open>outbox s cid\<close>: all envelopes queued for it so far.
\<close>

section \<open>Shared state\<close>

definition MAX_CLIPBOARD_BYTES :: nat where
  "MAX_CLIPBOARD_BYTES = 1024 * 1024"

definition HANDSHAKE_TIMEOUT :: millis where
  "HANDSHAKE_TIMEOUT = 10000"

definition MAX_PENDING_CONNECTIONS :: nat where
  "MAX_PENDING_CONNECTIONS = 256"

record server_state =
  config :: server_config
  config_file :: file_state
  forwarding_enabled :: bool
  registry :: "u64 list"
  outbox :: "u64 \<Rightarrow> envelope list"
  file_port :: u16
  pin :: string
  rate_limiter :: limiter
  clipboard_tx :: "string list option"

definition broadcast :: "envelope \<Rightarrow> server_state \<Rightarrow> server_state" where
  "broadcast e s =
     s\<lparr>outbox := (\<lambda>cid. if cid \<in> set (registry s) then outbox s cid @ [e] else outbox s cid)\<rparr>"

definition queue_to :: "u64 \<Rightarrow> envelope \<Rightarrow> server_state \<Rightarrow> server_state" where
  "queue_to cid e s = s\<lparr>outbox := (outbox s)(cid := outbox s cid @ [e])\<rparr>"

section \<open>Handshake and pairing\<close>

datatype server_error =
    Proto protocol_error
  | HelloTimeout
  | PairTimeout
  | VersionMismatchBail string
  | ExpectedHello
  | PeerRateLimited
  | PairingRejectedBail
  | ExpectedPairRequest

text \<open>
  The connection as its handler sees it. \<open>stalls\<close>: the peer keeps the connection open without
  sending more, so that a read past the end of \<open>rx\<close> runs into the deadline.
\<close>

record conn_state =
  srv :: server_state
  stream :: wire
  stalls :: bool

text \<open>
  What lies outside the sources: the digest, the serialization, the TOML printer, whether
  the configuration can be written, and the times read on the way (at the limiter check, when a
  device is added, when a failure is recorded).
\<close>

record handshake_env =
  he_sha :: "bytes \<Rightarrow> bytes"
  he_ser :: "envelope \<Rightarrow> bytes option"
  he_de :: "bytes \<Rightarrow> envelope option"
  he_to_toml :: "server_config \<Rightarrow> string option"
  he_dir_ok :: bool
  he_write_ok :: bool
  he_now :: millis

definition timed_read :: "handshake_env \<Rightarrow> server_error \<Rightarrow> (conn_state, server_error, envelope) io" where
  "timed_read env expired = (\<lambda>s. case read_envelope (he_de env) (stream s) of
      (Inr e, w) \<Rightarrow> (Inr e, s\<lparr>stream := w\<rparr>)
    | (Inl err, w) \<Rightarrow>
        (Inl (if err = Io UnexpectedEof \<and> stalls s then expired else Proto err), s\<lparr>stream := w\<rparr>))"

definition send :: "handshake_env \<Rightarrow> envelope \<Rightarrow> (conn_state, server_error, unit) io" where
  "send env e = (\<lambda>s. case send_envelope (he_ser env) e (stream s) of
      (Inr u, w) \<Rightarrow> (Inr u, s\<lparr>stream := w\<rparr>)
    | (Inl err, w) \<Rightarrow> (Inl (Proto err), s\<lparr>stream := w\<rparr>))"

definition read_hello :: "handshake_env \<Rightarrow> (conn_state, server_error, string) io" where
  "read_hello env =
     bindM (timed_read env HelloTimeout) (\<lambda>hello.
     case hello of
       Hello name version caps \<Rightarrow>
         if version \<noteq> PROTOCOL_VERSION then
           seqM (ignoreM (send env (ErrorMsg
               (''protocol version mismatch: server='' @ PROTOCOL_VERSION @ '', client='' @ version))))
             (bail (VersionMismatchBail version))
         else ret name
     | _ \<Rightarrow> seqM (ignoreM (send env (ErrorMsg ''expected Hello''))) (bail ExpectedHello))"

definition accept_new_device ::
    "handshake_env \<Rightarrow> string \<Rightarrow> string \<Rightarrow> server_state \<Rightarrow> server_state" where
  "accept_new_device env fingerprint client_name s =
     (let cfg = add_paired_device (he_now env) fingerprint client_name (config s)
      in s\<lparr>config := cfg,
           config_file := snd (save_config (he_to_toml env) (he_dir_ok env) (he_write_ok env) cfg (config_file s))\<rparr>)"

definition pair_device ::
    "handshake_env \<Rightarrow> ip_addr \<Rightarrow> string \<Rightarrow> (conn_state, server_error, string) io" where
  "pair_device env peer_ip client_name =
     bindM (timed_read env PairTimeout) (\<lambda>pair_req.
     case pair_req of
       PairRequest nonce fingerprint proof \<Rightarrow>
         bindM getM (\<lambda>s.
         if is_rate_limited (he_now env) (rate_limiter (srv s)) peer_ip then
           seqM (send env (PairReject ''too many failed pairing attempts; try again later''))
             (bail PeerRateLimited)
         else if is_paired (config (srv s)) fingerprint then
           seqM (send env PairAccept) (ret fingerprint)
         else if proof_matches (pairing_proof (he_sha env) (pin (srv s)) nonce fingerprint) proof then
           seqM (modifyM (\<lambda>s. s\<lparr>srv := accept_new_device env fingerprint client_name (srv s)\<rparr>))
             (seqM (send env PairAccept) (ret fingerprint))
         else
           seqM (modifyM (\<lambda>s. s\<lparr>srv := (srv s)\<lparr>rate_limiter :=
                   record_pairing_failure (he_now env) (rate_limiter (srv s)) peer_ip\<rparr>\<rparr>))
             (seqM (send env (PairReject ''pairing PIN required or incorrect''))
               (bail PairingRejectedBail)))
     | _ \<Rightarrow> seqM (send env (ErrorMsg ''expected PairRequest'')) (bail ExpectedPairRequest))"

definition handshake ::
    "handshake_env \<Rightarrow> ip_addr \<Rightarrow> (conn_state, server_error, string \<times> string) io" where
  "handshake env peer_ip =
     bindM (read_hello env) (\<lambda>client_name.
     bindM getM (\<lambda>s.
     seqM (send env (HelloAck (file_port (srv s)) (server_name (config (srv s)))))
       (bindM (pair_device env peer_ip client_name) (\<lambda>fingerprint. ret (client_name, fingerprint)))))"

section \<open>Registration, messages, disconnection\<close>

definition register_client :: "u64 \<Rightarrow> server_state \<Rightarrow> server_state" where
  "register_client cid s =
     (let s1 = s\<lparr>registry := List.insert cid (registry s)\<rparr>;
          is_first_client = (length (registry s1) = 1)
      in if is_first_client \<and> auto_forward (config s1) then
           (let s2 = s1\<lparr>forwarding_enabled := True\<rparr>
            in if \<not> forwarding_enabled s1 then queue_to cid (ToggleForward True) s2 else s2)
         else s1)"

text \<open>One message from a paired client; the flag says whether its loop goes on.\<close>

definition set_forwarding :: "bool \<Rightarrow> server_state \<Rightarrow> server_state" where
  "set_forwarding desired s =
     (if desired \<noteq> forwarding_enabled s then
        (let s1 = s\<lparr>forwarding_enabled := desired\<rparr>;
             s2 = (if \<not> desired then broadcast (Input ReleaseAll) s1 else s1)
         in broadcast (ToggleForward desired) s2)
      else s)"

fun client_message :: "u64 \<Rightarrow> envelope \<Rightarrow> server_state \<Rightarrow> bool \<times> server_state" where
  "client_message cid Goodbye s = (False, s)"
| "client_message cid (Ping ts) s = (True, queue_to cid (Pong ts) s)"
| "client_message cid (ToggleForward desired) s = (True, set_forwarding desired s)"
| "client_message cid (ClipboardSet text) s =
     (True,
      if clipboard_sync (config s) \<and> length text \<le> MAX_CLIPBOARD_BYTES then
        (case clipboard_tx s of
           None \<Rightarrow> s
         | Some q \<Rightarrow> s\<lparr>clipboard_tx := Some (q @ [text])\<rparr>)
      else s)"
| "client_message cid _ s = (True, s)"

definition ping_tick :: "u64 \<Rightarrow> u64 \<Rightarrow> server_state \<Rightarrow> server_state" where
  "ping_tick cid unix_millis s = queue_to cid (Ping unix_millis) s"

definition watchdog_expired :: "millis \<Rightarrow> millis \<Rightarrow> bool" where
  "watchdog_expired now last_seen \<longleftrightarrow> now - last_seen > 15000"

definition disconnect_client :: "u64 \<Rightarrow> server_state \<Rightarrow> server_state" where
  "disconnect_client cid s =
     (let s1 = s\<lparr>registry := removeAll cid (registry s)\<rparr>;
          s2 = (if registry s1 = [] \<and> auto_forward (config s1)
                then s1\<lparr>forwarding_enabled := False\<rparr> else s1)
      in queue_to cid Goodbye s2)"

section \<open>The forwarder\<close>

fun forward_event :: "capture_event \<Rightarrow> server_state \<Rightarrow> server_state" where
  "forward_event (CapInput ev) s = broadcast (Input ev) s"
| "forward_event (ForwardingToggled new_state) s =
     broadcast (ToggleForward new_state)
       (if \<not> new_state then broadcast (Input ReleaseAll) s else s)"

section \<open>The clipboard watcher\<close>

text \<open>
  The watcher thread with the system clipboard it owns: \<open>set_ok text\<close> says whether setting
  succeeds, \<open>reads\<close> what the clipboard answers in this round.
\<close>

fun apply_clipboard ::
    "(string \<Rightarrow> bool) \<Rightarrow> string list \<Rightarrow> string \<Rightarrow> string option \<Rightarrow> string \<times> string option" where
  "apply_clipboard set_ok [] last_seen board = (last_seen, board)"
| "apply_clipboard set_ok (text # q) last_seen board =
     (if text \<noteq> last_seen \<and> length text \<le> MAX_CLIPBOARD_BYTES
      then apply_clipboard set_ok q text (if set_ok text then Some text else board)
      else apply_clipboard set_ok q last_seen board)"

definition clipboard_round ::
    "(string \<Rightarrow> bool) \<Rightarrow> string \<times> string option \<Rightarrow> server_state \<Rightarrow>
     (string \<times> string option) \<times> server_state" where
  "clipboard_round set_ok wb s =
     (case wb of (last_seen0, board0) \<Rightarrow>
      case apply_clipboard set_ok (case clipboard_tx s of None \<Rightarrow> [] | Some q \<Rightarrow> q) last_seen0 board0 of
        (last_seen, board) \<Rightarrow>
          (let s1 = s\<lparr>clipboard_tx := map_option (\<lambda>_. []) (clipboard_tx s)\<rparr>
           in (case board of
                 None \<Rightarrow> ((last_seen, board), s1)
               | Some current \<Rightarrow>
                   if current \<noteq> last_seen \<and> current \<noteq> [] \<and> length current \<le> MAX_CLIPBOARD_BYTES
                   then ((current, board), broadcast (ClipboardSet current) s1)
                   else ((last_seen, board), s1))))"

section \<open>Reads do not depend on what was written\<close>

lemma read_exact_cong:
  "rx w = rx v \<Longrightarrow> fst (read_exact n w) = fst (read_exact n v) \<and>
     rx (snd (read_exact n w)) = rx (snd (read_exact n v))"
  by (simp add: read_exact_def)

lemma read_envelope_cong:
  assumes "rx w = rx v" and "read_envelope de w = (r, w')"
  shows "\<exists>v'. read_envelope de v = (r, v') \<and> rx v' = rx w'"
proof -
  obtain a w1 b v1 where 1: "read_exact 4 w = (a, w1)" "read_exact 4 v = (b, v1)"
    by (cases "read_exact 4 w"; cases "read_exact 4 v")
  then have ab: "a = b" and rx1: "rx w1 = rx v1"
    using read_exact_cong [OF assms(1), of 4] by simp_all
  show ?thesis
  proof (cases b)
    case (Inl e)
    with 1 ab rx1 assms(2) show ?thesis by (auto simp: read_envelope_def bindM_def)
  next
    case (Inr hdr)
    let ?n = "from_be_bytes hdr"
    obtain c w2 d v2 where 2: "read_exact ?n w1 = (c, w2)" "read_exact ?n v1 = (d, v2)"
      by (cases "read_exact ?n w1"; cases "read_exact ?n v1")
    then have "c = d" "rx w2 = rx v2" using read_exact_cong [OF rx1, of ?n] by simp_all
    with 1 2 ab rx1 Inr assms(2) show ?thesis
      by (auto simp: read_envelope_def bindM_def bail_def liftR_def Let_def split: if_splits sum.splits)
  qed
qed

lemma read_loop_cong: "rx w = rx v \<Longrightarrow> read_loop de w = read_loop de v"
proof (induction de w arbitrary: v rule: read_loop.induct)
  case (1 de w)
  obtain r w' where r: "read_envelope de w = (r, w')" by (cases "read_envelope de w")
  then obtain v' where v: "read_envelope de v = (r, v')" "rx v' = rx w'"
    using read_envelope_cong [OF "1.prems"] by blast
  show ?case
  proof (cases r)
    case (Inl e)
    with r v show ?thesis by (subst (1 2) read_loop.simps) simp
  next
    case (Inr e)
    with "1.IH" [of r w' e v'] r v have "read_loop de w' = read_loop de v'" by simp
    with r v Inr show ?thesis by (subst (1 2) read_loop.simps) simp
  qed
qed

lemma send_envelope_rx: "rx (snd (send_envelope ser e w)) = rx w"
  by (auto simp: send_envelope_def bindM_def liftR_def write_all_def split: sum.splits option.splits)

lemma send_frame:
  "send env e c = (r, c') \<Longrightarrow> srv c' = srv c \<and> rx (stream c') = rx (stream c) \<and> stalls c' = stalls c"
  using send_envelope_rx [of "he_ser env" e "stream c"]
  by (auto simp: send_def split: prod.splits sum.splits)

lemma timed_read_Inr:
  "timed_read env x c = (Inr e, c') \<Longrightarrow>
   srv c' = srv c \<and> read_loop (he_de env) (stream c) = e # read_loop (he_de env) (stream c')"
  by (subst read_loop.simps) (auto simp: timed_read_def split: prod.splits sum.splits)

lemma timed_read_srv: "timed_read env x c = (r, c') \<Longrightarrow> srv c' = srv c"
  by (auto simp: timed_read_def split: prod.splits sum.splits)

lemma ignore_send_srv: "srv (snd (ignoreM (send env e) c)) = srv c"
  using send_frame by (simp add: ignoreM_def) (metis prod.collapse)

section \<open>What the handshake does\<close>

lemma read_hello_srv: "read_hello env c = (r, c') \<Longrightarrow> srv c' = srv c"
  using ignore_send_srv
  by (auto simp: read_hello_def bindM_def seqM_def ret_def bail_def ignoreM_def
      split: prod.splits sum.splits envelope.splits if_splits dest!: timed_read_srv)

lemma read_hello_Inr:
  assumes "read_hello env c = (Inr name, c')"
  shows "\<exists>caps. read_loop (he_de env) (stream c) =
    Hello name PROTOCOL_VERSION caps # read_loop (he_de env) (stream c')"
proof -
  from assms obtain hello c1 where r: "timed_read env HelloTimeout c = (Inr hello, c1)"
    by (auto simp: read_hello_def bindM_Inr_iff)
  with assms obtain version caps where h: "hello = Hello name version caps" "version = PROTOCOL_VERSION"
    and "c' = c1"
    by (cases hello) (auto simp: read_hello_def bindM_def seqM_Inr_iff ret_def bail_def split: if_splits)
  with timed_read_Inr [OF r] show ?thesis by simp
qed

text \<open>
  The outcomes of pairing, with what the handler saw on the way: no change, a device added, or a
  failure counted.
\<close>

lemma pair_device_outcome:
  assumes "pair_device env ip name c = (r, c')"
  obtains (unchanged) "srv c' = srv c"
      and "\<forall>fp. r = Inr fp \<longrightarrow> \<not> is_rate_limited (he_now env) (rate_limiter (srv c)) ip \<and>
        is_paired (config (srv c)) fp"
  | (added) nonce fp pf rest where "srv c' = accept_new_device env fp name (srv c)" and "\<forall>fp'. r = Inr fp' \<longrightarrow> fp' = fp"
      and "\<not> is_rate_limited (he_now env) (rate_limiter (srv c)) ip" and "\<not> is_paired (config (srv c)) fp"
      and "proof_matches (pairing_proof (he_sha env) (pin (srv c)) nonce fp) pf"
      and "read_loop (he_de env) (stream c) = PairRequest nonce fp pf # rest"
  | (failed) nonce fp pf where
      "srv c' = (srv c)\<lparr>rate_limiter := record_pairing_failure (he_now env) (rate_limiter (srv c)) ip\<rparr>"
      and "\<exists>e. r = Inl e"
      and "\<not> is_rate_limited (he_now env) (rate_limiter (srv c)) ip" and "\<not> is_paired (config (srv c)) fp"
      and "\<not> proof_matches (pairing_proof (he_sha env) (pin (srv c)) nonce fp) pf"
proof (cases "timed_read env PairTimeout c")
  case (Pair r1 c1)
  note s1 = timed_read_srv [OF Pair]
  show ?thesis
  proof (cases "\<exists>nonce fp pf. r1 = Inr (PairRequest nonce fp pf)")
    case False
    with assms Pair s1 show ?thesis
      by (intro unchanged; cases r1)
        (auto simp: pair_device_def bindM_def seqM_def bail_def split: envelope.splits prod.splits sum.splits
          dest!: send_frame)
  next
    case True
    then obtain nonce fp pf where r1: "r1 = Inr (PairRequest nonce fp pf)" by blast
    then have rl: "read_loop (he_de env) (stream c) = PairRequest nonce fp pf # read_loop (he_de env) (stream c1)"
      using timed_read_Inr Pair by blast
    let ?lim = "is_rate_limited (he_now env) (rate_limiter (srv c)) ip"
    let ?known = "is_paired (config (srv c)) fp"
    let ?ok = "proof_matches (pairing_proof (he_sha env) (pin (srv c)) nonce fp) pf"
    note eqs = pair_device_def bindM_def getM_def seqM_def ret_def bail_def modifyM_def
    consider "?lim \<or> ?known" | "\<not> ?lim" "\<not> ?known" "?ok" | "\<not> ?lim" "\<not> ?known" "\<not> ?ok" by blast
    then show ?thesis
    proof cases
      case 1
      with assms Pair r1 s1 show ?thesis
        by (intro unchanged) (auto simp: eqs split: prod.splits sum.splits if_splits dest!: send_frame)
    next
      case 2
      with assms Pair r1 s1 rl show ?thesis
        by (intro added [of fp nonce pf]) (auto simp: eqs split: prod.splits sum.splits dest!: send_frame)
    next
      case 3
      with assms Pair r1 s1 show ?thesis
        by (intro failed [of fp nonce pf]) (auto simp: eqs split: prod.splits sum.splits dest!: send_frame)
    qed
  qed
qed

text \<open>
  What pairing changes on the server: nothing but the limiter entry of the peer, or the
  configuration with the new device.
\<close>

lemma pair_device_cases:
  assumes "pair_device env ip name c = (r, c')"
  obtains (unchanged) "srv c' = srv c" and "\<forall>fp. r = Inr fp \<longrightarrow> is_paired (config (srv c)) fp"
  | (failed) "srv c' = (srv c)\<lparr>rate_limiter := record_pairing_failure (he_now env) (rate_limiter (srv c)) ip\<rparr>"
      and "\<exists>e. r = Inl e" and "\<not> is_rate_limited (he_now env) (rate_limiter (srv c)) ip"
  | (added) nonce fp pf rest where "srv c' = accept_new_device env fp name (srv c)"
      and "\<forall>fp'. r = Inr fp' \<longrightarrow> fp' = fp"
      and "\<not> is_rate_limited (he_now env) (rate_limiter (srv c)) ip"
      and "proof_matches (pairing_proof (he_sha env) (pin (srv c)) nonce fp) pf"
      and "read_loop (he_de env) (stream c) = PairRequest nonce fp pf # rest"
  using assms
proof (cases rule: pair_device_outcome)
  case (unchanged)
  then show ?thesis by (intro that(1)) auto
next
  case (added nonce fp pf rest)
  then show ?thesis by (intro that(3)) auto
next
  case (failed nonce fp pf)
  then show ?thesis by (intro that(2)) auto
qed

lemma handshake_Inr:
  assumes "handshake env ip c = (Inr (name, fp), c')"
  obtains c1 caps where "srv c1 = srv c" and "pair_device env ip name c1 = (Inr fp, c')"
    and "read_loop (he_de env) (stream c) =
      Hello name PROTOCOL_VERSION caps # read_loop (he_de env) (stream c1)"
proof -
  from assms obtain c0 c1 where h: "read_hello env c = (Inr name, c0)"
    and s: "send env (HelloAck (file_port (srv c0)) (server_name (config (srv c0)))) c0 = (Inr (), c1)"
    and p: "pair_device env ip name c1 = (Inr fp, c')"
    by (auto simp: handshake_def bindM_Inr_iff seqM_Inr_iff getM_def ret_def)
  have "srv c1 = srv c" using send_frame [OF s] read_hello_srv [OF h] by simp
  moreover have "read_loop (he_de env) (stream c1) = read_loop (he_de env) (stream c0)"
    using send_frame [OF s] by (intro read_loop_cong) simp
  ultimately show ?thesis using read_hello_Inr [OF h] p that by auto
qed

lemma handshake_srv:
  assumes "handshake env ip c = (r, c')"
  shows "srv c' = srv c \<or> (\<exists>c1 r1 name. srv c1 = srv c \<and> pair_device env ip name c1 = (r1, c') \<and>
    (\<forall>e. r1 = Inl e \<longrightarrow> r = Inl e))"
proof (cases "read_hello env c")
  case (Pair r0 c0)
  note h = read_hello_srv [OF Pair]
  show ?thesis
  proof (cases r0)
    case (Inl e)
    with assms Pair h show ?thesis by (auto simp: handshake_def bindM_def)
  next
    case (Inr name)
    obtain r1 c1 where s: "send env (HelloAck (file_port (srv c0)) (server_name (config (srv c0)))) c0 = (r1, c1)"
      by (cases "send env (HelloAck (file_port (srv c0)) (server_name (config (srv c0)))) c0")
    obtain r2 c2 where p: "pair_device env ip name c1 = (r2, c2)" by (cases "pair_device env ip name c1")
    show ?thesis
      using assms Pair Inr s p h send_frame [OF s]
      by (cases r1; cases r2) (auto simp: handshake_def bindM_def seqM_def getM_def ret_def)
  qed
qed

text \<open>The registry, the queues and the forwarding flag are not the handshake's business.\<close>

lemma handshake_frame:
  assumes "handshake env ip c = (r, c')"
  shows "registry (srv c') = registry (srv c)" "outbox (srv c') = outbox (srv c)"
    "forwarding_enabled (srv c') = forwarding_enabled (srv c)"
    "is_paired (config (srv c)) fp \<Longrightarrow> is_paired (config (srv c')) fp"
  using handshake_srv [OF assms]
  by (auto elim!: pair_device_cases simp: accept_new_device_def Let_def)

lemma handshake_paired:
  assumes "handshake env ip c = (Inr (name, fp), c')"
  shows "is_paired (config (srv c')) fp"
proof -
  obtain c1 where s: "srv c1 = srv c" and p: "pair_device env ip name c1 = (Inr fp, c')"
    using handshake_Inr [OF assms] by blast
  from p show ?thesis by (cases rule: pair_device_cases) (auto simp: accept_new_device_def Let_def)
qed

lemma pair_device_Inr:
  assumes "pair_device env ip name c = (Inr fp, c')"
  shows "\<exists>nonce pf rest. read_loop (he_de env) (stream c) = PairRequest nonce fp pf # rest \<and>
    \<not> is_rate_limited (he_now env) (rate_limiter (srv c)) ip \<and>
    (is_paired (config (srv c)) fp \<or>
     proof_matches (pairing_proof (he_sha env) (pin (srv c)) nonce fp) pf)"
proof -
  from assms obtain req c1 where r: "timed_read env PairTimeout c = (Inr req, c1)"
    by (auto simp: pair_device_def bindM_Inr_iff)
  note rl = timed_read_Inr [OF r]
  from assms r obtain nonce fp' pf where req: "req = PairRequest nonce fp' pf"
    by (cases req) (auto simp: pair_device_def bindM_def seqM_Inr_iff bail_def)
  with assms r rl have "fp' = fp \<and> \<not> is_rate_limited (he_now env) (rate_limiter (srv c)) ip \<and>
    (is_paired (config (srv c)) fp \<or>
     proof_matches (pairing_proof (he_sha env) (pin (srv c)) nonce fp) pf)"
    by (auto simp: pair_device_def bindM_def getM_def seqM_Inr_iff bail_def ret_def split: if_splits)
  with rl req show ?thesis by blast
qed

lemma read_loop_decoded: "e \<in> set (read_loop de w) \<Longrightarrow> \<exists>bs. de bs = Some e"
proof (induction de w rule: read_loop.induct)
  case (1 de w)
  obtain r w' where r: "read_envelope de w = (r, w')" by (cases "read_envelope de w")
  have dec: "\<exists>bs. de bs = Some e'" if "r = Inr e'" for e'
    using r that
    by (auto simp: read_envelope_def bindM_Inr_iff bail_def liftR_def deserialize_envelope_def Let_def
        split: if_splits option.splits)
  show ?case
  proof (cases r)
    case (Inl x)
    with r "1.prems" show ?thesis by (simp add: read_loop.simps [of de w])
  next
    case (Inr e')
    with r "1.prems" have "e = e' \<or> e \<in> set (read_loop de w')" by (simp add: read_loop.simps [of de w])
    with "1.IH" [of r w' e'] r Inr dec show ?thesis by auto
  qed
qed

section \<open>A concrete connection\<close>

text \<open>A peer that says hello and asks to pair with a proof for the PIN \<open>1234\<close>.\<close>

definition ex_nonce :: bytes where
  "ex_nonce = replicate 16 7"

definition ex_de :: "string \<Rightarrow> bytes \<Rightarrow> envelope option" where
  "ex_de guess bs =
     (if bs = [1] then Some (Hello ''pc'' PROTOCOL_VERSION caps_default)
      else if bs = [2] then Some (PairRequest ex_nonce ''AA'' (pairing_proof pad32 guess ex_nonce ''AA''))
      else None)"

definition ex_env :: "string \<Rightarrow> handshake_env" where
  "ex_env guess =
     \<lparr>he_sha = pad32, he_ser = (\<lambda>_. Some []), he_de = ex_de guess, he_to_toml = (\<lambda>_. Some []),
      he_dir_ok = True, he_write_ok = True, he_now = 5\<rparr>"

definition ex_wire :: wire where
  "ex_wire = \<lparr>rx = [0, 0, 0, 1, 1, 0, 0, 0, 1, 2], tx = [], tx_room = None\<rparr>"

definition ex_server :: server_state where
  "ex_server =
     \<lparr>config = server_config_default None None None, config_file = Missing, forwarding_enabled = False,
      registry = [], outbox = (\<lambda>_. []), file_port = DEFAULT_FILE_PORT, pin = ''1234'',
      rate_limiter = Map.empty, clipboard_tx = None\<rparr>"

definition ex_ip :: ip_addr where
  "ex_ip = IPv4 [10, 0, 0, 9]"

lemma ex_env_simps [simp]:
  "he_sha (ex_env g) = pad32" "he_de (ex_env g) = ex_de g" "he_now (ex_env g) = 5"
  "he_dir_ok (ex_env g)" "he_write_ok (ex_env g)" "he_to_toml (ex_env g) = (\<lambda>_. Some [])"
  by (simp_all add: ex_env_def)

lemma ex_read1:
  "read_envelope (ex_de g) \<lparr>rx = [0, 0, 0, 1, 1, 0, 0, 0, 1, 2], tx = t, tx_room = None\<rparr> =
     (Inr (Hello ''pc'' PROTOCOL_VERSION caps_default),
      \<lparr>rx = [0, 0, 0, 1, 2], tx = t, tx_room = None\<rparr>)"
  by (simp add: read_envelope_def bindM_def read_exact_def from_be_bytes_def MAX_ENVELOPE_SIZE_def
      liftR_def deserialize_envelope_def ex_de_def)

lemma ex_read2:
  "read_envelope (ex_de g) \<lparr>rx = [0, 0, 0, 1, 2], tx = t, tx_room = None\<rparr> =
     (Inr (PairRequest ex_nonce ''AA'' (pairing_proof pad32 g ex_nonce ''AA'')),
      \<lparr>rx = [], tx = t, tx_room = None\<rparr>)"
  by (simp add: read_envelope_def bindM_def read_exact_def from_be_bytes_def MAX_ENVELOPE_SIZE_def
      liftR_def deserialize_envelope_def ex_de_def)

lemma ex_send:
  "tx_room (stream c) = None \<Longrightarrow>
   send (ex_env g) e c = (Inr (), c\<lparr>stream := (stream c)\<lparr>tx := tx (stream c) @ to_be_bytes32 0\<rparr>\<rparr>)"
  by (simp add: send_def send_envelope_def serialize_envelope_def ex_env_def bindM_def liftR_def
      write_all_def)

lemma ex_pins_differ:
  "proof_matches (pairing_proof pad32 ''1234'' ex_nonce ''AA'') (pairing_proof pad32 ''0000'' ex_nonce ''AA'') = False"
proof -
  have "pad32 (proof_message ''1234'' ex_nonce ''AA'') \<noteq> pad32 (proof_message ''0000'' ex_nonce ''AA'')"
    by code_simp
  then show ?thesis by (simp add: proof_matches_iff pairing_proof_def)
qed

lemma ex_handshake_ok:
  "\<exists>c. handshake (ex_env ''1234'') ex_ip \<lparr>srv = ex_server\<lparr>clipboard_tx := q\<rparr>, stream = ex_wire, stalls = b\<rparr> =
     (Inr (''pc'', ''AA''), c) \<and> registry (srv c) = [] \<and> outbox (srv c) = (\<lambda>_. []) \<and>
     \<not> auto_forward (config (srv c)) \<and> \<not> forwarding_enabled (srv c)"
  by (simp add: handshake_def read_hello_def pair_device_def timed_read_def bindM_def seqM_def getM_def
      ret_def modifyM_def ex_send ex_wire_def ex_read1 ex_read2 ex_server_def is_rate_limited_def
      is_paired_def server_config_default_def proof_matches_iff pairing_proof_def accept_new_device_def
      add_paired_device_def Let_def)

section \<open>Properties of pairing\<close>

text \<open>
  C5: who gets paired. A connection passes the handshake only if the peer was not locked out,
  its first two messages are a \<open>Hello\<close> of this protocol version and a \<open>PairRequest\<close>, and the
  fingerprint in it either was paired before or comes with the proof for the server's PIN, the
  nonce of the message and this very fingerprint.
\<close>

theorem handshake_only_paired:
  assumes "handshake env ip c = (Inr (name, fp), c')"
    and "\<And>m. length (he_sha env m) = 32"
    and "\<And>bs nonce fp pf. he_de env bs = Some (PairRequest nonce fp pf) \<Longrightarrow> length pf = 32"
  shows "\<not> is_rate_limited (he_now env) (rate_limiter (srv c)) ip \<and>
    (\<exists>caps nonce pf rest.
       read_loop (he_de env) (stream c) =
         Hello name PROTOCOL_VERSION caps # PairRequest nonce fp pf # rest \<and>
       (is_paired (config (srv c)) fp \<or> pf = pairing_proof (he_sha env) (pin (srv c)) nonce fp))"
proof -
  obtain c1 caps where s: "srv c1 = srv c" and p: "pair_device env ip name c1 = (Inr fp, c')"
    and rl: "read_loop (he_de env) (stream c) =
      Hello name PROTOCOL_VERSION caps # read_loop (he_de env) (stream c1)"
    using handshake_Inr [OF assms(1)] .
  obtain nonce pf rest where rl1: "read_loop (he_de env) (stream c1) = PairRequest nonce fp pf # rest"
    and ok: "\<not> is_rate_limited (he_now env) (rate_limiter (srv c)) ip"
      "is_paired (config (srv c)) fp \<or> proof_matches (pairing_proof (he_sha env) (pin (srv c)) nonce fp) pf"
    using pair_device_Inr [OF p] s by auto
  have "\<exists>bs. he_de env bs = Some (PairRequest nonce fp pf)"
    using read_loop_decoded [of "PairRequest nonce fp pf" "he_de env" "stream c1"] rl1 by simp
  then have "length pf = 32" using assms(3) by blast
  then have "proof_matches (pairing_proof (he_sha env) (pin (srv c)) nonce fp) pf \<longleftrightarrow>
      pf = pairing_proof (he_sha env) (pin (srv c)) nonce fp"
    using assms(2) by (subst proof_matches_iff) (auto simp: pairing_proof_def)
  with rl rl1 ok show ?thesis by auto
qed

theorem handshake_only_paired_witness:
  "\<exists>caps nonce pf rest.
     read_loop (ex_de ''1234'') ex_wire = Hello ''pc'' PROTOCOL_VERSION caps # PairRequest nonce ''AA'' pf # rest \<and>
     pf = pairing_proof pad32 ''1234'' nonce ''AA''"
proof -
  obtain c where c: "handshake (ex_env ''1234'') ex_ip \<lparr>srv = ex_server, stream = ex_wire, stalls = True\<rparr> =
     (Inr (''pc'', ''AA''), c)"
    using ex_handshake_ok [of None True] by (auto simp: ex_server_def)
  have de: "he_de (ex_env ''1234'') bs = Some (PairRequest nonce fp pf) \<Longrightarrow> length pf = 32" for bs nonce fp pf
    by (auto simp: ex_de_def pairing_proof_def split: if_splits)
  show ?thesis
    using handshake_only_paired [OF c _ de]
    by (auto simp: ex_server_def is_paired_def server_config_default_def)
qed

text \<open>
  A bad proof costs an attempt. When the handshake changes the limiter, it fails, it
  recorded exactly one failure for the peer's own address, and no device was added; when it
  adds a device, the limiter is as before.
\<close>

theorem handshake_failure_recorded:
  assumes "handshake env ip c = (r, c')"
  shows "rate_limiter (srv c') = rate_limiter (srv c) \<or>
    (\<exists>e. r = Inl e) \<and> config (srv c') = config (srv c) \<and>
    rate_limiter (srv c') = record_pairing_failure (he_now env) (rate_limiter (srv c)) ip"
  using handshake_srv [OF assms]
  by (auto elim!: pair_device_cases simp: accept_new_device_def Let_def)

theorem handshake_failure_recorded_witness:
  "rate_limiter (srv (snd (handshake (ex_env ''0000'') ex_ip
     \<lparr>srv = ex_server, stream = ex_wire, stalls = True\<rparr>))) = record_pairing_failure 5 Map.empty ex_ip"
proof -
  let ?c = "\<lparr>srv = ex_server, stream = ex_wire, stalls = True\<rparr>"
  let ?h = "handshake (ex_env ''0000'') ex_ip ?c"
  have "rate_limiter (srv (snd ?h)) \<noteq> Map.empty"
    by (simp add: handshake_def read_hello_def pair_device_def timed_read_def bindM_def seqM_def getM_def
      ret_def bail_def modifyM_def ex_send ex_wire_def ex_read1 ex_read2 ex_server_def is_rate_limited_def
      is_paired_def server_config_default_def ex_pins_differ record_pairing_failure_def)
  then show ?thesis
    using handshake_failure_recorded [of "ex_env ''0000''" ex_ip ?c "fst ?h" "snd ?h"]
    by (simp add: ex_server_def)
qed

section \<open>The server as a whole\<close>

datatype conn_phase =
    Unused
  | Pending
  | Active string string millis
  | Rejected
  | Gone string

record world =
  sst :: server_state
  phase :: "u64 \<Rightarrow> conn_phase"
  permits_used :: nat
  capture :: capture_state
  capture_q :: "capture_event list"
  watcher :: "string \<times> string option"

text \<open>
  The start: \<open>opened\<close> is \<open>None\<close> when the local clipboard cannot be opened, and else what is on it.
\<close>

definition world_init :: "server_config \<Rightarrow> file_state \<Rightarrow> u16 \<Rightarrow> string \<Rightarrow> string option option \<Rightarrow> world" where
  "world_init cfg file port p opened =
     \<lparr>sst = \<lparr>config = cfg, config_file = file, forwarding_enabled = False, registry = [],
              outbox = (\<lambda>_. []), file_port = port, pin = p, rate_limiter = Map.empty,
              clipboard_tx = (if clipboard_sync cfg \<and> opened \<noteq> None then Some [] else None)\<rparr>,
      phase = (\<lambda>_. Unused), permits_used = 0,
      capture = capture_start False
        (case parse_hotkey (toggle_forward (hotkey_cfg cfg)) of Inr hk \<Rightarrow> Some hk | Inl _ \<Rightarrow> None),
      capture_q = [],
      watcher = (case opened of Some (Some t) \<Rightarrow> (t, Some t) | _ \<Rightarrow> ([], None))\<rparr>"

text \<open>The end of a connection's loop: \<open>disconnect_client\<close>, and the permit is long returned.\<close>

definition close_client :: "u64 \<Rightarrow> string \<Rightarrow> server_state \<Rightarrow> world \<Rightarrow> world" where
  "close_client cid fp s w = w\<lparr>sst := disconnect_client cid s, phase := (phase w)(cid := Gone fp)\<rparr>"

inductive server_step :: "world \<Rightarrow> world \<Rightarrow> bool" where
  accept:
    "phase w cid = Unused \<Longrightarrow> permits_used w < MAX_PENDING_CONNECTIONS \<Longrightarrow>
     server_step w (w\<lparr>phase := (phase w)(cid := Pending), permits_used := permits_used w + 1\<rparr>)"
| tls_failed:
    "phase w cid = Pending \<Longrightarrow>
     server_step w (w\<lparr>phase := (phase w)(cid := Rejected), permits_used := permits_used w - 1\<rparr>)"
| handshake_ok:
    "phase w cid = Pending \<Longrightarrow>
     handshake env ip \<lparr>srv = sst w, stream = str, stalls = b\<rparr> = (Inr (name, fp), c) \<Longrightarrow>
     server_step w (w\<lparr>sst := register_client cid (srv c),
       phase := (phase w)(cid := Active name fp now), permits_used := permits_used w - 1\<rparr>)"
| handshake_failed:
    "phase w cid = Pending \<Longrightarrow>
     handshake env ip \<lparr>srv = sst w, stream = str, stalls = b\<rparr> = (Inl e, c) \<Longrightarrow>
     server_step w (w\<lparr>sst := srv c, phase := (phase w)(cid := Rejected), permits_used := permits_used w - 1\<rparr>)"
| message:
    "phase w cid = Active name fp seen \<Longrightarrow> client_message cid e (sst w) = (True, s) \<Longrightarrow>
     server_step w (w\<lparr>sst := s, phase := (phase w)(cid := Active name fp now)\<rparr>)"
| goodbye:
    "phase w cid = Active name fp seen \<Longrightarrow> client_message cid e (sst w) = (False, s) \<Longrightarrow>
     server_step w (close_client cid fp s w)"
| closed:
    "phase w cid = Active name fp seen \<Longrightarrow> server_step w (close_client cid fp (sst w) w)"
| watchdog:
    "phase w cid = Active name fp seen \<Longrightarrow> watchdog_expired now seen \<Longrightarrow>
     server_step w (close_client cid fp (sst w) w)"
| ping:
    "phase w cid = Active name fp seen \<Longrightarrow> server_step w (w\<lparr>sst := ping_tick cid ts (sst w)\<rparr>)"
| captured:
    "process_event env ev (set_enabled (forwarding_enabled (sst w)) (capture w)) = (oc, cs) \<Longrightarrow>
     server_step w (w\<lparr>capture := cs, capture_q := capture_q w @ dispatch oc,
       sst := (sst w)\<lparr>forwarding_enabled := is_enabled cs\<rparr>\<rparr>)"
| forwarded:
    "capture_q w = m # ms \<Longrightarrow>
     server_step w (w\<lparr>sst := forward_event m (sst w), capture_q := ms\<rparr>)"
| clipboard_poll:
    "clipboard_tx (sst w) \<noteq> None \<Longrightarrow> clipboard_round set_ok (watcher w) (sst w) = (wb, s) \<Longrightarrow>
     server_step w (w\<lparr>watcher := wb, sst := s\<rparr>)"
| board_changed:
    "server_step w (w\<lparr>watcher := (fst (watcher w), board)\<rparr>)"
| shutdown:
    "server_step w (w\<lparr>sst := broadcast Goodbye (sst w)\<rparr>)"

inductive server_reach :: "world \<Rightarrow> world \<Rightarrow> bool" for w0 where
  reach_refl: "server_reach w0 w0"
| reach_step: "server_reach w0 w \<Longrightarrow> server_step w w' \<Longrightarrow> server_reach w0 w'"

inductive_cases server_stepE: "server_step w w'"

subsection \<open>What each operation leaves alone\<close>

lemma broadcast_simps [simp]:
  "registry (broadcast e s) = registry s" "config (broadcast e s) = config s"
  "forwarding_enabled (broadcast e s) = forwarding_enabled s"
  "clipboard_tx (broadcast e s) = clipboard_tx s"
  "outbox (broadcast e s) cid = (if cid \<in> set (registry s) then outbox s cid @ [e] else outbox s cid)"
  by (simp_all add: broadcast_def)

lemma queue_to_simps [simp]:
  "registry (queue_to c e s) = registry s" "config (queue_to c e s) = config s"
  "forwarding_enabled (queue_to c e s) = forwarding_enabled s"
  "outbox (queue_to c e s) cid = (if cid = c then outbox s cid @ [e] else outbox s cid)"
  by (simp_all add: queue_to_def)

lemma set_forwarding_simps [simp]:
  "registry (set_forwarding b s) = registry s" "config (set_forwarding b s) = config s"
  "forwarding_enabled (set_forwarding b s) = b"
  by (simp_all add: set_forwarding_def Let_def)

lemma client_message_frame:
  "client_message c e s = (b, s') \<Longrightarrow> registry s' = registry s \<and> config s' = config s"
  by (cases e) (auto split: option.splits if_splits)

lemma forward_event_simps [simp]:
  "registry (forward_event m s) = registry s" "config (forward_event m s) = config s"
  "forwarding_enabled (forward_event m s) = forwarding_enabled s"
  by (cases m; simp)+

lemma register_client_simps [simp]:
  "registry (register_client c s) = List.insert c (registry s)"
  "config (register_client c s) = config s"
  by (simp_all add: register_client_def Let_def)

lemma disconnect_client_simps [simp]:
  "registry (disconnect_client c s) = removeAll c (registry s)"
  "config (disconnect_client c s) = config s"
  by (simp_all add: disconnect_client_def Let_def)

lemma clipboard_round_frame:
  "clipboard_round ok wb s = (wb', s') \<Longrightarrow> registry s' = registry s \<and> config s' = config s"
  by (auto simp: clipboard_round_def Let_def split: prod.splits option.splits if_splits)

subsection \<open>Queues\<close>

text \<open>
  What an operation adds to the queue of a connection: a single envelope that does not turn
  forwarding off, or the release of all keys followed by a toggle.
\<close>

definition safe_queue :: "envelope list \<Rightarrow> bool" where
  "safe_queue q \<longleftrightarrow>
     (\<forall>i < length q. q ! i = ToggleForward False \<longrightarrow> 0 < i \<and> q ! (i - 1) = Input ReleaseAll)"

lemma safe_queue_Nil [simp]: "safe_queue []"
  by (simp add: safe_queue_def)

lemma safe_queue_snoc: "safe_queue q \<Longrightarrow> e \<noteq> ToggleForward False \<Longrightarrow> safe_queue (q @ [e])"
  by (auto simp: safe_queue_def nth_append less_Suc_eq)

lemma safe_queue_off: "safe_queue q \<Longrightarrow> safe_queue (q @ [Input ReleaseAll, ToggleForward False])"
  by (auto simp: safe_queue_def nth_append less_Suc_eq nth_Cons split: nat.splits)

definition queues_ok :: "server_state \<Rightarrow> server_state \<Rightarrow> u64 set \<Rightarrow> bool" where
  "queues_ok s s' C \<longleftrightarrow>
     (\<forall>cid. (safe_queue (outbox s cid) \<longrightarrow> safe_queue (outbox s' cid)) \<and>
            (cid \<notin> C \<longrightarrow> outbox s' cid = outbox s cid))"

lemma queues_ok_broadcast:
  "e \<noteq> ToggleForward False \<Longrightarrow> set (registry s) \<subseteq> C \<Longrightarrow> queues_ok s (broadcast e s) C"
  by (auto simp: queues_ok_def safe_queue_snoc)

lemma queues_ok_queue_to:
  "e \<noteq> ToggleForward False \<Longrightarrow> c \<in> C \<Longrightarrow> queues_ok s (queue_to c e s) C"
  by (auto simp: queues_ok_def safe_queue_snoc)

lemma queues_ok_same: "outbox s' = outbox s \<Longrightarrow> queues_ok s s' C"
  by (simp add: queues_ok_def)

lemma queues_ok_set_forwarding: "set (registry s) \<subseteq> C \<Longrightarrow> queues_ok s (set_forwarding b s) C"
  by (auto simp: queues_ok_def set_forwarding_def Let_def safe_queue_snoc
      intro: safe_queue_off [of "outbox s _", simplified])

lemma queues_ok_client_message:
  assumes "client_message c e s = (b, s')" and "insert c (set (registry s)) \<subseteq> C"
  shows "queues_ok s s' C"
  using assms
  by (cases e) (auto intro: queues_ok_same queues_ok_set_forwarding queues_ok_queue_to
      split: option.splits if_splits)

lemma queues_ok_forward_event: "set (registry s) \<subseteq> C \<Longrightarrow> queues_ok s (forward_event m s) C"
proof (cases m)
  case (CapInput ev)
  then show "set (registry s) \<subseteq> C \<Longrightarrow> ?thesis" by (simp add: queues_ok_broadcast)
next
  case (ForwardingToggled b)
  then show "set (registry s) \<subseteq> C \<Longrightarrow> ?thesis"
    by (auto simp: queues_ok_def safe_queue_snoc intro: safe_queue_off [of "outbox s _", simplified])
qed

lemma queues_ok_register: "c \<in> C \<Longrightarrow> queues_ok s (register_client c s) C"
  by (auto simp: queues_ok_def register_client_def Let_def safe_queue_snoc)

lemma queues_ok_disconnect: "c \<in> C \<Longrightarrow> queues_ok s (disconnect_client c s) C"
  by (auto simp: queues_ok_def disconnect_client_def Let_def safe_queue_snoc)

lemma queues_ok_clipboard:
  assumes "clipboard_round ok wb s = (wb', s')" and "set (registry s) \<subseteq> C"
  shows "queues_ok s s' C"
  using assms
  by (auto simp: clipboard_round_def Let_def queues_ok_def safe_queue_snoc
      split: prod.splits option.splits if_splits)

subsection \<open>Invariants\<close>

fun phase_fp :: "conn_phase \<Rightarrow> string option" where
  "phase_fp (Active name fp seen) = Some fp"
| "phase_fp (Gone fp) = Some fp"
| "phase_fp _ = None"

fun is_active :: "conn_phase \<Rightarrow> bool" where
  "is_active (Active name fp seen) = True"
| "is_active _ = False"

definition registry_inv :: "world \<Rightarrow> bool" where
  "registry_inv w \<longleftrightarrow>
     distinct (registry (sst w)) \<and> (\<forall>cid. cid \<in> set (registry (sst w)) \<longleftrightarrow> is_active (phase w cid))"

definition permit_inv :: "world \<Rightarrow> bool" where
  "permit_inv w \<longleftrightarrow>
     permits_used w = card {cid. phase w cid = Pending} \<and> permits_used w \<le> MAX_PENDING_CONNECTIONS"

definition paired_inv :: "world \<Rightarrow> bool" where
  "paired_inv w \<longleftrightarrow>
     (\<forall>cid fp. phase_fp (phase w cid) = Some fp \<longrightarrow> is_paired (config (sst w)) fp)"

definition queue_inv :: "world \<Rightarrow> bool" where
  "queue_inv w \<longleftrightarrow>
     (\<forall>cid. safe_queue (outbox (sst w) cid) \<and>
            (phase_fp (phase w cid) = None \<longrightarrow> outbox (sst w) cid = []))"

lemma is_active_phase_fp: "is_active p \<Longrightarrow> phase_fp p \<noteq> None"
  by (cases p) auto

lemma close_client_simps [simp]:
  "sst (close_client c fp s w) = disconnect_client c s"
  "phase (close_client c fp s w) = (phase w)(c := Gone fp)"
  "permits_used (close_client c fp s w) = permits_used w"
  by (simp_all add: close_client_def)

lemma registry_inv_step:
  assumes "server_step w w'" and "registry_inv w"
  shows "registry_inv w'"
  using assms
proof (cases rule: server_step.cases)
  case (accept cid)
  with assms(2) show ?thesis by (auto simp: registry_inv_def)
next
  case (tls_failed cid)
  with assms(2) show ?thesis by (auto simp: registry_inv_def)
next
  case (handshake_ok cid env ip str b name fp c now)
  with assms(2) handshake_frame(1) [OF handshake_ok(3)] show ?thesis by (auto simp: registry_inv_def)
next
  case (handshake_failed cid env ip str b e c)
  with assms(2) handshake_frame(1) [OF handshake_failed(3)] show ?thesis by (auto simp: registry_inv_def)
next
  case (message cid name fp seen e s now)
  with assms(2) client_message_frame [OF message(3)] show ?thesis
    by (auto simp: registry_inv_def)
next
  case (goodbye cid name fp seen e s)
  with assms(2) client_message_frame [OF goodbye(3)] show ?thesis
    by (auto simp: registry_inv_def distinct_removeAll)
next
  case (captured env ev oc cs)
  with assms(2) show ?thesis by (auto simp: registry_inv_def)
next
  case (clipboard_poll ok wb s)
  with assms(2) clipboard_round_frame [OF clipboard_poll(3)] show ?thesis by (auto simp: registry_inv_def)
qed (use assms(2) in \<open>auto simp: registry_inv_def distinct_removeAll ping_tick_def\<close>)

lemma pending_card:
  fixes p :: "u64 \<Rightarrow> conn_phase"
  shows "p cid \<noteq> Pending \<Longrightarrow> card {c. (p(cid := Pending)) c = Pending} = Suc (card {c. p c = Pending})"
    and "p cid = Pending \<Longrightarrow> q \<noteq> Pending \<Longrightarrow>
      card {c. (p(cid := q)) c = Pending} = card {c. p c = Pending} - 1"
    and "p cid \<noteq> Pending \<Longrightarrow> q \<noteq> Pending \<Longrightarrow> {c. (p(cid := q)) c = Pending} = {c. p c = Pending}"
proof -
  have fin: "finite {c. p c = Pending}" by simp
  assume "p cid \<noteq> Pending"
  moreover from this have "{c. (p(cid := Pending)) c = Pending} = insert cid {c. p c = Pending}" by auto
  ultimately show "card {c. (p(cid := Pending)) c = Pending} = Suc (card {c. p c = Pending})"
    using fin by (simp only: card_insert_disjoint mem_Collect_eq not_False_eq_True)
next
  assume "p cid = Pending" "q \<noteq> Pending"
  moreover from this have "{c. (p(cid := q)) c = Pending} = {c. p c = Pending} - {cid}" by auto
  ultimately show "card {c. (p(cid := q)) c = Pending} = card {c. p c = Pending} - 1"
    by (simp only: card_Diff_singleton mem_Collect_eq)
next
  assume "p cid \<noteq> Pending" "q \<noteq> Pending"
  then show "{c. (p(cid := q)) c = Pending} = {c. p c = Pending}" by auto
qed

lemma permit_inv_step:
  assumes "server_step w w'" and "permit_inv w"
  shows "permit_inv w'"
  using assms
  by (cases rule: server_step.cases)
    (auto simp: permit_inv_def pending_card simp del: fun_upd_apply)

lemma paired_inv_step:
  assumes "server_step w w'" and "paired_inv w"
  shows "paired_inv w'"
  using assms
proof (cases rule: server_step.cases)
  case (accept cid)
  with assms(2) show ?thesis by (auto simp: paired_inv_def)
next
  case (tls_failed cid)
  with assms(2) show ?thesis by (auto simp: paired_inv_def)
next
  case (handshake_ok cid env ip str b name fp c now)
  with assms(2) handshake_frame(4) [OF handshake_ok(3)] handshake_paired [OF handshake_ok(3)]
  show ?thesis by (auto simp: paired_inv_def)
next
  case (handshake_failed cid env ip str b e c)
  with assms(2) handshake_frame(4) [OF handshake_failed(3)] show ?thesis by (auto simp: paired_inv_def)
next
  case (message cid name fp seen e s now)
  with assms(2) client_message_frame [OF message(3)] show ?thesis
    by (auto simp: paired_inv_def) (metis phase_fp.simps(1))
next
  case (goodbye cid name fp seen e s)
  with assms(2) client_message_frame [OF goodbye(3)] show ?thesis
    by (auto simp: paired_inv_def) (metis phase_fp.simps(1))
next
  case (closed cid name fp seen)
  with assms(2) show ?thesis by (auto simp: paired_inv_def) (metis phase_fp.simps(1))
next
  case (watchdog cid name fp seen now)
  with assms(2) show ?thesis by (auto simp: paired_inv_def) (metis phase_fp.simps(1))
next
  case (clipboard_poll ok wb s)
  with assms(2) clipboard_round_frame [OF clipboard_poll(3)] show ?thesis by (auto simp: paired_inv_def)
qed (use assms(2) in \<open>auto simp: paired_inv_def ping_tick_def\<close>)

text \<open>An operation that only queues to served connections keeps the queues in order.\<close>

lemma queue_inv_ok:
  assumes "queue_inv w" and "queues_ok (sst w) (sst w') C"
    and "\<And>cid. cid \<in> C \<Longrightarrow> phase_fp (phase w' cid) \<noteq> None"
    and "\<And>cid. phase_fp (phase w' cid) = None \<Longrightarrow> phase_fp (phase w cid) = None"
  shows "queue_inv w'"
  unfolding queue_inv_def
proof (intro allI conjI impI)
  fix cid
  show "safe_queue (outbox (sst w') cid)" using assms(1,2) by (simp add: queue_inv_def queues_ok_def)
  assume none: "phase_fp (phase w' cid) = None"
  with assms(3) have "cid \<notin> C" by blast
  with none assms(1,2,4) show "outbox (sst w') cid = []" by (simp add: queue_inv_def queues_ok_def)
qed

lemma queues_ok_trans: "queues_ok s t C \<Longrightarrow> queues_ok t u C \<Longrightarrow> queues_ok s u C"
  by (auto simp: queues_ok_def)

lemma queue_inv_step:
  assumes step: "server_step w w'" and q: "queue_inv w" and r: "registry_inv w"
  shows "queue_inv w'"
  using step
proof (cases rule: server_step.cases)
  case (accept cid)
  with q show ?thesis by (auto simp: queue_inv_def)
next
  case (tls_failed cid)
  with q show ?thesis by (auto simp: queue_inv_def)
next
  case (handshake_ok cid env ip str b name fp c now)
  note fr = handshake_frame [OF handshake_ok(3), simplified]
  have "queues_ok (sst w) (srv c) {cid}" using fr(2) by (simp add: queues_ok_same)
  moreover have "queues_ok (srv c) (register_client cid (srv c)) {cid}" by (simp add: queues_ok_register)
  ultimately have "queues_ok (sst w) (register_client cid (srv c)) {cid}" by (rule queues_ok_trans)
  with handshake_ok show ?thesis by (intro queue_inv_ok [OF q, of _ "{cid}"]) (auto split: if_splits)
next
  case (handshake_failed cid env ip str b e c)
  with q handshake_frame(2) [OF handshake_failed(3)] show ?thesis by (auto simp: queue_inv_def)
next
  case (message cid name fp seen e s now)
  have "queues_ok (sst w) s (insert cid (set (registry (sst w))))"
    by (rule queues_ok_client_message [OF message(3)]) simp
  with message r show ?thesis
    by (intro queue_inv_ok [OF q, of _ "insert cid (set (registry (sst w)))"])
      (auto simp: registry_inv_def dest: is_active_phase_fp split: if_splits)
next
  case (goodbye cid name fp seen e s)
  have "queues_ok (sst w) (disconnect_client cid s) (insert cid (set (registry (sst w))))"
    by (rule queues_ok_trans [OF queues_ok_client_message [OF goodbye(3)] queues_ok_disconnect])
      simp_all
  with goodbye r show ?thesis
    by (intro queue_inv_ok [OF q, of _ "insert cid (set (registry (sst w)))"])
      (auto simp: registry_inv_def dest: is_active_phase_fp split: if_splits)
next
  case (closed cid name fp seen)
  with q show ?thesis
    by (intro queue_inv_ok [OF q, of _ "{cid}"]) (auto simp: queues_ok_disconnect split: if_splits)
next
  case (watchdog cid name fp seen now)
  with q show ?thesis
    by (intro queue_inv_ok [OF q, of _ "{cid}"]) (auto simp: queues_ok_disconnect split: if_splits)
next
  case (ping cid name fp seen ts)
  with q show ?thesis
    by (intro queue_inv_ok [OF q, of _ "{cid}"]) (auto simp: ping_tick_def queues_ok_queue_to)
next
  case (captured env ev oc cs)
  with q show ?thesis by (auto simp: queue_inv_def)
next
  case (forwarded m ms)
  with r show ?thesis
    by (intro queue_inv_ok [OF q, of _ "set (registry (sst w))"])
      (auto simp: queues_ok_forward_event registry_inv_def dest: is_active_phase_fp)
next
  case (clipboard_poll ok wb s)
  with r queues_ok_clipboard [OF clipboard_poll(3)] show ?thesis
    by (intro queue_inv_ok [OF q, of _ "set (registry (sst w))"])
      (auto simp: registry_inv_def dest: is_active_phase_fp)
next
  case (board_changed board)
  with q show ?thesis by (auto simp: queue_inv_def)
next
  case shutdown
  with r show ?thesis
    by (intro queue_inv_ok [OF q, of _ "set (registry (sst w))"])
      (auto simp: queues_ok_broadcast registry_inv_def dest: is_active_phase_fp)
qed

lemma world_init_invs:
  "registry_inv (world_init cfg file port p board)" "permit_inv (world_init cfg file port p board)"
  "paired_inv (world_init cfg file port p board)" "queue_inv (world_init cfg file port p board)"
  by (simp_all add: world_init_def registry_inv_def permit_inv_def paired_inv_def queue_inv_def)

lemma server_reach_invs:
  assumes "server_reach (world_init cfg file port p board) w"
  shows "registry_inv w \<and> permit_inv w \<and> paired_inv w \<and> queue_inv w"
  using assms
  by (induction rule: server_reach.induct)
    (auto simp: world_init_invs intro: registry_inv_step permit_inv_step paired_inv_step queue_inv_step)

section \<open>A concrete run\<close>

definition ex_world :: world where
  "ex_world = world_init (server_config_default None None None) Missing DEFAULT_FILE_PORT ''1234'' (Some None)"

lemma ex_connected:
  "\<exists>w. server_reach ex_world w \<and> phase w 1 = Active ''pc'' ''AA'' 0 \<and> registry (sst w) = [1] \<and>
     outbox (sst w) 1 = [] \<and> \<not> forwarding_enabled (sst w)"
proof -
  let ?w1 = "ex_world\<lparr>phase := (phase ex_world)(1 := Pending), permits_used := permits_used ex_world + 1\<rparr>"
  have s1: "server_step ex_world ?w1"
    by (rule server_step.accept) (simp_all add: ex_world_def world_init_def MAX_PENDING_CONNECTIONS_def)
  have sst: "sst ?w1 = ex_server\<lparr>clipboard_tx := Some []\<rparr>"
    by (simp add: ex_world_def world_init_def ex_server_def server_config_default_def)
  obtain c where c: "handshake (ex_env ''1234'') ex_ip \<lparr>srv = sst ?w1, stream = ex_wire, stalls = True\<rparr> =
     (Inr (''pc'', ''AA''), c)" and fr: "registry (srv c) = []" "outbox (srv c) = (\<lambda>_. [])"
     "\<not> auto_forward (config (srv c))" "\<not> forwarding_enabled (srv c)"
    using ex_handshake_ok [of "Some []" True] unfolding sst by auto
  let ?w2 = "?w1\<lparr>sst := register_client 1 (srv c), phase := (phase ?w1)(1 := Active ''pc'' ''AA'' 0),
    permits_used := permits_used ?w1 - 1\<rparr>"
  have "server_step ?w1 ?w2" by (rule server_step.handshake_ok [OF _ c]) simp
  with s1 have "server_reach ex_world ?w2" by (meson server_reach.intros)
  with fr show ?thesis
    by (intro exI [of _ ?w2]) (simp add: register_client_def Let_def)
qed

lemma ex_toggled:
  "\<exists>w. server_reach ex_world w \<and> outbox (sst w) 1 = [ToggleForward True, Input ReleaseAll, ToggleForward False]"
proof -
  obtain w where w: "server_reach ex_world w" "phase w 1 = Active ''pc'' ''AA'' 0" "registry (sst w) = [1]"
    "outbox (sst w) 1 = []" "\<not> forwarding_enabled (sst w)"
    using ex_connected by blast
  let ?w1 = "w\<lparr>sst := set_forwarding True (sst w), phase := (phase w)(1 := Active ''pc'' ''AA'' 0)\<rparr>"
  let ?w2 = "?w1\<lparr>sst := set_forwarding False (sst ?w1), phase := (phase ?w1)(1 := Active ''pc'' ''AA'' 0)\<rparr>"
  have "server_step w ?w1"
    by (rule server_step.message [OF w(2), of "ToggleForward True"]) simp
  moreover have "server_step ?w1 ?w2"
    by (rule server_step.message [of _ _ "''pc''" "''AA''" 0 "ToggleForward False"]) simp_all
  ultimately have "server_reach ex_world ?w2" using w(1) by (meson server_reach.intros)
  with w show ?thesis by (intro exI [of _ ?w2]) (simp add: set_forwarding_def Let_def)
qed

section \<open>Properties of the server\<close>

text \<open>
  Only paired connections are served. Whatever happens on the server, an envelope (input,
  clipboard text or anything else) is queued only for a connection that passed the handshake,
  and the fingerprint it passed with is paired.
\<close>

theorem only_paired_receive:
  assumes "server_reach (world_init cfg file port p board) w"
    and "outbox (sst w) cid \<noteq> []"
  shows "\<exists>fp. phase_fp (phase w cid) = Some fp \<and> is_paired (config (sst w)) fp"
  using server_reach_invs [OF assms(1)] assms(2)
  by (auto simp: queue_inv_def paired_inv_def) (metis not_None_eq)

theorem only_paired_receive_witness:
  "\<exists>w fp. server_reach ex_world w \<and> outbox (sst w) 1 \<noteq> [] \<and> phase_fp (phase w 1) = Some fp \<and>
     is_paired (config (sst w)) fp"
proof -
  obtain w where w: "server_reach ex_world w" "outbox (sst w) 1 \<noteq> []" using ex_toggled by fastforce
  with only_paired_receive [OF w(1) [unfolded ex_world_def] w(2)] show ?thesis by blast
qed

text \<open>
  Unauthenticated connections are bounded. At any time at most 256 connections are between
  accept and pairing, and the semaphore accounts for exactly these.
\<close>

theorem pending_bounded:
  assumes "server_reach (world_init cfg file port p board) w"
  shows "card {cid. phase w cid = Pending} \<le> MAX_PENDING_CONNECTIONS \<and>
    permits_used w = card {cid. phase w cid = Pending}"
  using server_reach_invs [OF assms] by (simp add: permit_inv_def)

theorem pending_bounded_witness:
  "\<exists>w. server_reach ex_world w \<and> registry (sst w) = [1] \<and>
     card {cid. phase w cid = Pending} \<le> MAX_PENDING_CONNECTIONS"
proof -
  obtain w where w: "server_reach ex_world w" "registry (sst w) = [1]" using ex_connected by blast
  with pending_bounded [OF w(1) [unfolded ex_world_def]] show ?thesis by blast
qed

text \<open>
  Keys are released before a client is told that forwarding is off, when a message is handled in one
  step: in the queue of every connection each \<open>ToggleForward(false)\<close> comes right after a \<open>ReleaseAll\<close>,
  whether the hotkey or a client turned forwarding off. (The two broadcasts take the lock of the
  registry separately; under the interleavings of \<open>Tasks\<close> an input may come between them, or a client may
  join. The client releases what it holds on \<open>ToggleForward(false)\<close> as well.)
\<close>

theorem release_before_off:
  assumes "server_reach (world_init cfg file port p board) w"
    and "i < length (outbox (sst w) cid)" and "outbox (sst w) cid ! i = ToggleForward False"
  shows "0 < i \<and> outbox (sst w) cid ! (i - 1) = Input ReleaseAll"
  using server_reach_invs [OF assms(1)] assms(2,3) by (auto simp: queue_inv_def safe_queue_def)

theorem release_before_off_witness:
  "\<exists>w. server_reach ex_world w \<and> outbox (sst w) 1 ! 2 = ToggleForward False \<and>
     outbox (sst w) 1 ! (2 - 1) = Input ReleaseAll"
proof -
  obtain w where w: "server_reach ex_world w"
    and q: "outbox (sst w) 1 = [ToggleForward True, Input ReleaseAll, ToggleForward False]"
    using ex_toggled by blast
  then show ?thesis
    using release_before_off [OF w [unfolded ex_world_def], of 2 1]
    by (intro exI [of _ w]) (simp add: q)
qed

text \<open>
  A key can stay down on the client after forwarding was turned off. A press that the
  callback has put on its channel when a client turns forwarding off reaches that client after
  the \<open>ReleaseAll\<close> and the \<open>ToggleForward(false)\<close>; its release is no longer captured.
\<close>

theorem input_after_release_all:
  assumes "phase w cid = Active name fp seen" and "cid \<in> set (registry (sst w))"
    and "forwarding_enabled (sst w)" and "capture_q w = []" and "hotkey (capture w) = None"
  shows "\<exists>w' mods. server_reach w w' \<and> \<not> forwarding_enabled (sst w') \<and> capture_q w' = [] \<and>
    outbox (sst w') cid = outbox (sst w) cid @
      [Input ReleaseAll, ToggleForward False, Input (KeyPress (key_to_code K_KeyA) mods)]"
proof -
  let ?env = "\<lparr>env_now = 0, env_display = None, env_simulate_ok = True\<rparr>"
  obtain oc cs where p: "process_event ?env (ET_KeyPress K_KeyA)
      (set_enabled (forwarding_enabled (sst w)) (capture w)) = (oc, cs)"
    by (cases "process_event ?env (ET_KeyPress K_KeyA)
      (set_enabled (forwarding_enabled (sst w)) (capture w))")
  then obtain mods where d: "dispatch oc = [CapInput (KeyPress (key_to_code K_KeyA) mods)]"
    and on: "is_enabled cs"
    using assms(3,5)
    by (auto simp: process_key_press_def set_enabled_def dispatch_def is_enabled_def Let_def)
  define w1 where "w1 = w\<lparr>capture := cs, capture_q := capture_q w @ dispatch oc,
    sst := (sst w)\<lparr>forwarding_enabled := is_enabled cs\<rparr>\<rparr>"
  define w2 where "w2 = w1\<lparr>sst := set_forwarding False (sst w1), phase := (phase w1)(cid := Active name fp 0)\<rparr>"
  define w3 where "w3 = w2\<lparr>sst := forward_event (CapInput (KeyPress (key_to_code K_KeyA) mods)) (sst w2),
    capture_q := []\<rparr>"
  have "server_step w w1" unfolding w1_def by (rule server_step.captured [OF p])
  moreover have "server_step w1 w2" unfolding w2_def
    using assms(1) by (intro server_step.message [where e = "ToggleForward False" and seen = seen]) (simp_all add: w1_def)
  moreover have "server_step w2 w3" unfolding w3_def
    using assms(4) d by (intro server_step.forwarded) (simp add: w2_def w1_def)
  ultimately have "server_reach w w3" by (meson server_reach.intros)
  moreover have "outbox (sst w3) cid = outbox (sst w) cid @
      [Input ReleaseAll, ToggleForward False, Input (KeyPress (key_to_code K_KeyA) mods)]"
    using assms(2) on by (simp add: w3_def w2_def w1_def set_forwarding_def Let_def)
  ultimately show ?thesis by (intro exI [of _ w3]) (auto simp: w3_def w2_def)
qed

theorem input_after_release_all_witness:
  "\<exists>w w' mods. phase w 1 = Active ''pc'' ''AA'' 0 \<and> server_reach w w' \<and> \<not> forwarding_enabled (sst w') \<and>
    outbox (sst w') 1 = outbox (sst w) 1 @
      [Input ReleaseAll, ToggleForward False, Input (KeyPress (key_to_code K_KeyA) mods)]"
proof -
  let ?w = "ex_world\<lparr>phase := (\<lambda>_. Active ''pc'' ''AA'' 0),
    sst := ex_server\<lparr>registry := [1], forwarding_enabled := True\<rparr>, capture := capture_start True None\<rparr>"
  have "\<exists>w' mods. server_reach ?w w' \<and> \<not> forwarding_enabled (sst w') \<and> capture_q w' = [] \<and>
    outbox (sst w') 1 = outbox (sst ?w) 1 @
      [Input ReleaseAll, ToggleForward False, Input (KeyPress (key_to_code K_KeyA) mods)]"
    by (rule input_after_release_all) (simp_all add: ex_world_def world_init_def capture_start_def)
  moreover have "phase ?w 1 = Active ''pc'' ''AA'' 0" by simp
  ultimately show ?thesis by blast
qed

lemma apply_clipboard_in_step:
  "\<forall>t. set_ok t \<Longrightarrow> apply_clipboard set_ok q cur (Some cur) = (l, b) \<Longrightarrow> b = Some l"
  by (induction q arbitrary: cur) (auto split: if_splits)

text \<open>
  No clipboard echo. While the watcher's last text is the one on the clipboard and setting
  the clipboard works, applying any texts received from clients sends nothing back.
\<close>

theorem clipboard_no_echo:
  assumes "clipboard_round (\<lambda>_. True) (cur, Some cur) s = (wb, s')"
  shows "outbox s' = outbox s \<and> (\<exists>t. wb = (t, Some t))"
proof -
  let ?q = "case clipboard_tx s of None \<Rightarrow> [] | Some q \<Rightarrow> q"
  obtain l b where a: "apply_clipboard (\<lambda>_. True) ?q cur (Some cur) = (l, b)"
    by (cases "apply_clipboard (\<lambda>_. True) ?q cur (Some cur)")
  with apply_clipboard_in_step [of "\<lambda>_. True"] have "b = Some l" by blast
  with a have a': "apply_clipboard (\<lambda>_. True) ?q cur (Some cur) = (l, Some l)" by simp
  show ?thesis using assms by (auto simp: clipboard_round_def a' Let_def)
qed

theorem clipboard_no_echo_witness:
  "outbox (snd (clipboard_round (\<lambda>_. True) (''a'', Some ''a'')
     (ex_server\<lparr>registry := [1], clipboard_tx := Some [''b'', ''c'']\<rparr>))) 1 = []"
  using clipboard_no_echo [of "''a''" "ex_server\<lparr>registry := [1], clipboard_tx := Some [''b'', ''c'']\<rparr>",
      OF prod.collapse [symmetric]]
  by (simp add: ex_server_def)

text \<open>
  Where setting the clipboard fails, the watcher takes its own old text for new and sends it
  to every client, the one that just sent another text included.
\<close>

theorem clipboard_echo_when_set_fails:
  assumes "clipboard_tx s = Some [text]" and "text \<noteq> old" and "length text \<le> MAX_CLIPBOARD_BYTES"
    and "old \<noteq> []" and "length old \<le> MAX_CLIPBOARD_BYTES" and "cid \<in> set (registry s)"
  shows "outbox (snd (clipboard_round (\<lambda>_. False) (old, Some old) s)) cid =
    outbox s cid @ [ClipboardSet old]"
  using assms by (simp add: clipboard_round_def Let_def)

theorem clipboard_echo_when_set_fails_witness:
  "outbox (snd (clipboard_round (\<lambda>_. False) (''a'', Some ''a'')
     (ex_server\<lparr>registry := [1], clipboard_tx := Some [''b'']\<rparr>))) 1 = [ClipboardSet ''a'']"
  using clipboard_echo_when_set_fails [of "ex_server\<lparr>registry := [1], clipboard_tx := Some [''b'']\<rparr>" "''b''" "''a''" 1]
  by (simp add: MAX_CLIPBOARD_BYTES_def ex_server_def)

end
