(* ===== verification/Socks5.thy ===== *)
theory Socks5
  imports Protocol RateLimit
begin

text \<open>
  \<^verbatim>\<open>server/src/socks5.rs\<close>: the SOCKS5 negotiation and the connection handler. The TCP
  connection is the byte stream of the protocol theory, the limiter that all connections share
  is part of the state. Opening the target and relaying are the operating system's: whether a
  dial succeeds is the argument \<open>connect\<close>, how the relay ended is \<open>relay\<close>; the addresses dialled
  are logged in \<open>dialled\<close>. The clock is read at the limiter check (\<open>t1\<close>) and when a failure is
  recorded (\<open>t2\<close>).
\<close>

section \<open>Configuration and state\<close>

definition SOCKS5_VERSION :: u8 where "SOCKS5_VERSION = 5"
definition AUTH_NO_AUTH :: u8 where "AUTH_NO_AUTH = 0"
definition AUTH_USER_PASS :: u8 where "AUTH_USER_PASS = 2"
definition CMD_CONNECT :: u8 where "CMD_CONNECT = 1"
definition ATYP_IPV4 :: u8 where "ATYP_IPV4 = 1"
definition ATYP_DOMAIN :: u8 where "ATYP_DOMAIN = 3"
definition ATYP_IPV6 :: u8 where "ATYP_IPV6 = 4"

lemmas socks_consts = SOCKS5_VERSION_def AUTH_NO_AUTH_def AUTH_USER_PASS_def CMD_CONNECT_def
  ATYP_IPV4_def ATYP_DOMAIN_def ATYP_IPV6_def

record socks5_config =
  sc_username :: "string option"
  sc_password :: "string option"
  sc_idle_timeout :: millis
  sc_allow_anonymous :: bool

definition socks5_config_default :: socks5_config where
  "socks5_config_default =
     \<lparr>sc_username = None, sc_password = None, sc_idle_timeout = 300000, sc_allow_anonymous = False\<rparr>"

datatype socks_error =
    SocksIo protocol_error
  | UnsupportedSocksVersion u8
  | SocksRateLimited
  | NoCredentialsConfigured
  | ClientLacksUserPass
  | UnsupportedAuthVersion u8
  | AuthenticationFailed
  | ClientLacksNoAuth
  | UnsupportedCommandOrVersion
  | UnsupportedAddressType u8
  | InvalidUtf8
  | ConnectFailed
  | RelayFailed

record socks_state =
  stream :: wire
  limiter :: limiter
  dialled :: "string list"

definition constant_time_eq :: "bytes \<Rightarrow> bytes \<Rightarrow> bool" where
  "constant_time_eq a b = (if length a \<noteq> length b then False else xor_diff 0 (zip a b) = 0)"

lemma constant_time_eq_iff: "constant_time_eq a b \<longleftrightarrow> a = b"
  by (auto simp: constant_time_eq_def xor_diff_eq_iff)

section \<open>Addresses as text\<close>

definition show_u8 :: "u8 \<Rightarrow> string" where
  "show_u8 b = show_nat (unat b)"

fun intercalate :: "string \<Rightarrow> string list \<Rightarrow> string" where
  "intercalate sep [] = []"
| "intercalate sep [x] = x"
| "intercalate sep (x # y # zs) = x @ sep @ intercalate sep (y # zs)"

definition show_ipv4 :: "bytes \<Rightarrow> string" where
  "show_ipv4 bs = intercalate ''.'' (map show_u8 bs)"

definition hex_digit :: "nat \<Rightarrow> char" where
  "hex_digit n = (if n < 10 then char_of (48 + n) else char_of (87 + n))"

fun show_hex :: "nat \<Rightarrow> string" where
  "show_hex n = (if n < 16 then [hex_digit n] else show_hex (n div 16) @ [hex_digit (n mod 16)])"

declare show_hex.simps [simp del]

fun segments :: "bytes \<Rightarrow> nat list" where
  "segments (a # b # bs) = (unat a * 256 + unat b) # segments bs"
| "segments _ = []"

text \<open>The first longest run of zero segments, as start and length.\<close>

fun zero_span :: "nat \<Rightarrow> nat \<times> nat \<Rightarrow> nat \<times> nat \<Rightarrow> nat list \<Rightarrow> nat \<times> nat" where
  "zero_span i cur longest [] = longest"
| "zero_span i cur longest (s # ss) =
     (if s = 0 then
        (let cur' = (if snd cur = 0 then (i, 1) else (fst cur, snd cur + 1))
         in zero_span (Suc i) cur' (if snd cur' > snd longest then cur' else longest) ss)
      else zero_span (Suc i) (0, 0) longest ss)"

definition show_ipv6 :: "bytes \<Rightarrow> string" where
  "show_ipv6 bs =
     (let segs = segments bs; (start, len) = zero_span 0 (0, 0) (0, 0) segs;
          fmt = (\<lambda>ss. intercalate '':'' (map show_hex ss))
      in if take 6 segs = [0, 0, 0, 0, 0, 65535] then ''::ffff:'' @ show_ipv4 (drop 12 bs)
         else if len > 1 then fmt (take start segs) @ ''::'' @ fmt (drop (start + len) segs)
         else fmt segs)"

definition is_cont :: "u8 \<Rightarrow> bool" where
  "is_cont b \<longleftrightarrow> 0x80 \<le> b \<and> b \<le> 0xBF"

text \<open>\<open>String::from_utf8\<close> succeeds on well-formed UTF-8 only.\<close>

fun valid_utf8 :: "bytes \<Rightarrow> bool" where
  "valid_utf8 [] = True"
| "valid_utf8 (a # r) =
     (if a < 0x80 then valid_utf8 r
      else (case r of
        [] \<Rightarrow> False
      | b # r1 \<Rightarrow>
          if 0xC2 \<le> a \<and> a \<le> 0xDF then is_cont b \<and> valid_utf8 r1
          else (case r1 of
            [] \<Rightarrow> False
          | c # r2 \<Rightarrow>
              if 0xE0 \<le> a \<and> a \<le> 0xEF then
                is_cont b \<and> is_cont c \<and> (a = 0xE0 \<longrightarrow> 0xA0 \<le> b) \<and> (a = 0xED \<longrightarrow> b \<le> 0x9F) \<and>
                valid_utf8 r2
              else (case r2 of
                [] \<Rightarrow> False
              | d # r3 \<Rightarrow>
                  0xF0 \<le> a \<and> a \<le> 0xF4 \<and> is_cont b \<and> is_cont c \<and> is_cont d \<and>
                  (a = 0xF0 \<longrightarrow> 0x90 \<le> b) \<and> (a = 0xF4 \<longrightarrow> b \<le> 0x8F) \<and> valid_utf8 r3))))"

section \<open>Negotiation\<close>

definition s_read :: "nat \<Rightarrow> (socks_state, socks_error, bytes) io" where
  "s_read n = (\<lambda>s. case read_exact n (stream s) of
      (Inl e, w) \<Rightarrow> (Inl (SocksIo e), s\<lparr>stream := w\<rparr>)
    | (Inr bs, w) \<Rightarrow> (Inr bs, s\<lparr>stream := w\<rparr>))"

definition s_write :: "bytes \<Rightarrow> (socks_state, socks_error, unit) io" where
  "s_write bs = (\<lambda>s. case write_all bs (stream s) of
      (Inl e, w) \<Rightarrow> (Inl (SocksIo e), s\<lparr>stream := w\<rparr>)
    | (Inr _, w) \<Rightarrow> (Inr (), s\<lparr>stream := w\<rparr>))"

definition s_read1 :: "(socks_state, socks_error, u8) io" where
  "s_read1 = bindM (s_read 1) (\<lambda>bs. ret (hd bs))"

text \<open>Username and password, \<^verbatim>\<open>socks5.rs\<close> from the method reply to the verdict.\<close>

definition user_pass_auth ::
    "socks5_config \<Rightarrow> ip_addr \<Rightarrow> millis \<Rightarrow> (socks_state, socks_error, unit) io" where
  "user_pass_auth cfg ip t2 =
     bindM s_read1 (\<lambda>auth_ver.
     if auth_ver \<noteq> 1 then seqM (s_write [1, 1]) (bail (UnsupportedAuthVersion auth_ver))
     else
       bindM s_read1 (\<lambda>ulen.
       bindM (s_read (unat ulen)) (\<lambda>uname.
       bindM s_read1 (\<lambda>plen.
       bindM (s_read (unat plen)) (\<lambda>pass.
       let expected_user = (case sc_username cfg of None \<Rightarrow> [] | Some u \<Rightarrow> u);
           expected_pass = (case sc_password cfg of None \<Rightarrow> [] | Some p \<Rightarrow> p);
           user_ok = constant_time_eq uname (as_bytes expected_user);
           pass_ok = constant_time_eq pass (as_bytes expected_pass)
       in if user_ok \<and> pass_ok then s_write [1, 0]
          else
            seqM (modifyM (\<lambda>s. s\<lparr>limiter := record_pairing_failure t2 (limiter s) ip\<rparr>))
              (seqM (s_write [1, 1]) (bail AuthenticationFailed)))))))"

definition negotiate_method ::
    "socks5_config option \<Rightarrow> ip_addr \<Rightarrow> millis \<Rightarrow> millis \<Rightarrow> bytes \<Rightarrow> (socks_state, socks_error, unit) io" where
  "negotiate_method config ip t1 t2 methods =
     (let allow_anonymous = (case config of None \<Rightarrow> True | Some c \<Rightarrow> sc_allow_anonymous c);
          requires_auth = (\<not> allow_anonymous)
      in bindM getM (\<lambda>s.
         if requires_auth \<and> is_rate_limited t1 (limiter s) ip then
           seqM (ignoreM (s_write [SOCKS5_VERSION, 0xFF])) (bail SocksRateLimited)
         else if requires_auth then
           (case config of
              None \<Rightarrow> bail NoCredentialsConfigured
            | Some cfg \<Rightarrow>
                if sc_username cfg = None \<or> sc_password cfg = None then bail NoCredentialsConfigured
                else if AUTH_USER_PASS \<notin> set methods then
                  seqM (s_write [SOCKS5_VERSION, 0xFF]) (bail ClientLacksUserPass)
                else seqM (s_write [SOCKS5_VERSION, AUTH_USER_PASS]) (user_pass_auth cfg ip t2))
         else if AUTH_NO_AUTH \<notin> set methods then
           seqM (s_write [SOCKS5_VERSION, 0xFF]) (bail ClientLacksNoAuth)
         else s_write [SOCKS5_VERSION, AUTH_NO_AUTH]))"

definition read_port :: "(socks_state, socks_error, string) io" where
  "read_port = bindM (s_read 2) (\<lambda>port_buf. ret (show_nat (from_be_bytes port_buf)))"

definition negotiate_request :: "(socks_state, socks_error, string) io" where
  "negotiate_request =
     bindM (s_read 4) (\<lambda>req.
     let ver = req ! 0; cmd = req ! 1; atyp = req ! 3 in
     if ver \<noteq> SOCKS5_VERSION \<or> cmd \<noteq> CMD_CONNECT then
       seqM (s_write [SOCKS5_VERSION, 7, 0, 1, 0, 0, 0, 0, 0, 0]) (bail UnsupportedCommandOrVersion)
     else if atyp = ATYP_IPV4 then
       bindM (s_read 4) (\<lambda>ip_buf. bindM read_port (\<lambda>port. ret (show_ipv4 ip_buf @ '':'' @ port)))
     else if atyp = ATYP_DOMAIN then
       bindM s_read1 (\<lambda>domain_len.
       bindM (s_read (unat domain_len)) (\<lambda>domain_buf.
       bindM read_port (\<lambda>port.
       if valid_utf8 domain_buf then ret (of_bytes domain_buf @ '':'' @ port)
       else bail InvalidUtf8)))
     else if atyp = ATYP_IPV6 then
       bindM (s_read 16) (\<lambda>ip_buf.
       bindM read_port (\<lambda>port. ret (''['' @ show_ipv6 ip_buf @ '']:'' @ port)))
     else
       seqM (s_write [SOCKS5_VERSION, 8, 0, 1, 0, 0, 0, 0, 0, 0]) (bail (UnsupportedAddressType atyp)))"

definition negotiate ::
    "socks5_config option \<Rightarrow> ip_addr \<Rightarrow> millis \<Rightarrow> millis \<Rightarrow> (socks_state, socks_error, string) io" where
  "negotiate config ip t1 t2 =
     bindM (s_read 2) (\<lambda>header.
     if header ! 0 \<noteq> SOCKS5_VERSION then bail (UnsupportedSocksVersion (header ! 0))
     else
       bindM (s_read (unat (header ! 1))) (\<lambda>methods.
       seqM (negotiate_method config ip t1 t2 methods) negotiate_request))"

section \<open>The connection handler\<close>

datatype relay_result = RelayDone | RelayError | RelayTimedOut

definition handle_client ::
    "socks5_config option \<Rightarrow> ip_addr \<Rightarrow> millis \<Rightarrow> millis \<Rightarrow> (string \<Rightarrow> bool) \<Rightarrow> relay_result \<Rightarrow>
     (socks_state, socks_error, unit) io" where
  "handle_client config ip t1 t2 connect relay =
     bindM (negotiate config ip t1 t2) (\<lambda>target_addr.
     seqM (modifyM (\<lambda>s. s\<lparr>dialled := dialled s @ [target_addr]\<rparr>))
       (if connect target_addr then
          seqM (s_write [SOCKS5_VERSION, 0, 0, 1, 0, 0, 0, 0, 0, 0])
            (case relay of
               RelayError \<Rightarrow> bail RelayFailed
             | RelayTimedOut \<Rightarrow> ret ()
             | RelayDone \<Rightarrow> ret ())
        else
          seqM (ignoreM (s_write [SOCKS5_VERSION, 4, 0, 1, 0, 0, 0, 0, 0, 0])) (bail ConnectFailed)))"

section \<open>Reading\<close>

lemma s_read_Inr_iff:
  "s_read n s = (Inr bs, s') \<longleftrightarrow>
     length bs = n \<and> rx (stream s) = bs @ rx (stream s') \<and>
     s' = s\<lparr>stream := (stream s)\<lparr>rx := rx (stream s')\<rparr>\<rparr>"
  by (auto simp: s_read_def read_exact_def split: if_splits)

lemma s_read1_Inr_iff:
  "s_read1 s = (Inr b, s') \<longleftrightarrow>
     rx (stream s) = b # rx (stream s') \<and> s' = s\<lparr>stream := (stream s)\<lparr>rx := rx (stream s')\<rparr>\<rparr>"
  by (auto simp: s_read1_def bindM_Inr_iff s_read_Inr_iff ret_def length_Suc_conv)

lemma s_write_Inr_iff:
  "s_write bs s = (Inr u, s') \<longleftrightarrow> (\<exists>w. write_all bs (stream s) = (Inr (), w) \<and> s' = s\<lparr>stream := w\<rparr>)"
  by (auto simp: s_write_def split: prod.splits sum.splits)

lemma write_all_rx: "rx (snd (write_all bs w)) = rx w"
  by (simp add: write_all_def split: option.split)

lemma snd_s_write: "snd (s_write bs s) = s\<lparr>stream := snd (write_all bs (stream s))\<rparr>"
  by (auto simp: s_write_def split: prod.split sum.split)

lemma s_write_frame:
  "rx (stream (snd (s_write bs s))) = rx (stream s)" "limiter (snd (s_write bs s)) = limiter s"
  "dialled (snd (s_write bs s)) = dialled s"
  by (simp_all add: snd_s_write write_all_rx)

section \<open>What negotiation leaves alone\<close>

text \<open>
  A handler only appends to what it wrote and consumes what it reads; until it dials, the log
  of dialled addresses stays.
\<close>

definition no_dial :: "socks_state \<Rightarrow> socks_state \<Rightarrow> bool" where
  "no_dial s t \<longleftrightarrow>
     dialled t = dialled s \<and> (\<exists>d. tx (stream t) = tx (stream s) @ d) \<and>
     (\<exists>k. rx (stream t) = drop k (rx (stream s)))"

interpretation quiet: state_order no_dial
  by unfold_locales (auto simp: no_dial_def intro: exI [of _ "0 :: nat"])

lemma snd_s_read: "snd (s_read n s) = s\<lparr>stream := snd (read_exact n (stream s))\<rparr>"
  by (auto simp: s_read_def split: prod.split sum.split)

lemma keeps_s_read: "keeps no_dial (s_read n)"
  unfolding keeps_def
proof
  fix s
  show "no_dial s (snd (s_read n s))"
    using read_exact_rx [of n "stream s", OF prod.collapse [symmetric]]
    by (auto simp: no_dial_def snd_s_read)
qed

lemma write_all_tx: "\<exists>d. tx (snd (write_all bs w)) = tx w @ d"
  by (simp add: write_all_def split: option.split)

lemma keeps_s_write: "keeps no_dial (s_write bs)"
  unfolding keeps_def no_dial_def
proof (intro allI conjI)
  show "\<exists>k. rx (stream (snd (s_write bs s))) = drop k (rx (stream s))" for s
    by (rule exI [of _ 0]) (simp add: s_write_frame)
qed (simp_all add: snd_s_write write_all_tx)

lemmas quiet_intros [keeps_intros] =
  quiet.keeps_ret quiet.keeps_bail quiet.keeps_getM quiet.keeps_bindM quiet.keeps_seqM
  quiet.keeps_ignoreM keeps_s_read keeps_s_write

lemma keeps_record_failure [keeps_intros]:
  "keeps no_dial (modifyM (\<lambda>s. s\<lparr>limiter := record_pairing_failure t (limiter s) ip\<rparr>))"
  by (rule quiet.keeps_modifyM) (auto simp: no_dial_def intro: exI [of _ "0 :: nat"])

lemma keeps_s_read1 [keeps_intros]: "keeps no_dial s_read1"
  unfolding s_read1_def by (intro keeps_intros)

lemma keeps_read_port [keeps_intros]: "keeps no_dial read_port"
  unfolding read_port_def by (intro keeps_intros)

lemma keeps_if [keeps_intros]: "keeps R m \<Longrightarrow> keeps R k \<Longrightarrow> keeps R (if b then m else k)"
  by simp

lemma keeps_user_pass_auth [keeps_intros]: "keeps no_dial (user_pass_auth cfg ip t2)"
  unfolding user_pass_auth_def Let_def by (intro keeps_intros)

lemma keeps_negotiate_method [keeps_intros]: "keeps no_dial (negotiate_method config ip t1 t2 ms)"
  unfolding negotiate_method_def Let_def by (cases config) (auto intro!: keeps_intros)

lemma keeps_negotiate_request [keeps_intros]: "keeps no_dial negotiate_request"
  unfolding negotiate_request_def Let_def by (intro keeps_intros)

lemma keeps_negotiate: "keeps no_dial (negotiate config ip t1 t2)"
  unfolding negotiate_def by (intro keeps_intros)

section \<open>Authentication\<close>

text \<open>The bytes of a username/password exchange.\<close>

definition auth_bytes :: "bytes \<Rightarrow> bytes \<Rightarrow> bytes" where
  "auth_bytes u p = [1, word_of_nat (length u)] @ u @ [word_of_nat (length p)] @ p"

lemma user_pass_auth_Inr:
  assumes "user_pass_auth cfg ip t2 s = (Inr x, s')"
    and "sc_username cfg = Some u" and "sc_password cfg = Some p"
  shows "\<exists>rest. rx (stream s) = auth_bytes (as_bytes u) (as_bytes p) @ rest"
  using assms
  by (auto simp: user_pass_auth_def bindM_Inr_iff seqM_Inr_iff s_read1_Inr_iff s_read_Inr_iff
      constant_time_eq_iff Let_def bail_def auth_bytes_def split: if_splits)

lemma negotiate_method_Inr:
  assumes "negotiate_method (Some cfg) ip t1 t2 methods s = (Inr x, s')"
    and "\<not> sc_allow_anonymous cfg"
  shows "\<exists>u p rest. sc_username cfg = Some u \<and> sc_password cfg = Some p \<and>
    AUTH_USER_PASS \<in> set methods \<and> \<not> is_rate_limited t1 (limiter s) ip \<and>
    rx (stream s) = auth_bytes (as_bytes u) (as_bytes p) @ rest"
proof -
  from assms obtain u p s1 where cfg: "sc_username cfg = Some u" "sc_password cfg = Some p"
    and m: "AUTH_USER_PASS \<in> set methods" "\<not> is_rate_limited t1 (limiter s) ip"
    and w: "s_write [SOCKS5_VERSION, AUTH_USER_PASS] s = (Inr (), s1)"
    and a: "user_pass_auth cfg ip t2 s1 = (Inr x, s')"
    by (auto simp: negotiate_method_def bindM_Inr_iff seqM_Inr_iff getM_def bail_def split: if_splits)
  have "rx (stream s1) = rx (stream s)" using s_write_frame(1) w by (metis snd_conv)
  with user_pass_auth_Inr [OF a cfg] cfg m show ?thesis by auto
qed

text \<open>The greeting: version and offered methods.\<close>

definition greeting :: "bytes \<Rightarrow> bytes" where
  "greeting methods = [SOCKS5_VERSION, word_of_nat (length methods)] @ methods"

lemma negotiate_Inr:
  assumes "negotiate config ip t1 t2 s = (Inr target, s')"
  shows "\<exists>methods s1 s2. rx (stream s) = greeting methods @ rx (stream s1) \<and>
    s1 = s\<lparr>stream := (stream s)\<lparr>rx := rx (stream s1)\<rparr>\<rparr> \<and>
    negotiate_method config ip t1 t2 methods s1 = (Inr (), s2) \<and>
    negotiate_request s2 = (Inr target, s')"
proof -
  from assms obtain header sa methods sb s2 where
    h: "s_read 2 s = (Inr header, sa)" "header ! 0 = SOCKS5_VERSION"
    and m: "s_read (unat (header ! 1)) sa = (Inr methods, sb)"
    and n: "negotiate_method config ip t1 t2 methods sb = (Inr (), s2)"
    "negotiate_request s2 = (Inr target, s')"
    by (auto simp: negotiate_def bindM_Inr_iff seqM_Inr_iff bail_def split: if_splits)
  from h obtain b where "header = [SOCKS5_VERSION, b]"
    by (auto simp: s_read_Inr_iff length_Suc_conv numeral_2_eq_2)
  with h m have "rx (stream s) = greeting methods @ rx (stream sb)"
    and "sb = s\<lparr>stream := (stream s)\<lparr>rx := rx (stream sb)\<rparr>\<rparr>"
    by (auto simp: s_read_Inr_iff greeting_def)
  with n show ?thesis by blast
qed

lemma dial_needs_credentials:
  assumes "handle_client (Some cfg) ip t1 t2 connect relay s = (r, s')"
    and "\<not> sc_allow_anonymous cfg" and "dialled s' \<noteq> dialled s"
  shows "\<exists>u p methods rest. sc_username cfg = Some u \<and> sc_password cfg = Some p \<and>
    \<not> is_rate_limited t1 (limiter s) ip \<and> AUTH_USER_PASS \<in> set methods \<and>
    rx (stream s) = greeting methods @ auth_bytes (as_bytes u) (as_bytes p) @ rest"
proof -
  obtain r1 s1 where n: "negotiate (Some cfg) ip t1 t2 s = (r1, s1)"
    by (cases "negotiate (Some cfg) ip t1 t2 s")
  have "dialled s1 = dialled s"
    using keeps_negotiate [of "Some cfg" ip t1 t2] n by (auto simp: keeps_def no_dial_def) (metis snd_conv)
  with n assms(1,3) obtain target where "r1 = Inr target"
    by (cases r1) (auto simp: handle_client_def bindM_def)
  with n have "negotiate (Some cfg) ip t1 t2 s = (Inr target, s1)" by simp
  from negotiate_Inr [OF this] obtain methods sa sb where
    g: "rx (stream s) = greeting methods @ rx (stream sa)"
    and sa: "sa = s\<lparr>stream := (stream s)\<lparr>rx := rx (stream sa)\<rparr>\<rparr>"
    and m: "negotiate_method (Some cfg) ip t1 t2 methods sa = (Inr (), sb)"
    by blast
  from sa have "limiter sa = limiter s" by (metis socks_state.ext_inject socks_state.surjective socks_state.update_convs(1))
  with g negotiate_method_Inr [OF m assms(2)] show ?thesis by auto
qed

text \<open>
  C9: nobody is relayed without the password. Where anonymous access is not allowed, a
  connection makes the server dial an address only if both credentials are configured, the peer
  was not locked out, and the peer sent exactly these credentials after a greeting that offers
  username/password.
\<close>

theorem socks_dials_only_authenticated:
  assumes "handle_client (Some cfg) ip t1 t2 connect relay s = (r, s')"
    and "\<not> sc_allow_anonymous cfg" and "dialled s' \<noteq> dialled s"
  shows "\<exists>u p methods rest. sc_username cfg = Some u \<and> sc_password cfg = Some p \<and>
    \<not> is_rate_limited t1 (limiter s) ip \<and> AUTH_USER_PASS \<in> set methods \<and>
    rx (stream s) = greeting methods @ auth_bytes (as_bytes u) (as_bytes p) @ rest"
  using assms by (rule dial_needs_credentials)

text \<open>A server that is not locked out and has one client in the middle of the exchange.\<close>

definition socks_example_cfg :: socks5_config where
  "socks_example_cfg = socks5_config_default\<lparr>sc_username := Some ''u'', sc_password := Some ''pw''\<rparr>"

definition socks_example :: "bytes \<Rightarrow> socks_state" where
  "socks_example input = \<lparr>stream = \<lparr>rx = input, tx = [], tx_room = None\<rparr>, limiter = Map.empty, dialled = []\<rparr>"

definition socks_request_bytes :: "bytes \<Rightarrow> u8 \<Rightarrow> u8 \<Rightarrow> bytes" where
  "socks_request_bytes domain hi lo =
     [SOCKS5_VERSION, CMD_CONNECT, 0, ATYP_DOMAIN, word_of_nat (length domain)] @ domain @ [hi, lo]"

section \<open>Runs of conforming clients\<close>

lemma s_read_append:
  "rx (stream s) = bs @ rest \<Longrightarrow> length bs = n \<Longrightarrow>
   s_read n s = (Inr bs, s\<lparr>stream := (stream s)\<lparr>rx := rest\<rparr>\<rparr>)"
  by (simp add: s_read_Inr_iff)

lemma s_read1_Cons:
  "rx (stream s) = b # rest \<Longrightarrow> s_read1 s = (Inr b, s\<lparr>stream := (stream s)\<lparr>rx := rest\<rparr>\<rparr>)"
  by (simp add: s_read1_Inr_iff)

lemma s_write_room:
  "tx_room (stream s) = None \<Longrightarrow>
   s_write bs s = (Inr (), s\<lparr>stream := (stream s)\<lparr>tx := tx (stream s) @ bs\<rparr>\<rparr>)"
  by (simp add: s_write_def write_all_def)

lemmas socks_run = bindM_apply seqM_apply ret_apply bail_apply getM_apply modifyM_apply
  s_read_append s_read1_Cons s_write_room

lemma unat_length_u8: "length (xs :: bytes) < 256 \<Longrightarrow> unat (word_of_nat (length xs) :: u8) = length xs"
  by (simp add: unat_of_nat)

lemma user_pass_auth_run:
  assumes "rx (stream s) = auth_bytes u p @ rest" and "length u < 256" and "length p < 256"
    and "tx_room (stream s) = None"
    and "sc_username cfg = Some cu" and "sc_password cfg = Some cp"
  shows "user_pass_auth cfg ip t2 s =
    (if u = as_bytes cu \<and> p = as_bytes cp
     then (Inr (), s\<lparr>stream := (stream s)\<lparr>rx := rest, tx := tx (stream s) @ [1, 0]\<rparr>\<rparr>)
     else (Inl AuthenticationFailed,
           s\<lparr>stream := (stream s)\<lparr>rx := rest, tx := tx (stream s) @ [1, 1]\<rparr>,
             limiter := record_pairing_failure t2 (limiter s) ip\<rparr>))"
  using assms
  by (simp add: user_pass_auth_def auth_bytes_def socks_run unat_length_u8 Let_def
      constant_time_eq_iff)

lemma negotiate_run:
  assumes "rx (stream s) = greeting methods @ auth_bytes u p @ rest"
    and "length methods < 256" "length u < 256" "length p < 256"
    and "tx_room (stream s) = None"
    and "\<not> sc_allow_anonymous cfg" "sc_username cfg = Some cu" "sc_password cfg = Some cp"
    and "AUTH_USER_PASS \<in> set methods" "\<not> is_rate_limited t1 (limiter s) ip"
  shows "negotiate (Some cfg) ip t1 t2 s =
    (if u = as_bytes cu \<and> p = as_bytes cp
     then negotiate_request
       (s\<lparr>stream := (stream s)\<lparr>rx := rest, tx := tx (stream s) @ [SOCKS5_VERSION, AUTH_USER_PASS, 1, 0]\<rparr>\<rparr>)
     else (Inl AuthenticationFailed,
           s\<lparr>stream := (stream s)\<lparr>rx := rest, tx := tx (stream s) @ [SOCKS5_VERSION, AUTH_USER_PASS, 1, 1]\<rparr>,
             limiter := record_pairing_failure t2 (limiter s) ip\<rparr>))"
proof -
  let ?s1 = "s\<lparr>stream := (stream s)\<lparr>rx := methods @ auth_bytes u p @ rest\<rparr>\<rparr>"
  let ?s2 = "s\<lparr>stream := (stream s)\<lparr>rx := auth_bytes u p @ rest\<rparr>\<rparr>"
  have "s_read 2 s = (Inr [SOCKS5_VERSION, word_of_nat (length methods)], ?s1)"
    using assms(1) by (simp add: s_read_append greeting_def)
  moreover have "s_read (length methods) ?s1 = (Inr methods, ?s2)"
    by (simp add: s_read_append)
  ultimately have "negotiate (Some cfg) ip t1 t2 s =
      seqM (negotiate_method (Some cfg) ip t1 t2 methods) negotiate_request ?s2"
    using assms(2) by (simp add: negotiate_def bindM_apply unat_length_u8)
  moreover have "negotiate_method (Some cfg) ip t1 t2 methods ?s2 =
      user_pass_auth cfg ip t2
        (s\<lparr>stream := (stream s)\<lparr>rx := auth_bytes u p @ rest, tx := tx (stream s) @ [SOCKS5_VERSION, AUTH_USER_PASS]\<rparr>\<rparr>)"
    using assms(5-10) by (simp add: negotiate_method_def socks_run Let_def)
  ultimately show ?thesis
    using assms(3-8) by (simp add: seqM_apply user_pass_auth_run [where rest = rest and cu = cu and cp = cp])
qed

text \<open>
  A wrong password always counts. A peer that offers username/password and sends anything but
  the configured pair is refused with \<open>[1, 1]\<close>, nothing is dialled, and the failure is
  recorded against its address.
\<close>

theorem socks_wrong_password_recorded:
  assumes "rx (stream s) = greeting methods @ auth_bytes u p @ rest"
    and "length methods < 256" "length u < 256" "length p < 256"
    and "tx_room (stream s) = None"
    and "\<not> sc_allow_anonymous cfg" "sc_username cfg = Some cu" "sc_password cfg = Some cp"
    and "AUTH_USER_PASS \<in> set methods" "\<not> is_rate_limited t1 (limiter s) ip"
    and "u \<noteq> as_bytes cu \<or> p \<noteq> as_bytes cp"
  shows "handle_client (Some cfg) ip t1 t2 connect relay s =
    (Inl AuthenticationFailed,
     s\<lparr>stream := (stream s)\<lparr>rx := rest, tx := tx (stream s) @ [SOCKS5_VERSION, AUTH_USER_PASS, 1, 1]\<rparr>,
       limiter := record_pairing_failure t2 (limiter s) ip\<rparr>)"
  using negotiate_run [OF assms(1-10)] assms(11) by (auto simp: handle_client_def bindM_apply)

theorem socks_wrong_password_recorded_witness:
  "fst (handle_client (Some socks_example_cfg) (IPv4 [10, 0, 0, 9]) 3 4 (\<lambda>_. True) RelayDone
     (socks_example (greeting [0, 2] @ auth_bytes (as_bytes ''u'') [7] @ [5]))) = Inl AuthenticationFailed"
  by (subst socks_wrong_password_recorded [where methods = "[0, 2]" and u = "as_bytes ''u''"
        and p = "[7]" and rest = "[5]" and cu = "''u''" and cp = "''pw''"])
    (simp_all add: socks_example_def socks_example_cfg_def socks5_config_default_def
      AUTH_USER_PASS_def is_rate_limited_def as_bytes_def)

text \<open>
  The right password gets through. A peer that is not locked out, offers username/password,
  sends the configured pair and asks to connect to a domain name gets exactly that name and
  port dialled, with the replies the protocol prescribes and nothing recorded against it.
\<close>

theorem socks_conforming_client:
  assumes "rx (stream s) = greeting methods @ auth_bytes (as_bytes cu) (as_bytes cp) @
      socks_request_bytes domain hi lo @ rest"
    and "length methods < 256" "length cu < 256" "length cp < 256" "length domain < 256"
    and "tx_room (stream s) = None"
    and "\<not> sc_allow_anonymous cfg" "sc_username cfg = Some cu" "sc_password cfg = Some cp"
    and "AUTH_USER_PASS \<in> set methods" "\<not> is_rate_limited t1 (limiter s) ip" "valid_utf8 domain"
  shows "negotiate (Some cfg) ip t1 t2 s =
    (Inr (of_bytes domain @ '':'' @ show_nat (unat hi * 256 + unat lo)),
     s\<lparr>stream := (stream s)\<lparr>rx := rest, tx := tx (stream s) @ [SOCKS5_VERSION, AUTH_USER_PASS, 1, 0]\<rparr>\<rparr>)"
proof -
  have "negotiate (Some cfg) ip t1 t2 s = negotiate_request
     (s\<lparr>stream := (stream s)\<lparr>rx := socks_request_bytes domain hi lo @ rest,
        tx := tx (stream s) @ [SOCKS5_VERSION, AUTH_USER_PASS, 1, 0]\<rparr>\<rparr>)"
    using negotiate_run [OF assms(1,2) _ _ assms(6-11)] assms(3,4) by simp
  also have "\<dots> = (Inr (of_bytes domain @ '':'' @ show_nat (unat hi * 256 + unat lo)),
     s\<lparr>stream := (stream s)\<lparr>rx := rest, tx := tx (stream s) @ [SOCKS5_VERSION, AUTH_USER_PASS, 1, 0]\<rparr>\<rparr>)"
    using assms(5,12)
    by (simp add: negotiate_request_def socks_request_bytes_def read_port_def bindM_apply ret_apply
        s_read_append [where bs = "[SOCKS5_VERSION, CMD_CONNECT, 0, ATYP_DOMAIN]"]
        s_read_append [where bs = domain] s_read_append [where bs = "[hi, lo]"] s_read1_Cons
        ATYP_DOMAIN_def ATYP_IPV4_def unat_length_u8 from_be_bytes_def Let_def)
  finally show ?thesis .
qed

definition socks_good_input :: bytes where
  "socks_good_input = greeting [0, 2] @ auth_bytes (as_bytes ''u'') (as_bytes ''pw'') @
     socks_request_bytes (as_bytes ''lan'') 1 187 @ []"

lemma socks_good_run:
  "rx (stream (socks_example socks_good_input)) = socks_good_input"
    "\<not> is_rate_limited 3 (limiter (socks_example socks_good_input)) ip"
    "\<not> sc_allow_anonymous socks_example_cfg" "sc_username socks_example_cfg = Some ''u''"
    "sc_password socks_example_cfg = Some ''pw''" "tx_room (stream (socks_example socks_good_input)) = None"
  by (simp_all add: socks_example_def socks_example_cfg_def socks5_config_default_def is_rate_limited_def)

theorem socks_conforming_client_witness:
  "fst (negotiate (Some socks_example_cfg) (IPv4 [10, 0, 0, 9]) 3 4 (socks_example socks_good_input))
    = Inr (''lan:'' @ show_nat 443)"
proof -
  have "valid_utf8 (as_bytes ''lan'')" by code_simp
  then show ?thesis
    using socks_conforming_client [of "socks_example socks_good_input" "[0, 2]" "''u''" "''pw''"
        "as_bytes ''lan''" 1 187 "[]" socks_example_cfg 3 "IPv4 [10, 0, 0, 9]" 4] socks_good_run
    by (simp add: socks_good_input_def AUTH_USER_PASS_def)
qed

lemma socks_good_dials:
  "dialled (snd (handle_client (Some socks_example_cfg) (IPv4 [10, 0, 0, 9]) 3 4 (\<lambda>_. True) RelayDone
     (socks_example socks_good_input))) \<noteq> dialled (socks_example socks_good_input)"
proof -
  let ?s = "socks_example socks_good_input" and ?ip = "IPv4 [10, 0, 0, 9]"
  have n: "negotiate (Some socks_example_cfg) ?ip 3 4 ?s =
      negotiate_request (?s\<lparr>stream := (stream ?s)\<lparr>rx := socks_request_bytes (as_bytes ''lan'') 1 187,
        tx := [SOCKS5_VERSION, AUTH_USER_PASS, 1, 0]\<rparr>\<rparr>)"
    using negotiate_run [of ?s "[0, 2]" "as_bytes ''u''" "as_bytes ''pw''"
        "socks_request_bytes (as_bytes ''lan'') 1 187" socks_example_cfg "''u''" "''pw''" 3 ?ip 4]
      socks_good_run
    by (simp add: socks_good_input_def AUTH_USER_PASS_def) (simp add: socks_example_def)
  have "valid_utf8 [108, 97, 110]" by code_simp
  then show ?thesis
    unfolding handle_client_def bindM_apply n
    by (simp add: bindM_apply negotiate_request_def socks_request_bytes_def
        read_port_def seqM_apply modifyM_apply ret_apply s_read_def read_exact_def s_read1_def
        ATYP_DOMAIN_def ATYP_IPV4_def as_bytes_def s_write_room socks_example_def Let_def)
qed

theorem socks_dials_only_authenticated_witness:
  "\<exists>u p methods rest. sc_username socks_example_cfg = Some u \<and> sc_password socks_example_cfg = Some p \<and>
    \<not> is_rate_limited 3 (limiter (socks_example socks_good_input)) (IPv4 [10, 0, 0, 9]) \<and>
    AUTH_USER_PASS \<in> set methods \<and>
    rx (stream (socks_example socks_good_input)) = greeting methods @ auth_bytes (as_bytes u) (as_bytes p) @ rest"
  by (rule socks_dials_only_authenticated [OF prod.collapse [symmetric] socks_good_run(3) socks_good_dials])

end
