(* ===== verification/Startup.thy ===== *)
theory Startup
  imports ServerConfig Socks5 ClientConfig
begin

text \<open>
  \<^verbatim>\<open>server/src/main.rs\<close>: from the command line and the configuration to a running server, and
  \<^verbatim>\<open>server/src/tls.rs\<close>: the server's certificate. Generating a key pair and reading PEM are the
  crates' (\<open>rcgen\<close>, \<open>rustls_pemfile\<close>, \<open>rustls\<close>) and appear as arguments.
\<close>

section \<open>The certificate files\<close>

datatype write_result = Written | NotOpened | Truncated

text \<open>Writing a file: the whole text, nothing at all, or an empty file when the write fails after the open.\<close>

definition write_file :: "write_result \<Rightarrow> string \<Rightarrow> string option \<Rightarrow> bool \<times> string option" where
  "write_file r content old =
     (case r of Written \<Rightarrow> (True, Some content) | NotOpened \<Rightarrow> (False, old) | Truncated \<Rightarrow> (False, Some []))"

record cert_dir =
  server_crt :: "string option"
  server_key :: "string option"

datatype tls_setup_error =
    NoConfigDir
  | CertDirFailed
  | GenerateFailed
  | WriteCertFailed
  | WriteKeyFailed
  | LoadCertsFailed
  | LoadKeyFailed
  | NoPrivateKey
  | BadCertificate

record tls_env =
  tv_config_dir :: bool
  tv_create_ok :: bool
  tv_generated :: "(string \<times> string) option"
  tv_crt_write :: write_result
  tv_key_write :: write_result
  tv_certs :: "string \<Rightarrow> bytes list option"
  tv_keys :: "string \<Rightarrow> bytes list option"
  tv_accepts :: "bytes list \<Rightarrow> bytes \<Rightarrow> bool"
  tv_sha :: "bytes \<Rightarrow> bytes"

definition generate_certificates :: "tls_env \<Rightarrow> cert_dir \<Rightarrow> (tls_setup_error + unit) \<times> cert_dir" where
  "generate_certificates env d =
     (case tv_generated env of
        None \<Rightarrow> (Inl GenerateFailed, d)
      | Some (crt_pem, key_pem) \<Rightarrow>
          (case write_file (tv_crt_write env) crt_pem (server_crt d) of
             (ok, crt) \<Rightarrow>
               let d1 = d\<lparr>server_crt := crt\<rparr> in
               if \<not> ok then (Inl WriteCertFailed, d1)
               else (case write_file (tv_key_write env) key_pem (server_key d1) of
                       (ok, key) \<Rightarrow>
                         let d2 = d1\<lparr>server_key := key\<rparr>
                         in if ok then (Inr (), d2) else (Inl WriteKeyFailed, d2))))"

definition load_certs :: "tls_env \<Rightarrow> cert_dir \<Rightarrow> tls_setup_error + bytes list" where
  "load_certs env d =
     (case server_crt d of
        None \<Rightarrow> Inl LoadCertsFailed
      | Some pem \<Rightarrow> (case tv_certs env pem of None \<Rightarrow> Inl LoadCertsFailed | Some cs \<Rightarrow> Inr cs))"

definition load_private_key :: "tls_env \<Rightarrow> cert_dir \<Rightarrow> tls_setup_error + bytes" where
  "load_private_key env d =
     (case server_key d of
        None \<Rightarrow> Inl LoadKeyFailed
      | Some pem \<Rightarrow>
          (case tv_keys env pem of
             None \<Rightarrow> Inl LoadKeyFailed
           | Some [] \<Rightarrow> Inl NoPrivateKey
           | Some (k # _) \<Rightarrow> Inr k))"

definition setup_tls_server ::
    "tls_env \<Rightarrow> cert_dir \<Rightarrow> (tls_setup_error + bytes list \<times> bytes) \<times> cert_dir" where
  "setup_tls_server env d =
     (if \<not> tv_config_dir env then (Inl NoConfigDir, d)
      else if \<not> tv_create_ok env then (Inl CertDirFailed, d)
      else (case (if server_crt d = None \<or> server_key d = None then generate_certificates env d else (Inr (), d)) of
              (Inl e, d1) \<Rightarrow> (Inl e, d1)
            | (Inr _, d1) \<Rightarrow>
                (case load_certs env d1 of
                   Inl e \<Rightarrow> (Inl e, d1)
                 | Inr certs \<Rightarrow>
                     (case load_private_key env d1 of
                        Inl e \<Rightarrow> (Inl e, d1)
                      | Inr key \<Rightarrow>
                          if tv_accepts env certs key then (Inr (certs, key), d1) else (Inl BadCertificate, d1)))))"

text \<open>\<open>fingerprint_der\<close> of the server is, line by line, the one of the client.\<close>

definition get_certificate_fingerprint :: "tls_env \<Rightarrow> cert_dir \<Rightarrow> tls_setup_error + string" where
  "get_certificate_fingerprint env d =
     (if \<not> tv_config_dir env then Inl NoConfigDir
      else (case load_certs env d of
              Inl e \<Rightarrow> Inl e
            | Inr [] \<Rightarrow> Inl LoadCertsFailed
            | Inr (cert # _) \<Rightarrow> Inr (fingerprint_der (tv_sha env) cert)))"

section \<open>Starting the server\<close>

record server_args =
  arg_port :: u16
  arg_bind :: "string option"
  arg_no_mdns :: bool
  arg_pin :: "string option"
  arg_socks5_port :: "u16 option"
  arg_socks5_user :: "string option"
  arg_socks5_pass :: "string option"
  arg_socks5_allow_anonymous :: bool
  arg_list_paired :: bool
  arg_revoke :: "string option"

text \<open>The proxy's port and settings, or \<open>None\<close> if it is not started.\<close>

definition socks5_start :: "server_args \<Rightarrow> string option \<Rightarrow> server_config \<Rightarrow> (u16 \<times> socks5_config) option" where
  "socks5_start args env_password config =
     (let username = or_else (arg_socks5_user args) (ss_username (socks5 config));
          password = or_else (arg_socks5_pass args) (or_else env_password (ss_password (socks5 config)));
          allow_anonymous = (arg_socks5_allow_anonymous args \<or> ss_allow_anonymous (socks5 config))
      in (case or_else (arg_socks5_port args) (ss_port (socks5 config)) of
            None \<Rightarrow> None
          | Some port \<Rightarrow>
              if \<not> allow_anonymous \<and> (username = None \<or> password = None) then None
              else Some (port, \<lparr>sc_username = username, sc_password = password, sc_idle_timeout = 300000,
                                sc_allow_anonymous = allow_anonymous\<rparr>)))"

record start_env =
  sv_from_toml :: "string \<Rightarrow> server_config option"
  sv_to_toml :: "server_config \<Rightarrow> string option"
  sv_default :: server_config
  sv_dir_ok :: bool
  sv_write_ok :: bool
  sv_env_pin :: "string option"
  sv_env_socks5_password :: "string option"
  sv_random :: nat
  sv_tls :: tls_env
  sv_mdns_ok :: bool

record running_server =
  run_config :: server_config
  run_pin :: string
  run_bind :: string
  run_port :: u16
  run_file_port :: u16
  run_certs :: "bytes list"
  run_forwarding :: bool
  run_socks5 :: "(u16 \<times> socks5_config) option"
  run_mdns :: bool

datatype main_outcome =
    ConfigUnusable config_error
  | ListedDevices "string \<rightharpoonup> paired_device"
  | RevokeFinished bool
  | TlsUnusable tls_setup_error
  | Serving running_server

definition start_server ::
    "start_env \<Rightarrow> server_args \<Rightarrow> server_config \<Rightarrow> file_state \<Rightarrow> cert_dir \<Rightarrow> main_outcome \<times> file_state \<times> cert_dir" where
  "start_server env args config file d =
     (let bind = (case arg_bind args of Some b \<Rightarrow> b | None \<Rightarrow> bind_address config) in
      case setup_tls_server (sv_tls env) d of
        (Inl e, d1) \<Rightarrow> (TlsUnusable e, file, d1)
      | (Inr (certs, key), d1) \<Rightarrow>
          (Serving \<lparr>run_config = config, run_pin = resolve_pin (arg_pin args) (sv_env_pin env) config (sv_random env),
                    run_bind = bind, run_port = arg_port args, run_file_port = file_transfer_port config,
                    run_certs = certs, run_forwarding = False,
                    run_socks5 = socks5_start args (sv_env_socks5_password env) config,
                    run_mdns = (\<not> arg_no_mdns args \<and> sv_mdns_ok env)\<rparr>, file, d1))"

definition server_main ::
    "start_env \<Rightarrow> server_args \<Rightarrow> file_state \<Rightarrow> cert_dir \<Rightarrow> main_outcome \<times> file_state \<times> cert_dir" where
  "server_main env args file d =
     (case load_or_default (sv_from_toml env) (sv_default env) file of
        Inl e \<Rightarrow> (ConfigUnusable e, file, d)
      | Inr config \<Rightarrow>
          (let file1 = (if file = Missing then snd (save_config (sv_to_toml env) (sv_dir_ok env) (sv_write_ok env) config file) else file)
           in if arg_list_paired args then (ListedDevices (paired_devices config), file1, d)
              else (case arg_revoke args of
                      Some fp \<Rightarrow>
                        (case remove_paired_device fp config of
                           (removed, config') \<Rightarrow>
                             (RevokeFinished removed,
                              if removed then snd (save_config (sv_to_toml env) (sv_dir_ok env) (sv_write_ok env) config' file1)
                              else file1, d))
                    | None \<Rightarrow> start_server env args config file1 d)))"

section \<open>Properties\<close>

text \<open>
  Revoking a device. With a TOML library that reads back what it printed and a file system
  that takes the write, \<open>--revoke\<close> removes exactly the named device from the file: what is loaded
  next has every other device and setting, and the server is not started.
\<close>

theorem revoke_spec:
  assumes "load_or_default (sv_from_toml env) (sv_default env) file = Inr config"
    and "config' = config\<lparr>paired_devices := (paired_devices config)(fp := None)\<rparr>"
    and "sv_to_toml env config = Some t" "sv_from_toml env t = Some config"
    and "sv_to_toml env config' = Some t'" "sv_from_toml env t' = Some config'"
    and "sv_dir_ok env" "sv_write_ok env" "arg_revoke args = Some fp" "\<not> arg_list_paired args"
  shows "\<exists>file'. server_main env args file d = (RevokeFinished (is_paired config fp), file', d) \<and>
    load_or_default (sv_from_toml env) (sv_default env) file' = Inr config'"
proof -
  have same: "config\<lparr>paired_devices := (paired_devices config)(fp := None)\<rparr> = config"
    if "paired_devices config fp = None"
    using that by (simp add: fun_upd_idem)
  show ?thesis
    using assms
    by (auto simp: server_main_def remove_paired_device_def save_config_def load_or_default_def is_paired_def
        same Let_def split: option.splits file_state.splits)
qed

definition ex_tls :: tls_env where
  "ex_tls = \<lparr>tv_config_dir = True, tv_create_ok = True, tv_generated = Some (''crt'', ''key''), tv_crt_write = Written,
     tv_key_write = Written, tv_certs = (\<lambda>pem. Some [as_bytes pem]), tv_keys = (\<lambda>pem. Some [as_bytes pem]),
     tv_accepts = (\<lambda>_ _. True), tv_sha = pad32\<rparr>"

definition ex_start :: start_env where
  "ex_start = \<lparr>sv_from_toml = (\<lambda>t. Some (if t = ''1'' then phone_config else server_config_default None None None)),
     sv_to_toml = (\<lambda>c. Some (if is_paired c ''AA'' then ''1'' else ''0'')),
     sv_default = phone_config, sv_dir_ok = True, sv_write_ok = True, sv_env_pin = None,
     sv_env_socks5_password = Some ''pw'', sv_random = 0, sv_tls = ex_tls, sv_mdns_ok = True\<rparr>"

definition ex_args :: server_args where
  "ex_args = \<lparr>arg_port = 4000, arg_bind = None, arg_no_mdns = True, arg_pin = None, arg_socks5_port = Some 1080,
     arg_socks5_user = Some ''u'', arg_socks5_pass = None, arg_socks5_allow_anonymous = False,
     arg_list_paired = False, arg_revoke = None\<rparr>"

lemma phone_revoked:
  "server_config_default None None None =
     phone_config\<lparr>paired_devices := (paired_devices phone_config)(''AA'' := None)\<rparr>"
  by (simp add: phone_config_def add_paired_device_def server_config_default_def)

theorem revoke_spec_witness:
  "\<exists>file'. server_main ex_start (ex_args\<lparr>arg_revoke := Some ''AA''\<rparr>) (Content ''1'') \<lparr>server_crt = None, server_key = None\<rparr> =
       (RevokeFinished (is_paired phone_config ''AA''), file', \<lparr>server_crt = None, server_key = None\<rparr>) \<and>
     load_or_default (sv_from_toml ex_start) (sv_default ex_start) file' = Inr (server_config_default None None None)"
proof -
  have "paired_devices (server_config_default None None None) = Map.empty"
    by (simp add: server_config_default_def)
  then show ?thesis
    by (intro revoke_spec [where t = "''1''" and t' = "''0''", OF _ phone_revoked])
      (simp_all add: ex_start_def ex_args_def load_or_default_def phone_config_def is_paired_def add_paired_device_def)
qed

text \<open>
  The proxy is not an open relay by accident. If neither the command line nor the
  configuration allows anonymous access, the proxy that \<open>main\<close> starts (if it starts one) dials an
  address for a connection only after the peer has sent the user name and the password that were
  configured, and not while the peer is locked out.
\<close>

theorem started_proxy_authenticates:
  assumes "server_main env args file d = (Serving srv, file', d')"
    and "run_socks5 srv = Some (port, cfg)"
    and "\<not> arg_socks5_allow_anonymous args" "\<not> ss_allow_anonymous (socks5 (run_config srv))"
    and "handle_client (Some cfg) ip t1 t2 reachable relay s = (r, s')" "dialled s' \<noteq> dialled s"
  shows "\<exists>u p methods rest.
    or_else (arg_socks5_user args) (ss_username (socks5 (run_config srv))) = Some u \<and>
    or_else (arg_socks5_pass args) (or_else (sv_env_socks5_password env) (ss_password (socks5 (run_config srv)))) = Some p \<and>
    \<not> is_rate_limited t1 (limiter s) ip \<and> AUTH_USER_PASS \<in> set methods \<and>
    rx (stream s) = greeting methods @ auth_bytes (as_bytes u) (as_bytes p) @ rest"
proof -
  have "run_socks5 srv = socks5_start args (sv_env_socks5_password env) (run_config srv)"
    using assms(1) by (auto simp: server_main_def start_server_def Let_def split: sum.splits if_splits option.splits prod.splits)
  with assms(2-4) have cfg: "\<not> sc_allow_anonymous cfg"
    "sc_username cfg = or_else (arg_socks5_user args) (ss_username (socks5 (run_config srv)))"
    "sc_password cfg = or_else (arg_socks5_pass args) (or_else (sv_env_socks5_password env) (ss_password (socks5 (run_config srv))))"
    by (auto simp: socks5_start_def Let_def split: option.splits if_splits)
  from dial_needs_credentials [OF assms(5) cfg(1) assms(6)] show ?thesis unfolding cfg .
qed

lemma default_socks5: "socks5 (server_config_default a b c) = socks5_settings_default"
  by (simp add: server_config_default_def Let_def)

lemma ex_serving:
  "\<exists>srv d'. server_main ex_start ex_args (Content ''0'') \<lparr>server_crt = None, server_key = None\<rparr> = (Serving srv, Content ''0'', d') \<and>
     run_socks5 srv = Some (1080, socks_example_cfg) \<and> run_config srv = server_config_default None None None"
  by (simp add: server_main_def ex_start_def ex_args_def load_or_default_def start_server_def ex_tls_def Let_def
      setup_tls_server_def generate_certificates_def write_file_def load_certs_def load_private_key_def
      socks5_start_def or_else_def socks_example_cfg_def socks5_config_default_def
      default_socks5 socks5_settings_default_def)

theorem started_proxy_authenticates_witness:
  "\<exists>srv d' p methods rest.
     server_main ex_start ex_args (Content ''0'') \<lparr>server_crt = None, server_key = None\<rparr> = (Serving srv, Content ''0'', d') \<and>
     socks_good_input = greeting methods @ auth_bytes (as_bytes ''u'') (as_bytes p) @ rest"
proof -
  obtain srv d' where m: "server_main ex_start ex_args (Content ''0'') \<lparr>server_crt = None, server_key = None\<rparr> = (Serving srv, Content ''0'', d')"
    and s: "run_socks5 srv = Some (1080, socks_example_cfg)" and c: "run_config srv = server_config_default None None None"
    using ex_serving by blast
  have anon: "\<not> arg_socks5_allow_anonymous ex_args" "\<not> ss_allow_anonymous (socks5 (run_config srv))"
    by (simp_all add: c ex_args_def default_socks5 socks5_settings_default_def)
  from started_proxy_authenticates [OF m s anon prod.collapse [symmetric] socks_good_dials]
  have "\<exists>p methods rest. socks_good_input = greeting methods @ auth_bytes (as_bytes ''u'') (as_bytes p) @ rest"
    by (auto simp: ex_args_def or_else_def socks_good_run(1))
  with m show ?thesis by blast
qed

text \<open>
  The server keeps its certificate. Once a start has set up TLS, every later start that can
  reach the directory presents the same certificate and key, whatever a new key pair would be and
  whether or not files can be written; and the fingerprint the server shows is the one a client
  computes from the presented certificate.
\<close>

theorem certificate_stable:
  assumes "setup_tls_server env d = (Inr (certs, key), d')"
    and "tv_config_dir env'" "tv_create_ok env'"
    and "tv_certs env' = tv_certs env" "tv_keys env' = tv_keys env" "tv_accepts env' = tv_accepts env"
    and "tv_sha env' = sha"
  shows "setup_tls_server env' d' = (Inr (certs, key), d') \<and>
    (case certs of [] \<Rightarrow> True | cert # _ \<Rightarrow>
       get_certificate_fingerprint env' d' = Inr (fingerprint_der sha cert) \<and>
       observed (snd (verify_server_cert sha cert v)) = Some (fingerprint_der sha cert))"
proof -
  have loaded: "load_certs env d' = Inr certs" "load_private_key env d' = Inr key" "tv_accepts env certs key"
    using assms(1) by (auto simp: setup_tls_server_def split: if_splits prod.splits sum.splits)
  then have "server_crt d' \<noteq> None" "server_key d' \<noteq> None"
    by (auto simp: load_certs_def load_private_key_def split: option.splits)
  moreover have "load_certs env' d' = load_certs env d'" "load_private_key env' d' = load_private_key env d'"
    unfolding load_certs_def load_private_key_def assms(4,5) by (rule refl)+
  ultimately show ?thesis
    using loaded assms(2,3,6,7)
    by (auto simp: setup_tls_server_def get_certificate_fingerprint_def verify_server_cert_def Let_def
        split: list.split option.split)
qed

theorem certificate_stable_witness:
  "\<exists>certs key d'. setup_tls_server ex_tls \<lparr>server_crt = None, server_key = None\<rparr> = (Inr (certs, key), d') \<and>
     setup_tls_server (ex_tls\<lparr>tv_generated := None\<rparr>) d' = (Inr (certs, key), d')"
proof -
  obtain certs key d' where s: "setup_tls_server ex_tls \<lparr>server_crt = None, server_key = None\<rparr> = (Inr (certs, key), d')"
    by (simp add: ex_tls_def setup_tls_server_def generate_certificates_def write_file_def load_certs_def
        load_private_key_def Let_def)
  have "setup_tls_server (ex_tls\<lparr>tv_generated := None\<rparr>) d' = (Inr (certs, key), d')"
    using certificate_stable [OF s, of "ex_tls\<lparr>tv_generated := None\<rparr>" pad32] by (simp add: ex_tls_def)
  with s show ?thesis by blast
qed

end
