(* ===== verification/Secrets.thy ===== *)
theory Secrets
  imports Startup
begin

text \<open>
  Who can read the files with secrets: the private key of the server (\<^verbatim>\<open>server/src/tls.rs\<close>), the two
  configuration files (\<open>save\<close> in \<^verbatim>\<open>server/src/config.rs\<close> and \<^verbatim>\<open>client/src/config.rs\<close>) and the audit log
  (\<^verbatim>\<open>server/src/main.rs\<close>). Contents and permission bits are those of a Unix file system; each operation
  gives the list of states that others can observe while it runs.
\<close>

section \<open>Files with permissions\<close>

type_synonym mode = "9 word"

record sfile =
  sf_mode :: mode
  sf_content :: string

type_synonym sfs = "string \<rightharpoonup> sfile"

record unix_env =
  ue_umask :: mode
  ue_write :: "string \<Rightarrow> write_result"
  ue_chmod_ok :: "string \<Rightarrow> bool"

text \<open>Opening for writing: the mode counts for a new file only; an existing one is truncated, or kept to append to.\<close>

definition open_for :: "bool \<Rightarrow> mode \<Rightarrow> unix_env \<Rightarrow> string \<Rightarrow> sfs \<Rightarrow> sfs" where
  "open_for trunc m env path fs =
     (case fs path of
        None \<Rightarrow> fs(path \<mapsto> \<lparr>sf_mode = m AND NOT (ue_umask env), sf_content = []\<rparr>)
      | Some f \<Rightarrow> if trunc then fs(path \<mapsto> f\<lparr>sf_content := []\<rparr>) else fs)"

definition put_content :: "string \<Rightarrow> string \<Rightarrow> sfs \<Rightarrow> sfs" where
  "put_content path content fs = fs(path := map_option (\<lambda>f. f\<lparr>sf_content := content\<rparr>) (fs path))"

definition write_with :: "mode \<Rightarrow> unix_env \<Rightarrow> string \<Rightarrow> string \<Rightarrow> sfs \<Rightarrow> bool \<times> sfs list" where
  "write_with m env path content fs =
     (case ue_write env path of
        NotOpened \<Rightarrow> (False, [fs])
      | Truncated \<Rightarrow> (False, [fs, open_for True m env path fs])
      | Written \<Rightarrow>
          (let fs1 = open_for True m env path fs in (True, [fs, fs1, put_content path content fs1])))"

section \<open>The operations\<close>

definition write_private_key :: "unix_env \<Rightarrow> string \<Rightarrow> string \<Rightarrow> sfs \<Rightarrow> bool \<times> sfs list" where
  "write_private_key env path pem fs = write_with 0x180 env path pem fs"

definition restrict_file_to_owner :: "unix_env \<Rightarrow> string \<Rightarrow> sfs \<Rightarrow> bool \<times> sfs" where
  "restrict_file_to_owner env path fs =
     (case fs path of
        None \<Rightarrow> (False, fs)
      | Some f \<Rightarrow> if ue_chmod_ok env path then (True, fs(path \<mapsto> f\<lparr>sf_mode := 0x180\<rparr>)) else (False, fs))"

text \<open>On Windows it is a call of \<open>icacls\<close>, whose exit status (if it could be started) is an argument.\<close>

datatype acl_error = NoUserName | NotStarted | ExitStatus

definition restrict_windows ::
    "string option \<Rightarrow> (string \<Rightarrow> string list \<Rightarrow> bool option) \<Rightarrow> string \<Rightarrow> acl_error + unit" where
  "restrict_windows username command path =
     (case username of
        None \<Rightarrow> Inl NoUserName
      | Some u \<Rightarrow>
          (case command ''icacls'' [path, ''/inheritance:r'', ''/grant:r'', u @ '':F''] of
             None \<Rightarrow> Inl NotStarted
           | Some success \<Rightarrow> if success then Inr () else Inl ExitStatus))"

definition write_private_key_windows ::
    "write_result \<Rightarrow> string option \<Rightarrow> (string \<Rightarrow> string list \<Rightarrow> bool option) \<Rightarrow> string \<Rightarrow> acl_error option + unit" where
  "write_private_key_windows wr username command path =
     (if wr \<noteq> Written then Inl None
      else (case restrict_windows username command path of Inl e \<Rightarrow> Inl (Some e) | Inr _ \<Rightarrow> Inr ()))"

text \<open>\<open>Config::save\<close> once the text is there: write, then restrict, with a failure to restrict only logged.\<close>

definition save_secret :: "unix_env \<Rightarrow> string \<Rightarrow> string \<Rightarrow> sfs \<Rightarrow> bool \<times> sfs list" where
  "save_secret env path content fs =
     (case write_with 0x1B6 env path content fs of
        (ok, states) \<Rightarrow>
          if ok then (True, states @ [snd (restrict_file_to_owner env path (List.last states))]) else (False, states))"

text \<open>The audit log: opened for appending; \<open>None\<close> when it cannot be opened, and then nothing is logged.\<close>

definition open_audit_log :: "unix_env \<Rightarrow> string option \<Rightarrow> string option \<Rightarrow> sfs \<Rightarrow> string option \<times> sfs list" where
  "open_audit_log env arg configured fs =
     (case (case arg of Some p \<Rightarrow> Some p | None \<Rightarrow> configured) of
        None \<Rightarrow> (None, [fs])
      | Some path \<Rightarrow>
          if ue_write env path \<noteq> Written then (None, [fs])
          else (let fs1 = open_for False 0x1B6 env path fs
                in (Some path, [fs, fs1, snd (restrict_file_to_owner env path fs1)])))"

text \<open>One line of a log: only events with the target \<open>audit\<close> reach the file.\<close>

definition audit_line :: "string option \<Rightarrow> string \<Rightarrow> string \<Rightarrow> sfs \<Rightarrow> sfs" where
  "audit_line log target line fs =
     (case log of
        None \<Rightarrow> fs
      | Some path \<Rightarrow>
          if target = ''audit''
          then fs(path := map_option (\<lambda>f. f\<lparr>sf_content := sf_content f @ line\<rparr>) (fs path)) else fs)"

section \<open>Who can read\<close>

definition others_can_read :: "sfs \<Rightarrow> string \<Rightarrow> bool" where
  "others_can_read fs path \<longleftrightarrow> (case fs path of None \<Rightarrow> False | Some f \<Rightarrow> sf_mode f AND 0x3F \<noteq> 0)"

lemma owner_mode_masked: "((0x180 :: mode) AND u) AND 0x3F = 0"
proof -
  have "((0x180 :: mode) AND u) AND 0x3F = (0x180 AND 0x3F) AND u" by (simp only: ac_simps)
  then show ?thesis by simp
qed

lemma others_put_content [simp]: "others_can_read (put_content path c fs) p \<longleftrightarrow> others_can_read fs p"
  by (auto simp: others_can_read_def put_content_def split: option.splits)

lemma write_with_ok:
  assumes "write_with m env path content fs = (True, states)"
  shows "\<exists>f. List.last states path = Some f \<and> sf_content f = content \<and>
    sf_mode f = (case fs path of None \<Rightarrow> m AND NOT (ue_umask env) | Some old \<Rightarrow> sf_mode old)"
  using assms
  by (auto simp: write_with_def open_for_def put_content_def Let_def split: write_result.splits option.splits)

lemma private_key_states:
  assumes "write_private_key env path pem fs = (ok, states)" and "fs path = None" and "st \<in> set states"
  shows "\<not> others_can_read st path"
  using assms
  by (auto simp: write_private_key_def write_with_def open_for_def others_can_read_def put_content_def
      owner_mode_masked Let_def split: write_result.splits)

lemma save_secret_ok:
  assumes "save_secret env path content fs = (True, states)" and "ue_chmod_ok env path"
  shows "\<exists>f. List.last states path = Some f \<and> sf_content f = content \<and> sf_mode f = 0x180"
proof -
  from assms(1) obtain states0 where w: "write_with 0x1B6 env path content fs = (True, states0)"
    and s: "states = states0 @ [snd (restrict_file_to_owner env path (List.last states0))]"
    by (auto simp: save_secret_def split: prod.splits if_splits)
  from write_with_ok [OF w] assms(2) s show ?thesis by (auto simp: restrict_file_to_owner_def)
qed

section \<open>Properties\<close>

definition ex_unix :: unix_env where
  "ex_unix = \<lparr>ue_umask = 0x12, ue_write = (\<lambda>_. Written), ue_chmod_ok = (\<lambda>_. True)\<rparr>"

text \<open>
  C36: on Unix, the secrets on disk are the owner's. A private key that is written to a new file cannot be read by
  anyone else at any moment, under any umask, and is complete when the write succeeds; a configuration
  that was saved, where its permissions can be set, has its new content and belongs to the owner alone,
  whatever the permissions of the file were.
\<close>

theorem secrets_owner_only:
  "(write_private_key env path pem fs = (ok, states) \<and> fs path = None \<longrightarrow>
      (\<forall>st\<in>set states. \<not> others_can_read st path) \<and>
      (ok \<longrightarrow> map_option sf_content (List.last states path) = Some pem)) \<and>
   (save_secret env path content fs = (True, states) \<and> ue_chmod_ok env path \<longrightarrow>
      \<not> others_can_read (List.last states) path \<and> map_option sf_content (List.last states path) = Some content)"
proof (intro conjI impI, goal_cases)
  case 1
  then show ?case using private_key_states by blast
next
  case 2
  then have "write_with 0x180 env path pem fs = (True, states)" by (simp add: write_private_key_def)
  from write_with_ok [OF this] show ?case by auto
next
  case 3
  then have "save_secret env path content fs = (True, states)" "ue_chmod_ok env path" by simp_all
  from save_secret_ok [OF this] show ?case by (auto simp: others_can_read_def)
next
  case 4
  then have "save_secret env path content fs = (True, states)" "ue_chmod_ok env path" by simp_all
  from save_secret_ok [OF this] show ?case by auto
qed

theorem secrets_owner_only_witness:
  "list_all (\<lambda>st. \<not> others_can_read st ''server.key'') (snd (write_private_key ex_unix ''server.key'' ''pem'' Map.empty)) \<and>
   map_option sf_content (List.last (snd (write_private_key ex_unix ''server.key'' ''pem'' Map.empty)) ''server.key'') = Some ''pem''"
  using secrets_owner_only [of ex_unix "''server.key''" "''pem''" Map.empty "fst (write_private_key ex_unix ''server.key'' ''pem'' Map.empty)"
      "snd (write_private_key ex_unix ''server.key'' ''pem'' Map.empty)"]
  by (simp add: list_all_iff write_private_key_def write_with_def ex_unix_def Let_def)

text \<open>
  A key that replaces another one keeps its permissions. The mode given to \<open>open\<close> is for new files:
  when the certificate is gone but an old key file is there that others can read, as after a restored
  backup, the new private key is written into it and can be read by others.
\<close>

theorem replaced_key_keeps_mode:
  assumes "fs path = Some old" and "sf_mode old AND 0x3F \<noteq> 0" and "write_private_key env path pem fs = (True, states)"
  shows "others_can_read (List.last states) path \<and> map_option sf_content (List.last states path) = Some pem"
  using write_with_ok [OF assms(3) [unfolded write_private_key_def]] assms(1,2) by (auto simp: others_can_read_def)

theorem replaced_key_keeps_mode_witness:
  "others_can_read (List.last (snd (write_private_key ex_unix ''server.key'' ''new''
     [''server.key'' \<mapsto> \<lparr>sf_mode = 0x1A4, sf_content = ''old''\<rparr>]))) ''server.key''"
  by (rule replaced_key_keeps_mode [where pem = "''new''" and env = ex_unix and old = "\<lparr>sf_mode = 0x1A4, sf_content = ''old''\<rparr>", THEN conjunct1])
    (simp_all add: write_private_key_def write_with_def ex_unix_def Let_def)

end
