(* ===== verification/Discovery.thy ===== *)
theory Discovery
  imports Addr Socks5 "HOL-Library.List_Lexorder" "HOL-Library.Char_ord" "HOL-Library.AList" "HOL-Library.Multiset"
begin

text \<open>
  \<^verbatim>\<open>client/src/discovery.rs\<close> and \<^verbatim>\<open>server/src/discovery.rs\<close>: announcing a server and finding servers by
  mDNS. The mDNS daemon (crate \<open>mdns_sd\<close>) is outside: what the client gets is the list of events
  that arrive before the deadline, with the addresses in the order in which its sets yield them.
  The hash map of servers found is a list of entries; the order in which it yields them is the
  argument \<open>order\<close>.
\<close>

section \<open>Announcing\<close>

definition MDNS_SERVICE_TYPE :: string where
  "MDNS_SERVICE_TYPE = ''_kvm-rs._tcp.local.''"

definition show_bool :: "bool \<Rightarrow> string" where
  "show_bool b = (if b then ''true'' else ''false'')"

record announcement =
  an_type :: string
  an_instance :: string
  an_host :: string
  an_port :: u16
  an_properties :: "(string \<times> string) list"

definition mdns_announcement :: "string option \<Rightarrow> u16 \<Rightarrow> string \<Rightarrow> announcement" where
  "mdns_announcement hostname port server_name =
     \<lparr>an_type = MDNS_SERVICE_TYPE, an_instance = server_name @ ''._kvm-rs._tcp.local.'',
      an_host = (case hostname of Some h \<Rightarrow> h | None \<Rightarrow> ''kvm-server''), an_port = port,
      an_properties =
        [(''name'', server_name), (''port'', show_nat (unat port)),
         (''clipboard'', show_bool (clipboard caps_default)),
         (''file_transfer'', show_bool (file_transfer caps_default)),
         (''internet_share'', show_bool (internet_share caps_default))]\<rparr>"

section \<open>Finding\<close>

record resolved =
  rs_fullname :: string
  rs_port :: u16
  rs_hostname :: string
  rs_v4 :: "bytes list"
  rs_any :: "ip_addr list"

datatype mdns_event = ServiceResolved resolved | OtherEvent | ReceiveError

record discovered_server =
  ds_name :: string
  ds_host :: string
  ds_port :: u16
  ds_address :: string

definition show_ip :: "ip_addr \<Rightarrow> string" where
  "show_ip a = (case a of IPv4 bs \<Rightarrow> show_ipv4 bs | IPv6 bs \<Rightarrow> show_ipv6 bs)"

definition trim_end_dots :: "string \<Rightarrow> string" where
  "trim_end_dots s = rev (dropWhile (\<lambda>c. c = CHR ''.'') (rev s))"

definition head_option :: "'a list \<Rightarrow> 'a option" where
  "head_option xs = (case xs of [] \<Rightarrow> None | x # _ \<Rightarrow> Some x)"

definition chosen_address :: "resolved \<Rightarrow> ip_addr option" where
  "chosen_address r =
     (case head_option (rs_v4 r) of Some a \<Rightarrow> Some (IPv4 a) | None \<Rightarrow> head_option (rs_any r))"

definition resolved_server :: "resolved \<Rightarrow> ip_addr \<Rightarrow> discovered_server" where
  "resolved_server r addr =
     (let host = show_ip addr; name = trim_end_dots (rs_hostname r)
      in \<lparr>ds_name = (if name = [] then rs_fullname r else name), ds_host = host, ds_port = rs_port r,
          ds_address = format_host_port host (rs_port r)\<rparr>)"

fun browse :: "mdns_event list \<Rightarrow> (string \<times> discovered_server) list \<Rightarrow> (string \<times> discovered_server) list" where
  "browse [] found = found"
| "browse (ServiceResolved r # evs) found =
     (case chosen_address r of
        None \<Rightarrow> browse evs found
      | Some addr \<Rightarrow> browse evs (AList.update (rs_fullname r) (resolved_server r addr) found))"
| "browse (_ # evs) found = browse evs found"

definition discover_servers ::
    "(discovered_server list \<Rightarrow> discovered_server list) \<Rightarrow> mdns_event list \<Rightarrow> discovered_server list" where
  "discover_servers order events = sort_key ds_name (order (map snd (browse events [])))"

section \<open>Addresses as text\<close>

lemma set_intercalate: "set (intercalate sep xs) \<subseteq> set sep \<union> (\<Union>x \<in> set xs. set x)"
  by (induction sep xs rule: intercalate.induct) auto

lemma intercalate_not_Nil: "xs \<noteq> [] \<Longrightarrow> hd xs \<noteq> [] \<Longrightarrow> intercalate sep xs \<noteq> []"
  by (cases "(sep, xs)" rule: intercalate.cases) auto

definition plain_char :: "char \<Rightarrow> bool" where
  "plain_char c \<longleftrightarrow> visible c \<and> c \<noteq> CHR ''['' \<and> c \<noteq> CHR '']''"

lemma plain_digit: "is_ascii_digit c \<Longrightarrow> plain_char c"
  by (auto simp: plain_char_def is_ascii_digit_def visible_def)

lemma plain_hex_digit: "n < 16 \<Longrightarrow> plain_char (hex_digit n)"
proof -
  assume "n < 16"
  then have "(of_char (hex_digit n) :: nat) = (if n < 10 then 48 + n else 87 + n)"
    by (simp add: hex_digit_def of_char_of)
  with \<open>n < 16\<close> show ?thesis by (auto simp: plain_char_def visible_def split: if_splits)
qed

lemma plain_show_hex: "c \<in> set (show_hex n) \<Longrightarrow> plain_char c"
proof (induction n rule: show_hex.induct)
  case (1 n)
  then show ?case by (subst (asm) (2) show_hex.simps) (auto simp: plain_hex_digit split: if_splits)
qed

lemma show_hex_not_Nil: "show_hex n \<noteq> []"
  by (subst show_hex.simps) simp

lemma plain_punctuation: "plain_char (CHR '':'')" "plain_char (CHR ''f'')" "plain_char (CHR ''.'')"
  by (simp_all add: plain_char_def visible_def)

lemma plain_intercalate:
  assumes "c \<in> set (intercalate sep xs)" and "list_all plain_char sep" and "\<And>x. x \<in> set xs \<Longrightarrow> list_all plain_char x"
  shows "plain_char c"
  using set_intercalate [of sep xs] assms unfolding list_all_iff by blast

lemma plain_show_ipv4: "c \<in> set (show_ipv4 bs) \<Longrightarrow> plain_char c"
  unfolding show_ipv4_def
  by (erule plain_intercalate)
    (auto simp: show_u8_def list_all_iff plain_punctuation intro: plain_digit show_nat_digits)

lemma plain_fmt: "c \<in> set (intercalate '':'' (map show_hex ss)) \<Longrightarrow> plain_char c"
  by (erule plain_intercalate) (auto simp: list_all_iff plain_punctuation intro: plain_show_hex)

lemma plain_show_ipv6: "c \<in> set (show_ipv6 bs) \<Longrightarrow> plain_char c"
proof -
  obtain start len where z: "zero_span 0 (0, 0) (0, 0) (segments bs) = (start, len)" by fastforce
  assume "c \<in> set (show_ipv6 bs)"
  then consider "c \<in> set ''::ffff:''" | "c \<in> set (show_ipv4 (drop 12 bs))" | "c = CHR '':''"
    | ss where "c \<in> set (intercalate '':'' (map show_hex ss))"
    unfolding show_ipv6_def Let_def z prod.case
    by (cases "take 6 (segments bs) = [0, 0, 0, 0, 0, 65535]"; cases "1 < len") auto
  then show ?thesis
    by cases (use plain_punctuation plain_show_ipv4 plain_fmt in auto)
qed

definition wf_ip :: "ip_addr \<Rightarrow> bool" where
  "wf_ip a = (case a of IPv4 bs \<Rightarrow> length bs = 4 | IPv6 bs \<Rightarrow> length bs = 16)"

lemma segments_not_Nil: "2 \<le> length bs \<Longrightarrow> segments bs \<noteq> []"
  by (cases bs rule: segments.cases) auto

lemma show_ip_plain:
  assumes "wf_ip a"
  shows "show_ip a \<noteq> []" "list_all plain_char (show_ip a)"
proof -
  show "list_all plain_char (show_ip a)"
    by (cases a) (auto simp: list_all_iff show_ip_def plain_show_ipv4 plain_show_ipv6)
  show "show_ip a \<noteq> []"
  proof (cases a)
    case (IPv4 bs)
    with assms show ?thesis
      using intercalate_not_Nil [of "map show_u8 bs" "''.''"]
      by (cases bs) (auto simp: show_ip_def show_ipv4_def wf_ip_def show_u8_def)
  next
    case (IPv6 bs)
    with assms segments_not_Nil [of bs] have "segments bs \<noteq> []" by (simp add: wf_ip_def)
    then have "intercalate '':'' (map show_hex (segments bs)) \<noteq> []"
      by (intro intercalate_not_Nil) (simp_all add: hd_map show_hex_not_Nil)
    with IPv6 show ?thesis by (auto simp: show_ip_def show_ipv6_def Let_def split: prod.splits)
  qed
qed

section \<open>What is found\<close>

text \<open>An entry of the table comes from a resolved service with an address.\<close>

definition announced :: "mdns_event list \<Rightarrow> string \<times> discovered_server \<Rightarrow> bool" where
  "announced events e \<longleftrightarrow>
     (\<exists>r addr. ServiceResolved r \<in> set events \<and> chosen_address r = Some addr \<and>
        e = (rs_fullname r, resolved_server r addr))"

lemma set_update_subset: "set (AList.update k v al) \<subseteq> insert (k, v) (set al)"
  by (induction al) auto

lemma browse_entries:
  "e \<in> set (browse events found) \<Longrightarrow> e \<in> set found \<or> announced events e"
proof (induction events found rule: browse.induct)
  case (2 r evs found)
  show ?case
  proof (cases "chosen_address r")
    case None
    with 2 show ?thesis by (auto simp: announced_def)
  next
    case (Some addr)
    with 2 have "e \<in> set (AList.update (rs_fullname r) (resolved_server r addr) found) \<or> announced evs e" by simp
    with Some show ?thesis
      using set_update_subset [of "rs_fullname r" "resolved_server r addr" found] by (auto simp: announced_def)
  qed
qed (auto simp: announced_def)

lemma browse_distinct: "distinct (map fst found) \<Longrightarrow> distinct (map fst (browse events found))"
  by (induction events found rule: browse.induct) (auto simp: distinct_update split: option.splits)

definition service_names :: "mdns_event list \<Rightarrow> string set" where
  "service_names events = {rs_fullname r | r addr. ServiceResolved r \<in> set events \<and> chosen_address r = Some addr}"

lemma service_names_simps [simp]:
  "service_names [] = {}"
  "service_names (ServiceResolved r # evs) =
     (if chosen_address r = None then {} else {rs_fullname r}) \<union> service_names evs"
  "service_names (OtherEvent # evs) = service_names evs" "service_names (ReceiveError # evs) = service_names evs"
  by (auto simp: service_names_def)

lemma browse_names: "fst ` set (browse events found) = fst ` set found \<union> service_names events"
proof (induction events found rule: browse.induct)
  case (2 r evs found)
  then show ?case
    by (cases "chosen_address r") (auto simp: dom_update simp del: update_conv)
qed simp_all

lemma browse_length: "length (browse events []) = card (service_names events)"
proof -
  have "length (browse events []) = card (set (map fst (browse events [])))"
    using browse_distinct [of "[]" events] by (metis distinct_card length_map list.map(1) distinct.simps(1))
  with browse_names [of events "[]"] show ?thesis by simp
qed

section \<open>Properties\<close>

text \<open>
  A discovered server can be connected to. Whatever events arrive, every server in the result
  was announced, its address parses back (with any default port) to the announced port and the
  text of the chosen address, IPv6 included, and an IPv4 address is chosen if there is one; the
  result is sorted by name, with one entry per announced service.
\<close>

theorem discovered_servers_connectable:
  assumes "\<And>xs. mset (order xs) = mset xs"
    and "\<And>r a. ServiceResolved r \<in> set events \<Longrightarrow> a \<in> IPv4 ` set (rs_v4 r) \<union> set (rs_any r) \<Longrightarrow> wf_ip a"
    and "s \<in> set (discover_servers order events)"
  shows "sorted (map ds_name (discover_servers order events)) \<and>
    length (discover_servers order events) = card (service_names events) \<and>
    (\<exists>r addr. ServiceResolved r \<in> set events \<and> ds_port s = rs_port r \<and> ds_host s = show_ip addr \<and>
       parse_host_port (ds_address s) default_port = Inr (show_ip addr, rs_port r) \<and>
       (case rs_v4 r of a # _ \<Rightarrow> addr = IPv4 a | [] \<Rightarrow> addr \<in> set (rs_any r)))"
proof -
  have "set (order (map snd (browse events []))) = snd ` set (browse events [])"
    using assms(1) by (metis image_set set_mset_mset)
  with assms(3) obtain e where e: "e \<in> set (browse events [])" "s = snd e"
    by (auto simp: discover_servers_def)
  from browse_entries [OF e(1)] e(2) obtain r addr where r: "ServiceResolved r \<in> set events" "chosen_address r = Some addr"
    and s: "s = resolved_server r addr"
    by (auto simp: announced_def)
  from r(2) have choice: "case rs_v4 r of a # _ \<Rightarrow> addr = IPv4 a | [] \<Rightarrow> addr \<in> set (rs_any r)"
    by (auto simp: chosen_address_def head_option_def split: list.splits option.splits)
  then have "wf_ip addr" using assms(2) [OF r(1), of addr] by (auto split: list.splits)
  note plain = show_ip_plain [OF this]
  then have "plain_char (hd (show_ip addr))" "\<And>c. c \<in> set (show_ip addr) \<Longrightarrow> plain_char c"
    by (auto simp: list_all_iff)
  with plain(1) have "parse_host_port (format_host_port (show_ip addr) (rs_port r)) default_port = Inr (show_ip addr, rs_port r)"
    by (intro parse_format) (auto simp: plain_char_def)
  moreover have "length (discover_servers order events) = card (service_names events)"
    using arg_cong [OF assms(1), of size] by (simp add: discover_servers_def browse_length)
  ultimately show ?thesis using r(1) s choice by (auto simp: discover_servers_def resolved_server_def Let_def)
qed

definition ex_resolved :: resolved where
  "ex_resolved = \<lparr>rs_fullname = ''nas._kvm-rs._tcp.local.'', rs_port = 4000, rs_hostname = ''nas.local.'',
     rs_v4 = [], rs_any = [IPv6 ([254, 128] @ replicate 13 0 @ [1])]\<rparr>"

theorem discovered_servers_connectable_witness:
  "\<exists>s addr. discover_servers (\<lambda>xs. xs) [OtherEvent, ServiceResolved ex_resolved] = [s] \<and>
     parse_host_port (ds_address s) 1 = Inr (show_ip addr, 4000)"
proof -
  let ?addr = "IPv6 ([254, 128] @ replicate 13 0 @ [1])"
  have d: "discover_servers (\<lambda>xs. xs) [OtherEvent, ServiceResolved ex_resolved] = [resolved_server ex_resolved ?addr]"
    by (simp add: discover_servers_def chosen_address_def head_option_def ex_resolved_def)
  have "\<exists>r addr. ServiceResolved r \<in> set [OtherEvent, ServiceResolved ex_resolved] \<and>
      parse_host_port (ds_address (resolved_server ex_resolved ?addr)) 1 = Inr (show_ip addr, rs_port r)"
    using discovered_servers_connectable [of "\<lambda>xs. xs" "[OtherEvent, ServiceResolved ex_resolved]"
        "resolved_server ex_resolved ?addr" 1] d
    by (auto simp: ex_resolved_def wf_ip_def)
  with d show ?thesis by (auto simp: ex_resolved_def)
qed

end
