(* ===== verification/FileTransfer.thy ===== *)
theory FileTransfer
  imports ServerConfig Bincode
begin

text \<open>
  \<^verbatim>\<open>server/src/file_transfer.rs\<close>: receiving a file. The transfer directory is a map from file names
  to contents. What the file system may refuse is in \<open>transfer_env\<close> (\<open>te_quota\<close> is the number of
  bytes the disk still takes); how the stream goes on after the
  bytes in \<open>rx\<close> is \<open>ending\<close>: closed by the peer, broken, or silent. A read without a deadline on
  a silent stream does not return, which is the error \<open>StillWaiting\<close>.
\<close>

section \<open>File names\<close>

text \<open>
  \<open>Path::file_name\<close> on Unix: the last component, where empty components and \<open>.\<close> are skipped; a
  path that ends in \<open>..\<close> has none.
\<close>

definition path_file_name :: "string \<Rightarrow> string option" where
  "path_file_name s =
     (let comps = filter (\<lambda>c. c \<noteq> [] \<and> c \<noteq> ''.'') (split_char (CHR ''/'') s)
      in if comps = [] then None else if last comps = ''..'' then None else Some (last comps))"

text \<open>\<open>char::is_control\<close>: the C0 and C1 control characters, in UTF-8.\<close>

fun has_control :: "string \<Rightarrow> bool" where
  "has_control [] = False"
| "has_control (c # cs) =
     (let n = (of_char c :: nat) in
      n < 32 \<or> n = 127 \<or>
      (n = 0xC2 \<and> (case cs of d # _ \<Rightarrow> 0x80 \<le> (of_char d :: nat) \<and> (of_char d :: nat) \<le> 0x9F | [] \<Rightarrow> False)) \<or>
      has_control cs)"

definition sanitize_file_name :: "string \<Rightarrow> string" where
  "sanitize_file_name name =
     (let candidate = trim (case path_file_name name of Some n \<Rightarrow> n | None \<Rightarrow> []);
          is_bad = (candidate = [] \<or> candidate = ''.'' \<or> candidate = ''..'' \<or> has_control candidate)
      in if is_bad then ''received_file'' else candidate)"

text \<open>\<open>Path::file_stem\<close> and \<open>Path::extension\<close> of a bare file name.\<close>

definition stem_and_ext :: "string \<Rightarrow> string \<times> string option" where
  "stem_and_ext name =
     (if name = ''..'' then (name, None)
      else (case rsplit_once (CHR ''.'') name of
              None \<Rightarrow> (name, None)
            | Some (before, after) \<Rightarrow> if before = [] then (name, None) else (before, Some after)))"

definition numbered_name :: "string \<Rightarrow> nat \<Rightarrow> string" where
  "numbered_name name i =
     (case stem_and_ext name of
        (stem, Some e) \<Rightarrow> stem @ '' ('' @ show_nat i @ '').'' @ e
      | (stem, None) \<Rightarrow> stem @ '' ('' @ show_nat i @ '')'')"

partial_function (option) unique_from :: "(string \<Rightarrow> bool) \<Rightarrow> string \<Rightarrow> nat \<Rightarrow> string option" where
  "unique_from taken name i =
     (if \<not> taken (numbered_name name i) then Some (numbered_name name i)
      else unique_from taken name (Suc i))"

definition unique_dest_path :: "(string \<Rightarrow> bool) \<Rightarrow> string \<Rightarrow> string option" where
  "unique_dest_path taken name = (if \<not> taken name then Some name else unique_from taken name 1)"

section \<open>The handler\<close>

datatype stream_ending = Closed | Broken | Silent

datatype transfer_error =
    TProto protocol_error
  | PairTimedOut
  | UnpairedDevice string
  | ExpectedPairRequest
  | ExpectedFileOffer
  | FileSystem
  | StillWaiting

record transfer_state =
  t_stream :: wire
  ending :: stream_ending
  t_config :: server_config
  files :: "string \<rightharpoonup> bytes"

record transfer_env =
  te_sha :: "bytes \<Rightarrow> bytes"
  te_ser :: "envelope \<Rightarrow> bytes option"
  te_de :: "bytes \<Rightarrow> envelope option"
  te_dir_ok :: bool
  te_open_ok :: bool
  te_quota :: nat
  te_reopen_ok :: bool
  te_rename_ok :: bool
  te_remove_ok :: bool

definition t_read :: "transfer_env \<Rightarrow> transfer_error \<Rightarrow> (transfer_state, transfer_error, envelope) io" where
  "t_read env silent = (\<lambda>s. case read_envelope (te_de env) (t_stream s) of
      (Inr e, w) \<Rightarrow> (Inr e, s\<lparr>t_stream := w\<rparr>)
    | (Inl err, w) \<Rightarrow>
        (Inl (if err \<noteq> Io UnexpectedEof then TProto err
              else (case ending s of Closed \<Rightarrow> TProto err | Broken \<Rightarrow> TProto (Io BrokenPipe) | Silent \<Rightarrow> silent)),
         s\<lparr>t_stream := w\<rparr>))"

definition t_send :: "transfer_env \<Rightarrow> envelope \<Rightarrow> (transfer_state, transfer_error, unit) io" where
  "t_send env e = (\<lambda>s. case send_envelope (te_ser env) e (t_stream s) of
      (Inr u, w) \<Rightarrow> (Inr u, s\<lparr>t_stream := w\<rparr>)
    | (Inl err, w) \<Rightarrow> (Inl (TProto err), s\<lparr>t_stream := w\<rparr>))"

definition require :: "bool \<Rightarrow> (transfer_state, transfer_error, unit) io" where
  "require ok = (if ok then ret () else bail FileSystem)"

definition transfer_pairing :: "transfer_env \<Rightarrow> (transfer_state, transfer_error, unit) io" where
  "transfer_pairing env =
     bindM (t_read env PairTimedOut) (\<lambda>pair_req.
     case pair_req of
       PairRequest nonce fingerprint pf \<Rightarrow>
         bindM getM (\<lambda>s.
         if is_paired (t_config s) fingerprint then t_send env PairAccept
         else
           seqM (t_send env (PairReject ''device not paired; pair over the control channel first''))
             (bail (UnpairedDevice fingerprint)))
     | _ \<Rightarrow> seqM (t_send env (ErrorMsg ''expected PairRequest'')) (bail ExpectedPairRequest))"

definition part_name :: "string \<Rightarrow> string" where
  "part_name safe_name = safe_name @ ''.part''"

text \<open>Opening the partial file: appending to a shorter one, else starting empty.\<close>

definition open_part ::
    "transfer_env \<Rightarrow> string \<Rightarrow> nat \<Rightarrow> (transfer_state, transfer_error, nat) io" where
  "open_part env part fsize =
     bindM getM (\<lambda>s.
     seqM (require (te_open_ok env))
       (case files s part of
          Some content \<Rightarrow>
            if length content < fsize then ret (length content)
            else seqM (modifyM (\<lambda>s. s\<lparr>files := (files s)(part \<mapsto> [])\<rparr>)) (ret 0)
        | None \<Rightarrow> seqM (modifyM (\<lambda>s. s\<lparr>files := (files s)(part \<mapsto> [])\<rparr>)) (ret 0)))"

text \<open>The receive loop: chunks of at most 64 KiB, at most \<open>remaining\<close> bytes in all.\<close>

function recv_loop :: "nat \<Rightarrow> bytes \<Rightarrow> bytes \<Rightarrow> bytes \<times> bytes" where
  "recv_loop remaining input content =
     (let n = min 65536 (min remaining (length input)) in
      if n = 0 then (input, content)
      else
        (let content1 = content @ take n input
         in if remaining - n = 0 then (drop n input, content1)
            else recv_loop (remaining - n) (drop n input) content1))"
  by pat_completeness auto
termination
  by (relation "measure (\<lambda>(r, i, c). length i)") auto

declare recv_loop.simps [simp del]

definition receive_data ::
    "transfer_env \<Rightarrow> string \<Rightarrow> nat \<Rightarrow> nat \<Rightarrow> (transfer_state, transfer_error, nat) io" where
  "receive_data env part fsize start_offset = (\<lambda>s.
     let content = (case files s part of Some c \<Rightarrow> c | None \<Rightarrow> []);
         (rest, content') = recv_loop (fsize - start_offset) (rx (t_stream s)) content;
         got = length content' - length content;
         received = start_offset + got;
         stored = take (length content + te_quota env) content';
         s1 = s\<lparr>t_stream := (t_stream s)\<lparr>rx := rest\<rparr>, files := (files s)(part \<mapsto> stored)\<rparr>
     in if te_quota env < got then (Inl FileSystem, s1)
        else if received < fsize \<and> ending s = Broken then (Inl (TProto (Io BrokenPipe)), s1)
        else if received < fsize \<and> ending s = Silent then (Inl StillWaiting, s1)
        else (Inr received, s1))"

definition remove_part :: "transfer_env \<Rightarrow> string \<Rightarrow> (transfer_state, transfer_error, unit) io" where
  "remove_part env part =
     modifyM (\<lambda>s. if te_remove_ok env then s\<lparr>files := (files s)(part := None)\<rparr> else s)"

definition finish_transfer ::
    "transfer_env \<Rightarrow> uuid \<Rightarrow> string \<Rightarrow> bytes \<Rightarrow> (transfer_state, transfer_error, unit) io" where
  "finish_transfer env fid safe_name sha256 =
     (let part = part_name safe_name in
      seqM (require (te_reopen_ok env))
        (bindM getM (\<lambda>s.
         let content = (case files s part of Some c \<Rightarrow> c | None \<Rightarrow> []) in
         if te_sha env content = sha256 then
           (case unique_dest_path (\<lambda>n. files s n \<noteq> None) safe_name of
              None \<Rightarrow> bail StillWaiting
            | Some final_path \<Rightarrow>
                seqM (require (te_rename_ok env))
                  (seqM (modifyM (\<lambda>s. s\<lparr>files := (files s)(part := None, final_path \<mapsto> content)\<rparr>))
                    (ignoreM (t_send env (FileComplete fid)))))
         else
           seqM (remove_part env part)
             (ignoreM (t_send env (FileReject fid ''Checksum mismatch''))))))"

definition receive_offer ::
    "transfer_env \<Rightarrow> uuid \<Rightarrow> string \<Rightarrow> u64 \<Rightarrow> bytes \<Rightarrow> (transfer_state, transfer_error, unit) io" where
  "receive_offer env fid name fsize sha256 =
     (let safe_name = sanitize_file_name name; part = part_name safe_name in
      bindM getM (\<lambda>s.
      if max_file_size (t_config s) \<noteq> 0 \<and> fsize > max_file_size (t_config s) then
        t_send env (FileReject fid ''file exceeds maximum allowed size'')
      else
        seqM (require (te_dir_ok env))
          (bindM (open_part env part (unat fsize)) (\<lambda>start_offset.
           seqM (t_send env (FileAccept fid (word_of_nat start_offset)))
             (bindM (receive_data env part (unat fsize) start_offset) (\<lambda>received.
              if received \<noteq> unat fsize then
                seqM (remove_part env part)
                  (ignoreM (t_send env (FileReject fid ''transfer incomplete'')))
              else finish_transfer env fid safe_name sha256))))))"

definition handle_transfer :: "transfer_env \<Rightarrow> (transfer_state, transfer_error, unit) io" where
  "handle_transfer env =
     seqM (transfer_pairing env)
       (bindM (t_read env StillWaiting) (\<lambda>offer.
        case offer of
          FileOffer fid name fsize sha256 \<Rightarrow> receive_offer env fid name fsize sha256
        | _ \<Rightarrow> bail ExpectedFileOffer))"

section \<open>What each step does to the directory\<close>

lemma t_read_files [simp]:
  "files (snd (t_read env e s)) = files s" "t_config (snd (t_read env e s)) = t_config s"
  "ending (snd (t_read env e s)) = ending s"
  by (simp_all add: t_read_def split: prod.splits sum.splits)

lemma t_send_files [simp]:
  "files (snd (t_send env e s)) = files s" "t_config (snd (t_send env e s)) = t_config s"
  "ending (snd (t_send env e s)) = ending s"
  by (simp_all add: t_send_def split: prod.splits sum.splits)

lemma t_read_Inr:
  "t_read env e s = (Inr m, s') \<longleftrightarrow>
     (\<exists>w. read_envelope (te_de env) (t_stream s) = (Inr m, w) \<and> s' = s\<lparr>t_stream := w\<rparr>)"
  by (auto simp: t_read_def split: prod.splits sum.splits)

lemma t_send_Inr:
  "t_send env e s = (Inr u, s') \<longleftrightarrow>
     (\<exists>w. send_envelope (te_ser env) e (t_stream s) = (Inr u, w) \<and> s' = s\<lparr>t_stream := w\<rparr>)"
  by (auto simp: t_send_def split: prod.splits sum.splits)

lemma recv_loop_eq: "recv_loop r input c = (drop r input, c @ take r input)"
proof (induction r input c rule: recv_loop.induct)
  case (1 r input c)
  define n where "n = min 65536 (min r (length input))"
  have unfolded: "recv_loop r input c =
      (if n = 0 then (input, c) else if r - n = 0 then (drop n input, c @ take n input)
       else recv_loop (r - n) (drop n input) (c @ take n input))"
    unfolding recv_loop.simps [of r input c] Let_def n_def [symmetric] by (rule refl)
  have nr: "n \<le> r" by (simp add: n_def)
  show ?case
  proof (cases "n = 0 \<or> r - n = 0")
    case True
    then have "r = n \<or> input = []" by (auto simp: n_def min_def split: if_splits)
    with True nr unfolded show ?thesis by auto
  next
    case False
    with 1 have "recv_loop (r - n) (drop n input) (c @ take n input) =
        (drop (r - n) (drop n input), (c @ take n input) @ take (r - n) (drop n input))"
      by (simp add: n_def Let_def)
    moreover have "take n input @ take (r - n) (drop n input) = take r input"
      using nr by (metis le_add_diff_inverse take_add)
    ultimately show ?thesis using False nr unfolded by simp
  qed
qed

text \<open>What is kept of a partial file when an offer of \<open>fsize\<close> bytes comes in.\<close>

definition resume_from :: "bytes option \<Rightarrow> nat \<Rightarrow> bytes" where
  "resume_from old fsize =
     (case old of Some c \<Rightarrow> if length c < fsize then c else [] | None \<Rightarrow> [])"

lemma length_resume_from: "length (resume_from old fsize) \<le> fsize"
  by (simp add: resume_from_def split: option.splits)

lemma open_part_eq:
  "open_part env part fsize s =
     (if te_open_ok env
      then (Inr (length (resume_from (files s part) fsize)),
            s\<lparr>files := (files s)(part \<mapsto> resume_from (files s part) fsize)\<rparr>)
      else (Inl FileSystem, s))"
  by (auto simp: open_part_def resume_from_def require_def io_simps fun_upd_idem split: option.splits)

lemma receive_data_eq:
  assumes "files s part = Some c" and "length c \<le> fsize"
  shows "receive_data env part fsize (length c) s =
    (let d = take (fsize - length c) (rx (t_stream s));
         s1 = s\<lparr>t_stream := (t_stream s)\<lparr>rx := drop (fsize - length c) (rx (t_stream s))\<rparr>,
                files := (files s)(part \<mapsto> c @ take (te_quota env) d)\<rparr>
     in if te_quota env < length d then (Inl FileSystem, s1)
        else if length c + length d < fsize \<and> ending s = Broken then (Inl (TProto (Io BrokenPipe)), s1)
        else if length c + length d < fsize \<and> ending s = Silent then (Inl StillWaiting, s1)
        else (Inr (length c + length d), s1))"
  using assms by (simp add: receive_data_def recv_loop_eq Let_def)

lemma unique_from_fresh:
  assumes "unique_from taken name i = Some p"
  shows "\<not> taken p"
proof (rule unique_from.raw_induct [where P = "\<lambda>tk nm i r. \<not> tk r", OF _ assms])
  fix f :: "(string \<Rightarrow> bool) \<Rightarrow> string \<Rightarrow> nat \<Rightarrow> string option" and tk nm i y
  assume "\<And>tk nm i y. f tk nm i = Some y \<Longrightarrow> \<not> tk y"
    and "(if \<not> tk (numbered_name nm i) then Some (numbered_name nm i) else f tk nm (Suc i)) = Some y"
  then show "\<not> tk y" by (auto split: if_splits)
qed

lemma unique_dest_path_fresh: "unique_dest_path taken name = Some p \<Longrightarrow> \<not> taken p"
  by (auto simp: unique_dest_path_def dest: unique_from_fresh split: if_splits)

lemma numbered_name_inject: "numbered_name name i = numbered_name name j \<longleftrightarrow> i = j"
  by (auto simp: numbered_name_def split: prod.splits option.splits)

lemma unique_from_returns:
  assumes "finite {n. taken n}"
  shows "\<exists>p. unique_from taken name i = Some p"
proof -
  have fin: "finite {j. k \<le> j \<and> taken (numbered_name name j)}" for k
  proof (rule finite_subset)
    show "{j. k \<le> j \<and> taken (numbered_name name j)} \<subseteq> numbered_name name -` {n. taken n}" by auto
    show "finite (numbered_name name -` {n. taken n})"
      using assms by (rule finite_vimageI) (simp add: inj_def numbered_name_inject)
  qed
  show ?thesis
  proof (induction "card {j. i \<le> j \<and> taken (numbered_name name j)}" arbitrary: i rule: less_induct)
    case less
    show ?case
    proof (cases "taken (numbered_name name i)")
      case True
      then have "i \<in> {j. i \<le> j \<and> taken (numbered_name name j)} - {j. Suc i \<le> j \<and> taken (numbered_name name j)}"
        by simp
      then have "{j. Suc i \<le> j \<and> taken (numbered_name name j)} \<subset> {j. i \<le> j \<and> taken (numbered_name name j)}"
        by fastforce
      from less [OF psubset_card_mono [OF fin this]] True show ?thesis
        by (subst unique_from.simps) simp
    next
      case False
      then show ?thesis by (subst unique_from.simps) simp
    qed
  qed
qed

text \<open>
  The effect of a whole transfer on the directory: nothing, a change of the partial file alone, or
  the promotion of a complete and verified partial file to a name that was free.
\<close>

definition transfer_outcome ::
    "transfer_env \<Rightarrow> string \<Rightarrow> nat \<Rightarrow> bytes \<Rightarrow> (string \<rightharpoonup> bytes) \<Rightarrow> (string \<rightharpoonup> bytes) \<Rightarrow> bool" where
  "transfer_outcome env safe_name fsize sha256 before after \<longleftrightarrow>
     after = before \<or>
     (\<exists>v. after = before(part_name safe_name := v)) \<or>
     (\<exists>n c. before n = None \<and> length c = fsize \<and> te_sha env c = sha256 \<and>
        after = before(part_name safe_name := None, n \<mapsto> c))"

definition is_part :: "string \<Rightarrow> bool" where
  "is_part n \<longleftrightarrow> drop (length n - 5) n = ''.part''"

lemma is_part_part_name [simp]: "is_part (part_name nm)"
  by (simp add: is_part_def part_name_def)

lemma outcome_same: "transfer_outcome env nm fsize sha256 m m"
  by (simp add: transfer_outcome_def)

lemma outcome_part: "transfer_outcome env nm fsize sha256 m (m(part_name nm := v))"
  by (auto simp: transfer_outcome_def)

lemma outcome_promoted:
  "m n = None \<Longrightarrow> length c = fsize \<Longrightarrow> te_sha env c = sha256 \<Longrightarrow>
   transfer_outcome env nm fsize sha256 m (m(part_name nm := None, n \<mapsto> c))"
  by (auto simp: transfer_outcome_def)

lemma outcome_after_part:
  assumes "transfer_outcome env nm fsize sha256 (m(part_name nm \<mapsto> c)) m'"
  shows "transfer_outcome env nm fsize sha256 m m'"
proof -
  from assms consider "m' = m(part_name nm \<mapsto> c)"
    | v where "m' = m(part_name nm := v)"
    | n d where "n \<noteq> part_name nm" "m n = None" "length d = fsize" "te_sha env d = sha256"
        "m' = m(part_name nm := None, n \<mapsto> d)"
    unfolding transfer_outcome_def fun_upd_upd by (metis fun_upd_apply option.distinct(1))
  then show ?thesis by cases (simp_all add: outcome_part outcome_promoted)
qed

lemma finish_transfer_files:
  assumes "files s (part_name nm) = Some c"
  shows "files (snd (finish_transfer env fid nm sha256 s)) \<in> {files s, (files s)(part_name nm := None)} \<or>
    (te_sha env c = sha256 \<and> (\<exists>n. files s n = None \<and>
      files (snd (finish_transfer env fid nm sha256 s)) = (files s)(part_name nm := None, n \<mapsto> c)))"
  using assms
  by (auto simp: finish_transfer_def require_def remove_part_def io_simps Let_def
      split: option.splits if_splits prod.splits sum.splits dest!: unique_dest_path_fresh)

text \<open>The part of the handler after \<open>FileAccept\<close>.\<close>

definition after_accept ::
    "transfer_env \<Rightarrow> uuid \<Rightarrow> string \<Rightarrow> nat \<Rightarrow> bytes \<Rightarrow> nat \<Rightarrow> (transfer_state, transfer_error, unit) io" where
  "after_accept env fid nm fsize sha256 start_offset =
     bindM (receive_data env (part_name nm) fsize start_offset) (\<lambda>received.
       if received \<noteq> fsize then
         seqM (remove_part env (part_name nm)) (ignoreM (t_send env (FileReject fid ''transfer incomplete'')))
       else finish_transfer env fid nm sha256)"

lemma receive_offer_eq:
  "receive_offer env fid name fsize sha256 s =
     (let nm = sanitize_file_name name; c = resume_from (files s (part_name nm)) (unat fsize) in
      if max_file_size (t_config s) \<noteq> 0 \<and> fsize > max_file_size (t_config s)
      then t_send env (FileReject fid ''file exceeds maximum allowed size'') s
      else if \<not> te_dir_ok env \<or> \<not> te_open_ok env then (Inl FileSystem, s)
      else seqM (t_send env (FileAccept fid (word_of_nat (length c))))
             (after_accept env fid nm (unat fsize) sha256 (length c))
             (s\<lparr>files := (files s)(part_name nm \<mapsto> c)\<rparr>))"
  by (simp add: receive_offer_def after_accept_def open_part_eq require_def Let_def io_simps)

lemma after_accept_files:
  assumes "files s (part_name nm) = Some c" and "length c \<le> fsize"
  shows "transfer_outcome env nm fsize sha256 (files s)
    (files (snd (after_accept env fid nm fsize sha256 (length c) s)))"
proof -
  define d where "d = take (fsize - length c) (rx (t_stream s))"
  define s1 where "s1 = s\<lparr>t_stream := (t_stream s)\<lparr>rx := drop (fsize - length c) (rx (t_stream s))\<rparr>,
                files := (files s)(part_name nm \<mapsto> c @ take (te_quota env) d)\<rparr>"
  have part: "\<exists>v. files s1 = (files s)(part_name nm := v)" by (auto simp: s1_def)
  define r where "r = fst (receive_data env (part_name nm) fsize (length c) s)"
  note data = receive_data_eq [OF assms, of env, unfolded Let_def, folded d_def, folded s1_def]
  have r: "receive_data env (part_name nm) fsize (length c) s = (r, s1)"
    by (simp add: r_def data)
  have received: "n = length c + length d \<and> length d \<le> te_quota env" if "r = Inr n" for n
    using that by (simp add: r_def data split: if_splits)
  show ?thesis
  proof (cases "r = Inr fsize")
    case True
    with received have len: "fsize = length c + length d" "length d \<le> te_quota env" by auto
    then have s1p: "files s1 (part_name nm) = Some (c @ d)" by (simp add: s1_def)
    have "files (snd (after_accept env fid nm fsize sha256 (length c) s)) =
        files (snd (finish_transfer env fid nm sha256 s1))"
      using True r by (simp add: after_accept_def bindM_apply)
    moreover have "transfer_outcome env nm fsize sha256 (files s1) (files (snd (finish_transfer env fid nm sha256 s1)))"
      using finish_transfer_files [OF s1p, of env fid sha256] len
      by (auto simp: outcome_same outcome_part outcome_promoted)
    ultimately show ?thesis using s1p len by (auto simp: s1_def intro: outcome_after_part)
  next
    case False
    then have "files (snd (after_accept env fid nm fsize sha256 (length c) s)) = files s1 \<or>
        files (snd (after_accept env fid nm fsize sha256 (length c) s)) = (files s1)(part_name nm := None)"
      using r by (auto simp: after_accept_def io_simps remove_part_def split: sum.splits)
    then show ?thesis by (auto simp: s1_def outcome_part)
  qed
qed

lemma receive_offer_outcome:
  "transfer_outcome env (sanitize_file_name name) (unat fsize) sha256
     (files s) (files (snd (receive_offer env fid name fsize sha256 s)))"
proof -
  define nm where "nm = sanitize_file_name name"
  define c where "c = resume_from (files s (part_name nm)) (unat fsize)"
  define s1 where "s1 = s\<lparr>files := (files s)(part_name nm \<mapsto> c)\<rparr>"
  obtain r s2 where snd: "t_send env (FileAccept fid (word_of_nat (length c))) s1 = (r, s2)"
    by fastforce
  then have s2: "files s2 = files s1" by (metis snd_conv t_send_files(1))
  then have p: "files s2 (part_name nm) = Some c" by (simp add: s1_def)
  have "transfer_outcome env nm (unat fsize) sha256 (files s1)
      (files (snd (seqM (t_send env (FileAccept fid (word_of_nat (length c))))
             (after_accept env fid nm (unat fsize) sha256 (length c)) s1)))"
    using after_accept_files [OF p, of "unat fsize" env sha256 fid] snd s2
    by (auto simp: seqM_apply c_def length_resume_from outcome_same split: sum.splits)
  then have "transfer_outcome env nm (unat fsize) sha256 (files s)
      (files (snd (seqM (t_send env (FileAccept fid (word_of_nat (length c))))
             (after_accept env fid nm (unat fsize) sha256 (length c)) s1)))"
    by (auto simp: s1_def intro: outcome_after_part)
  then show ?thesis
    unfolding receive_offer_eq Let_def nm_def [symmetric] c_def [symmetric] s1_def [symmetric]
    by (auto simp: outcome_same)
qed

text \<open>The whole connection: no effect before a paired device has introduced itself.\<close>

definition same_directory :: "transfer_state \<Rightarrow> transfer_state \<Rightarrow> bool" where
  "same_directory s t \<longleftrightarrow> files t = files s \<and> t_config t = t_config s"

interpretation listing: state_order same_directory
  by unfold_locales (simp_all add: same_directory_def)

lemma listing_t_read: "keeps same_directory (t_read env e)"
  by (simp add: keeps_def same_directory_def)

lemma listing_t_send: "keeps same_directory (t_send env e)"
  by (simp add: keeps_def same_directory_def)

lemmas listing_keeps = listing.keeps_bindM listing.keeps_seqM listing.keeps_getM listing.keeps_bail
  listing_t_read listing_t_send

lemma listing_pairing: "keeps same_directory (transfer_pairing env)"
  unfolding transfer_pairing_def
  by (intro listing_keeps) (auto intro!: listing_keeps split: envelope.splits)

lemma transfer_pairing_Inr:
  assumes "transfer_pairing env s = (Inr (), s1)"
  obtains nonce fp pf w
  where "read_envelope (te_de env) (t_stream s) = (Inr (PairRequest nonce fp pf), w)"
    and "is_paired (t_config s) fp"
    and "t_send env PairAccept (s\<lparr>t_stream := w\<rparr>) = (Inr (), s1)"
proof -
  from assms obtain m u where m: "t_read env PairTimedOut s = (Inr m, u)"
    unfolding transfer_pairing_def bindM_Inr_iff by blast
  then obtain w where w: "read_envelope (te_de env) (t_stream s) = (Inr m, w)" "u = s\<lparr>t_stream := w\<rparr>"
    by (auto simp: t_read_Inr)
  with assms m show thesis
    by (cases m) (auto simp: transfer_pairing_def io_simps intro: that split: if_splits prod.splits sum.splits)
qed

lemma handle_transfer_outcome:
  assumes "files (snd (handle_transfer env s)) \<noteq> files s"
  obtains nonce fp pf w s1 fid name fsize sha256 w'
  where "read_envelope (te_de env) (t_stream s) = (Inr (PairRequest nonce fp pf), w)"
    and "is_paired (t_config s) fp"
    and "t_send env PairAccept (s\<lparr>t_stream := w\<rparr>) = (Inr (), s1)"
    and "read_envelope (te_de env) (t_stream s1) = (Inr (FileOffer fid name fsize sha256), w')"
    and "handle_transfer env s = receive_offer env fid name fsize sha256 (s1\<lparr>t_stream := w'\<rparr>)"
    and "transfer_outcome env (sanitize_file_name name) (unat fsize) sha256
           (files s) (files (snd (handle_transfer env s)))"
proof -
  obtain r s1 where pair: "transfer_pairing env s = (r, s1)" by fastforce
  with listing_pairing [of env] have s1: "files s1 = files s" "t_config s1 = t_config s"
    by (auto simp: keeps_def same_directory_def dest: spec [of _ s])
  from assms pair s1 have r: "r = Inr ()" by (cases r) (auto simp: handle_transfer_def io_simps)
  obtain q s2 where rd: "t_read env StillWaiting s1 = (q, s2)" by fastforce
  then have s2: "files s2 = files s" using s1 t_read_files(1) [of env StillWaiting s1] by simp
  from assms pair r rd s2 obtain m where m: "q = Inr m"
    by (cases q) (auto simp: handle_transfer_def io_simps)
  from assms pair r rd m s2 obtain fid name fsize sha256 where offer: "m = FileOffer fid name fsize sha256"
    by (cases m) (auto simp: handle_transfer_def io_simps)
  from rd m offer obtain w' where w': "read_envelope (te_de env) (t_stream s1) = (Inr (FileOffer fid name fsize sha256), w')"
    and s2w: "s2 = s1\<lparr>t_stream := w'\<rparr>" by (auto simp: t_read_Inr)
  from pair r rd m offer s2w have h: "handle_transfer env s = receive_offer env fid name fsize sha256 (s1\<lparr>t_stream := w'\<rparr>)"
    by (simp add: handle_transfer_def io_simps)
  from receive_offer_outcome [of env name fsize sha256 s2 fid]
  have "transfer_outcome env (sanitize_file_name name) (unat fsize) sha256
           (files s) (files (snd (handle_transfer env s)))"
    by (simp add: h s2 flip: s2w)
  with w' h pair r show thesis by (auto elim!: transfer_pairing_Inr intro: that)
qed

section \<open>File names are safe\<close>

lemma last_in_set_filter: "filter P xs \<noteq> [] \<Longrightarrow> last (filter P xs) \<in> set xs"
  by (metis filter_is_subset last_in_set subsetD)

lemma path_file_name_no_slash: "path_file_name s = Some n \<Longrightarrow> CHR ''/'' \<notin> set n"
  by (auto simp: path_file_name_def Let_def split: if_splits
      dest!: last_in_set_filter split_char_pieces)

section \<open>A conforming upload\<close>

lemma t_send_ok:
  assumes "serialize_envelope (te_ser env) e = Inr b" and "tx_room (t_stream s) = None"
  shows "t_send env e s = (Inr (), s\<lparr>t_stream := (t_stream s)\<lparr>tx := tx (t_stream s) @ b\<rparr>\<rparr>)"
  using assms by (simp add: t_send_def send_envelope_def bindM_def liftR_def write_all_def)

definition framed :: "(envelope \<Rightarrow> bytes option) \<Rightarrow> envelope list \<Rightarrow> bytes list \<Rightarrow> bool" where
  "framed ser es bs \<longleftrightarrow> list_all2 (\<lambda>e b. serialize_envelope ser e = Inr b) es bs"

lemma framed_simps [simp]:
  "framed ser [] bs \<longleftrightarrow> bs = []"
  "framed ser (e # es) (b # bs) \<longleftrightarrow> serialize_envelope ser e = Inr b \<and> framed ser es bs"
  by (auto simp: framed_def)

text \<open>A paired device that offers a file gets as far as the offer.\<close>

lemma handle_transfer_offered:
  assumes codec: "envelope_codec (te_ser env) (te_de env)"
    and wf: "wf_envelope (PairRequest nonce fp pf)" "wf_envelope (FileOffer fid name fsize sha256)"
    and frames: "framed (te_ser env) [PairRequest nonce fp pf, FileOffer fid name fsize sha256, PairAccept] [b1, b2, b3]"
    and paired: "is_paired (t_config s) fp"
    and stream: "rx (t_stream s) = b1 @ b2 @ rest" "tx_room (t_stream s) = None"
  shows "handle_transfer env s = receive_offer env fid name fsize sha256
    (s\<lparr>t_stream := (t_stream s)\<lparr>rx := rest, tx := tx (t_stream s) @ b3\<rparr>\<rparr>)"
proof -
  from frames have b: "serialize_envelope (te_ser env) (PairRequest nonce fp pf) = Inr b1"
    "serialize_envelope (te_ser env) (FileOffer fid name fsize sha256) = Inr b2"
    "serialize_envelope (te_ser env) PairAccept = Inr b3" by simp_all
  have "read_envelope (te_de env) (t_stream s) = (Inr (PairRequest nonce fp pf), (t_stream s)\<lparr>rx := b2 @ rest\<rparr>)"
    using stream by (intro envelope_codec.read_serialized [OF codec wf(1) b(1)]) simp
  then have r1: "t_read env PairTimedOut s = (Inr (PairRequest nonce fp pf), s\<lparr>t_stream := (t_stream s)\<lparr>rx := b2 @ rest\<rparr>\<rparr>)"
    by (simp add: t_read_Inr)
  have "transfer_pairing env s = (Inr (), s\<lparr>t_stream := (t_stream s)\<lparr>rx := b2 @ rest, tx := tx (t_stream s) @ b3\<rparr>\<rparr>)"
    using paired stream(2) b(3) by (simp add: transfer_pairing_def bindM_apply r1 getM_apply t_send_ok)
  moreover have "t_read env StillWaiting (s\<lparr>t_stream := (t_stream s)\<lparr>rx := b2 @ rest, tx := tx (t_stream s) @ b3\<rparr>\<rparr>) =
      (Inr (FileOffer fid name fsize sha256), s\<lparr>t_stream := (t_stream s)\<lparr>rx := rest, tx := tx (t_stream s) @ b3\<rparr>\<rparr>)"
    by (simp add: t_read_Inr envelope_codec.read_serialized [OF codec wf(2) b(2)])
  ultimately show ?thesis by (simp add: handle_transfer_def seqM_apply bindM_apply)
qed

lemma unique_dest_path_returns:
  assumes "finite (dom m)"
  shows "\<exists>p. unique_dest_path (\<lambda>n. m n \<noteq> None) name = Some p \<and> m p = None"
proof -
  from assms have "finite {n. m n \<noteq> None}" by (simp add: dom_def)
  from unique_from_returns [OF this] obtain p where "unique_dest_path (\<lambda>n. m n \<noteq> None) name = Some p"
    unfolding unique_dest_path_def by (metis (no_types, lifting))
  with unique_dest_path_fresh [OF this] show ?thesis by auto
qed

lemma finish_transfer_ok:
  assumes "files s (part_name nm) = Some c" and "te_sha env c = sha256"
    and "te_reopen_ok env" "te_rename_ok env" "finite (dom (files s))" "tx_room (t_stream s) = None"
    and "serialize_envelope (te_ser env) (FileComplete fid) = Inr b"
  obtains n where "files s n = None" "files s nm = None \<longrightarrow> n = nm"
    "finish_transfer env fid nm sha256 s =
       (Inr (), s\<lparr>files := (files s)(part_name nm := None, n \<mapsto> c),
                 t_stream := (t_stream s)\<lparr>tx := tx (t_stream s) @ b\<rparr>\<rparr>)"
proof -
  obtain n where n: "unique_dest_path (\<lambda>n. files s n \<noteq> None) nm = Some n" "files s n = None"
    using unique_dest_path_returns [OF assms(5)] by blast
  moreover from n(1) have "files s nm = None \<longrightarrow> n = nm" by (auto simp: unique_dest_path_def)
  ultimately show thesis
    using assms that [of n]
    by (simp add: finish_transfer_def require_def Let_def seqM_apply bindM_apply getM_apply ret_apply
        modifyM_apply ignoreM_apply t_send_ok)
qed

lemma after_accept_complete:
  assumes "files s (part_name nm) = Some c" and data: "data = c @ d"
    and "rx (t_stream s) = d @ extra" and "length d \<le> te_quota env"
    and "te_sha env data = sha256" "te_reopen_ok env" "te_rename_ok env" "finite (dom (files s))"
    and "tx_room (t_stream s) = None" "serialize_envelope (te_ser env) (FileComplete fid) = Inr b"
  obtains n where "files s n = None" "files s nm = None \<longrightarrow> n = nm"
    "after_accept env fid nm (length data) sha256 (length c) s =
       (Inr (), s\<lparr>files := (files s)(part_name nm := None, n \<mapsto> data),
                 t_stream := (t_stream s)\<lparr>rx := extra, tx := tx (t_stream s) @ b\<rparr>\<rparr>)"
proof -
  define s1 where "s1 = s\<lparr>t_stream := (t_stream s)\<lparr>rx := extra\<rparr>, files := (files s)(part_name nm \<mapsto> data)\<rparr>"
  have "receive_data env (part_name nm) (length data) (length c) s = (Inr (length data), s1)"
    using assms(1,3,4) by (subst receive_data_eq [OF assms(1)]) (simp_all add: data s1_def Let_def)
  then have eq: "after_accept env fid nm (length data) sha256 (length c) s = finish_transfer env fid nm sha256 s1"
    by (simp add: after_accept_def bindM_apply)
  have p: "files s1 (part_name nm) = Some data" by (simp add: s1_def)
  obtain n where n: "files s1 n = None" "files s1 nm = None \<longrightarrow> n = nm"
    "finish_transfer env fid nm sha256 s1 =
       (Inr (), s1\<lparr>files := (files s1)(part_name nm := None, n \<mapsto> data),
                 t_stream := (t_stream s1)\<lparr>tx := tx (t_stream s1) @ b\<rparr>\<rparr>)"
    using assms by (elim finish_transfer_ok [OF p assms(5), where fid = fid and b = b]) (simp_all add: s1_def)
  show thesis
    using n eq by (intro that [of n]) (auto simp: s1_def part_name_def split: if_splits)
qed

lemma after_accept_interrupted:
  assumes "files s (part_name nm) = Some c" and "length c + length (rx (t_stream s)) < fsize"
    and "length (rx (t_stream s)) \<le> te_quota env" "ending s = Closed" "te_remove_ok env"
  shows "fst (after_accept env fid nm fsize sha256 (length c) s) = Inr ()"
    and "files (snd (after_accept env fid nm fsize sha256 (length c) s)) = (files s)(part_name nm := None)"
proof -
  define s1 where "s1 = s\<lparr>t_stream := (t_stream s)\<lparr>rx := []\<rparr>, files := (files s)(part_name nm \<mapsto> c @ rx (t_stream s))\<rparr>"
  have "receive_data env (part_name nm) fsize (length c) s = (Inr (length c + length (rx (t_stream s))), s1)"
    using assms by (subst receive_data_eq [OF assms(1)]) (simp_all add: s1_def Let_def)
  then have "after_accept env fid nm fsize sha256 (length c) s =
      seqM (remove_part env (part_name nm)) (ignoreM (t_send env (FileReject fid ''transfer incomplete''))) s1"
    using assms(2) by (simp add: after_accept_def bindM_apply)
  then show "fst (after_accept env fid nm fsize sha256 (length c) s) = Inr ()"
    "files (snd (after_accept env fid nm fsize sha256 (length c) s)) = (files s)(part_name nm := None)"
    using assms(5) by (simp_all add: seqM_apply ignoreM_apply remove_part_def modifyM_apply s1_def)
qed

lemma upload_stores:
  assumes "\<And>e bs. wf_envelope e \<Longrightarrow> te_ser env e = Some bs \<Longrightarrow> te_de env bs = Some e"
    and "wf_envelope (PairRequest nonce fp pf)" "wf_envelope (FileOffer fid name fsize sha256)"
    and frames: "framed (te_ser env)
          [PairRequest nonce fp pf, FileOffer fid name fsize sha256, PairAccept,
           FileAccept fid (word_of_nat (length kept)), FileComplete fid] [b1, b2, b3, b4, b5]"
    and "is_paired (t_config s) fp"
    and stream: "rx (t_stream s) = b1 @ b2 @ d @ extra" "tx_room (t_stream s) = None"
    and kept: "resume_from (files s (part_name (sanitize_file_name name))) (unat fsize) = kept"
    and data: "data = kept @ d" "length data = unat fsize" "te_sha env data = sha256"
    and limit: "max_file_size (t_config s) = 0 \<or> fsize \<le> max_file_size (t_config s)"
    and ok: "te_dir_ok env" "te_open_ok env" "te_reopen_ok env" "te_rename_ok env" "length d \<le> te_quota env"
    and fin: "finite (dom (files s))"
  shows "\<exists>n s'. handle_transfer env s = (Inr (), s') \<and> files s n = None \<and>
    (files s (sanitize_file_name name) = None \<longrightarrow> n = sanitize_file_name name) \<and>
    files s' = (files s)(part_name (sanitize_file_name name) := None, n \<mapsto> data) \<and>
    tx (t_stream s') = tx (t_stream s) @ b3 @ b4 @ b5"
proof -
  define nm where "nm = sanitize_file_name name"
  define s1 where "s1 = s\<lparr>files := (files s)(part_name nm \<mapsto> kept),
      t_stream := (t_stream s)\<lparr>rx := d @ extra, tx := tx (t_stream s) @ b3 @ b4\<rparr>\<rparr>"
  have codec: "envelope_codec (te_ser env) (te_de env)" using assms(1) by unfold_locales
  from frames have b: "framed (te_ser env) [PairRequest nonce fp pf, FileOffer fid name fsize sha256, PairAccept] [b1, b2, b3]"
    "serialize_envelope (te_ser env) (FileAccept fid (word_of_nat (length kept))) = Inr b4"
    "serialize_envelope (te_ser env) (FileComplete fid) = Inr b5" by simp_all
  have "handle_transfer env s = receive_offer env fid name fsize sha256
    (s\<lparr>t_stream := (t_stream s)\<lparr>rx := d @ extra, tx := tx (t_stream s) @ b3\<rparr>\<rparr>)"
    by (rule handle_transfer_offered [OF codec assms(2,3) b(1) assms(5) stream])
  also have "\<dots> = after_accept env fid nm (length data) sha256 (length kept) s1"
    using stream(2) kept data(2) limit ok b(2)
    by (auto simp: receive_offer_eq Let_def seqM_apply t_send_ok not_less s1_def nm_def)
  finally have h: "handle_transfer env s = after_accept env fid nm (length data) sha256 (length kept) s1" .
  have s1: "files s1 (part_name nm) = Some kept" "rx (t_stream s1) = d @ extra" "finite (dom (files s1))"
    "tx_room (t_stream s1) = None"
    using stream(2) fin by (simp_all add: s1_def)
  obtain n where n: "files s1 n = None" "files s1 nm = None \<longrightarrow> n = nm"
    "after_accept env fid nm (length data) sha256 (length kept) s1 =
       (Inr (), s1\<lparr>files := (files s1)(part_name nm := None, n \<mapsto> data),
                 t_stream := (t_stream s1)\<lparr>rx := extra, tx := tx (t_stream s1) @ b5\<rparr>\<rparr>)"
    by (rule after_accept_complete [OF s1(1) data(1) s1(2) ok(5) data(3) ok(3,4) s1(3,4) b(3)])
  then show ?thesis
    unfolding nm_def [symmetric] h by (intro exI [of _ n]) (auto simp: s1_def part_name_def split: if_splits)
qed

text \<open>A small concrete setting: two paired-device connections with the bincode codec.\<close>

definition ex_transfer_env :: transfer_env where
  "ex_transfer_env = \<lparr>te_sha = pad32, te_ser = bincode_ser, te_de = bincode_de, te_dir_ok = True,
     te_open_ok = True, te_quota = 1000, te_reopen_ok = True, te_rename_ok = True, te_remove_ok = True\<rparr>"

definition frame_of :: "envelope \<Rightarrow> bytes" where
  "frame_of e = (case serialize_envelope bincode_ser e of Inr b \<Rightarrow> b | Inl _ \<Rightarrow> [])"

definition ex_request :: envelope where
  "ex_request = PairRequest (replicate 16 0) ''fp'' (replicate 32 0)"

definition ex_offer :: envelope where
  "ex_offer = FileOffer 1 ''a.txt'' 3 (pad32 [1, 2, 3])"

definition ex_transfer_state :: "bytes \<Rightarrow> transfer_state" where
  "ex_transfer_state data =
     \<lparr>t_stream = \<lparr>rx = frame_of ex_request @ frame_of ex_offer @ data, tx = [], tx_room = None\<rparr>,
      ending = Closed,
      t_config = add_paired_device 0 ''fp'' ''dev'' (server_config_default None None None),
      files = [''a.txt.part'' \<mapsto> [1], ''b.txt'' \<mapsto> [9]]\<rparr>"

lemma ex_frames:
  "framed bincode_ser [ex_request, ex_offer, PairAccept, FileAccept 1 1, FileComplete 1]
     [frame_of ex_request, frame_of ex_offer, frame_of PairAccept, frame_of (FileAccept 1 1), frame_of (FileComplete 1)]"
  by (simp add: frame_of_def ex_request_def ex_offer_def serialize_envelope_def bincode_ser_def
      MAX_ENVELOPE_SIZE_def tag_def enc_word_def enc_string_def pad32_def)

lemma ex_sanitize: "sanitize_file_name ''a.txt'' = ''a.txt''"
  by code_simp

text \<open>The instance of the hypotheses of an upload: one byte of \<open>a.txt\<close> is there, two follow.\<close>

lemma ex_hyps:
  defines "s \<equiv> ex_transfer_state [2, 3]"
  shows "\<And>e bs. wf_envelope e \<Longrightarrow> te_ser ex_transfer_env e = Some bs \<Longrightarrow> te_de ex_transfer_env bs = Some e"
    "wf_envelope ex_request" "wf_envelope ex_offer"
    "framed (te_ser ex_transfer_env) [ex_request, ex_offer, PairAccept, FileAccept 1 (word_of_nat (length [1 :: u8])), FileComplete 1]
       [frame_of ex_request, frame_of ex_offer, frame_of PairAccept, frame_of (FileAccept 1 1), frame_of (FileComplete 1)]"
    "is_paired (t_config s) ''fp''"
    "rx (t_stream s) = frame_of ex_request @ frame_of ex_offer @ [2, 3] @ []" "tx_room (t_stream s) = None"
    "resume_from (files s (part_name (sanitize_file_name ''a.txt''))) (unat (3 :: u64)) = [1]"
    "[1, 2, 3] = [1] @ [2, 3 :: u8]" "length [1 :: u8, 2, 3] = unat (3 :: u64)"
    "te_sha ex_transfer_env [1, 2, 3] = pad32 [1, 2, 3]"
    "max_file_size (t_config s) = 0 \<or> 3 \<le> max_file_size (t_config s)"
    "te_dir_ok ex_transfer_env" "te_open_ok ex_transfer_env" "te_reopen_ok ex_transfer_env"
    "te_rename_ok ex_transfer_env" "length [2 :: u8, 3] \<le> te_quota ex_transfer_env" "finite (dom (files s))"
  using ex_frames
  by (simp_all add: s_def ex_transfer_env_def ex_transfer_state_def ex_sanitize part_name_def resume_from_def
      ex_request_def ex_offer_def wf_envelope_def pad32_def bincode.de_ser server_config_default_def Let_def
      add_paired_device_def is_paired_def)

lemma ex_upload:
  "\<exists>s'. handle_transfer ex_transfer_env (ex_transfer_state [2, 3]) = (Inr (), s') \<and>
     files s' ''a.txt'' = Some [1, 2, 3] \<and> files s' ''a.txt.part'' = None"
proof -
  have "files (ex_transfer_state [2, 3]) ''a.txt'' = None" by (simp add: ex_transfer_state_def)
  with upload_stores [OF ex_hyps(1) ex_hyps(2,3,4) [unfolded ex_request_def ex_offer_def] ex_hyps(5)
      ex_hyps(6) [unfolded ex_request_def ex_offer_def] ex_hyps(7-)]
  show ?thesis by (auto simp: ex_sanitize part_name_def)
qed

section \<open>Properties\<close>

definition safe_file_name :: "string \<Rightarrow> bool" where
  "safe_file_name n \<longleftrightarrow> n \<noteq> [] \<and> CHR ''/'' \<notin> set n \<and> n \<noteq> ''.'' \<and> n \<noteq> ''..'' \<and> \<not> has_control n"

lemma sanitize_safe: "safe_file_name (sanitize_file_name name)"
proof -
  let ?c = "trim (case path_file_name name of Some n \<Rightarrow> n | None \<Rightarrow> [])"
  have "CHR ''/'' \<notin> set ?c"
    using set_trim [of "case path_file_name name of Some n \<Rightarrow> n | None \<Rightarrow> []"] path_file_name_no_slash
    by (auto split: option.splits)
  moreover have "\<not> has_control ''received_file''" by simp
  ultimately show ?thesis by (simp add: sanitize_file_name_def safe_file_name_def Let_def)
qed

text \<open>Control characters of a concatenation: in a part, or the two bytes of one across the seam.\<close>

lemma has_control_append:
  "has_control (xs @ ys) \<longleftrightarrow> has_control xs \<or> has_control ys \<or>
     (xs \<noteq> [] \<and> ys \<noteq> [] \<and> of_char (last xs) = (0xC2 :: nat) \<and>
      0x80 \<le> (of_char (hd ys) :: nat) \<and> (of_char (hd ys) :: nat) \<le> 0x9F)"
proof (induction xs)
  case (Cons c xs)
  then show ?case by (cases xs; cases ys) (auto simp: Let_def)
qed simp

lemma digit_no_control: "is_ascii_digit c \<Longrightarrow> \<not> (of_char c :: nat) < 32 \<and> (of_char c :: nat) < 127"
  by (auto simp: is_ascii_digit_def)

lemma plain_no_control:
  "(\<And>c. c \<in> set xs \<Longrightarrow> \<not> (of_char c :: nat) < 32 \<and> (of_char c :: nat) < 127) \<Longrightarrow> \<not> has_control xs"
proof (induction xs)
  case (Cons c xs)
  have "\<not> (of_char c :: nat) < 32" "(of_char c :: nat) < 127" using Cons.prems [of c] by simp_all
  moreover have "\<not> has_control xs" using Cons by simp
  ultimately show ?case by (auto simp: Let_def)
qed simp

lemma show_nat_no_control: "\<not> has_control (show_nat i)"
  using show_nat_digits digit_no_control by (intro plain_no_control) blast

lemma show_nat_last: "(of_char (last (show_nat i)) :: nat) \<noteq> 0xC2"
  using digit_no_control [OF show_nat_digits [OF last_in_set [OF show_nat_not_Nil]], of i] by simp

lemma rsplit_once_Some:
  assumes "rsplit_once d s = Some (a, b)"
  shows "s = a @ d # b"
proof -
  from assms have "split_first d (rev s) = Some (rev b, rev a)" by (auto simp: rsplit_once_def)
  then have "rev s = rev b @ d # rev a" by (simp add: split_first_SomeD)
  then have "rev (rev s) = rev (rev b @ d # rev a)" by simp
  then show ?thesis by simp
qed

lemma stem_and_ext_parts:
  assumes "stem_and_ext name = (stem, e)"
  shows "name = stem @ (case e of None \<Rightarrow> [] | Some x \<Rightarrow> CHR ''.'' # x)"
  using assms
  by (auto simp: stem_and_ext_def split: if_splits option.splits prod.splits dest: rsplit_once_Some)

lemma numbered_safe:
  assumes "safe_file_name name"
  shows "safe_file_name (numbered_name name i)"
proof -
  obtain stem e where se: "stem_and_ext name = (stem, e)" by fastforce
  note name = stem_and_ext_parts [OF se]
  have slash: "CHR ''/'' \<notin> set (show_nat i)" by (rule not_digit_show_nat) (simp add: is_ascii_digit_def)
  define x where "x = (case e of None \<Rightarrow> [] | Some x \<Rightarrow> CHR ''.'' # x)"
  have n: "numbered_name name i = stem @ '' ('' @ show_nat i @ '')'' @ x"
    by (simp add: numbered_name_def se x_def split: option.split)
  have parts: "CHR ''/'' \<notin> set stem \<union> set x" "\<not> has_control stem" "\<not> has_control x"
    using assms name by (auto simp: safe_file_name_def has_control_append simp flip: x_def)
  have "CHR '' '' \<in> set (numbered_name name i)" by (simp add: n)
  then have "numbered_name name i \<noteq> []" "numbered_name name i \<noteq> ''.''" "numbered_name name i \<noteq> ''..''" by auto
  moreover have "CHR ''/'' \<notin> set (numbered_name name i) \<and> \<not> has_control (numbered_name name i)"
    using slash parts show_nat_no_control [of i]
    by (auto simp: n has_control_append)
  ultimately show ?thesis by (simp add: safe_file_name_def)
qed

lemma part_safe: "safe_file_name name \<Longrightarrow> safe_file_name (part_name name)"
  by (auto simp: safe_file_name_def part_name_def has_control_append append_eq_Cons_conv)

text \<open>
  A handler that has the directory to itself never damages a finished file. Whatever arrives on the
  file channel, and wherever the connection or the file system fails, a file whose name does not end in
  \<open>.part\<close> keeps its content.
\<close>

theorem transfer_preserves_files:
  assumes "files s n = Some c" and "\<not> is_part n"
  shows "files (snd (handle_transfer env s)) n = Some c"
proof (cases "files (snd (handle_transfer env s)) = files s")
  case False
  then obtain nm fsize digest where
    "transfer_outcome env nm fsize digest (files s) (files (snd (handle_transfer env s)))"
    by (rule handle_transfer_outcome)
  moreover have "n \<noteq> part_name nm" using assms(2) by auto
  ultimately show ?thesis using assms(1) by (auto simp: transfer_outcome_def)
qed (simp add: assms)

theorem transfer_preserves_files_witness:
  "files (snd (handle_transfer ex_transfer_env (ex_transfer_state [2, 3]))) ''b.txt'' = Some [9]"
  by (rule transfer_preserves_files) (simp_all add: ex_transfer_state_def is_part_def)

text \<open>
  C6: what is stored was offered by a paired device and verified. If a handler, on a directory that no
  other handler changes meanwhile, creates a file other than a partial one, the connection began with a pairing request of a paired device and an
  offer within the size limit, and the file has the offered size and SHA-256 digest.
\<close>

theorem stored_file_verified:
  assumes "files s n = None" and "files (snd (handle_transfer env s)) n = Some c"
    and "\<not> is_part n"
  shows "\<exists>nonce fp pf w s1 fid name fsize sha256 w'.
    read_envelope (te_de env) (t_stream s) = (Inr (PairRequest nonce fp pf), w) \<and>
    is_paired (t_config s) fp \<and>
    t_send env PairAccept (s\<lparr>t_stream := w\<rparr>) = (Inr (), s1) \<and>
    read_envelope (te_de env) (t_stream s1) = (Inr (FileOffer fid name fsize sha256), w') \<and>
    (max_file_size (t_config s) = 0 \<or> fsize \<le> max_file_size (t_config s)) \<and>
    te_sha env c = sha256 \<and> length c = unat fsize"
proof -
  have changed: "files (snd (handle_transfer env s)) \<noteq> files s" using assms(1,2) by auto
  then obtain nonce fp pf w s1 fid name fsize sha256 w' where
    r: "read_envelope (te_de env) (t_stream s) = (Inr (PairRequest nonce fp pf), w)"
      "is_paired (t_config s) fp" and snd: "t_send env PairAccept (s\<lparr>t_stream := w\<rparr>) = (Inr (), s1)"
    and o: "read_envelope (te_de env) (t_stream s1) = (Inr (FileOffer fid name fsize sha256), w')"
    and h: "handle_transfer env s = receive_offer env fid name fsize sha256 (s1\<lparr>t_stream := w'\<rparr>)"
    and out: "transfer_outcome env (sanitize_file_name name) (unat fsize) sha256
           (files s) (files (snd (handle_transfer env s)))"
    by (rule handle_transfer_outcome)
  have s1: "files s1 = files s" "t_config s1 = t_config s"
    using snd t_send_files [of env PairAccept "s\<lparr>t_stream := w\<rparr>"] by simp_all
  have "n \<noteq> part_name (sanitize_file_name name)" using assms(3) by auto
  with out assms(1,2) have "te_sha env c = sha256 \<and> length c = unat fsize"
    by (auto simp: transfer_outcome_def split: if_splits)
  moreover have "max_file_size (t_config s) = 0 \<or> fsize \<le> max_file_size (t_config s)"
  proof (rule ccontr)
    assume "\<not> ?thesis"
    then have "files (snd (handle_transfer env s)) = files s"
      unfolding h receive_offer_eq Let_def by (simp add: s1 not_le)
    with changed show False by simp
  qed
  ultimately show ?thesis using r snd o by blast
qed

theorem stored_file_verified_witness:
  "\<exists>c. files (snd (handle_transfer ex_transfer_env (ex_transfer_state [2, 3]))) ''a.txt'' = Some c \<and>
     (\<exists>nonce fp pf w. read_envelope bincode_de (t_stream (ex_transfer_state [2, 3])) = (Inr (PairRequest nonce fp pf), w) \<and>
        is_paired (t_config (ex_transfer_state [2, 3])) fp)"
proof -
  obtain s' where "handle_transfer ex_transfer_env (ex_transfer_state [2, 3]) = (Inr (), s')"
    "files s' ''a.txt'' = Some [1, 2, 3]" using ex_upload by blast
  then have c: "files (snd (handle_transfer ex_transfer_env (ex_transfer_state [2, 3]))) ''a.txt'' = Some [1, 2, 3]"
    by simp
  have "files (ex_transfer_state [2, 3]) ''a.txt'' = None" by (simp add: ex_transfer_state_def)
  from stored_file_verified [OF this c] have "\<exists>nonce fp pf w.
      read_envelope (te_de ex_transfer_env) (t_stream (ex_transfer_state [2, 3])) = (Inr (PairRequest nonce fp pf), w) \<and>
      is_paired (t_config (ex_transfer_state [2, 3])) fp"
    by (auto simp: is_part_def)
  with c show ?thesis by (simp add: ex_transfer_env_def)
qed

text \<open>
  An upload by a paired device completes, resumed or from the start. If the bytes that follow
  the offer continue the kept partial file to the offered file (nothing kept means they are the
  whole file), the handler stores it under a free name - its own, if that is free - removes the
  partial file, and has answered \<open>PairAccept\<close>, \<open>FileAccept\<close> with the kept length and
  \<open>FileComplete\<close>.
\<close>

theorem upload_completes:
  assumes "\<And>e bs. wf_envelope e \<Longrightarrow> te_ser env e = Some bs \<Longrightarrow> te_de env bs = Some e"
    and "wf_envelope (PairRequest nonce fp pf)" "wf_envelope (FileOffer fid name fsize sha256)"
    and "framed (te_ser env)
          [PairRequest nonce fp pf, FileOffer fid name fsize sha256, PairAccept,
           FileAccept fid (word_of_nat (length kept)), FileComplete fid] [b1, b2, b3, b4, b5]"
    and "is_paired (t_config s) fp"
    and "rx (t_stream s) = b1 @ b2 @ d @ extra" "tx_room (t_stream s) = None"
    and "resume_from (files s (part_name (sanitize_file_name name))) (unat fsize) = kept"
    and "data = kept @ d" "length data = unat fsize" "te_sha env data = sha256"
    and "max_file_size (t_config s) = 0 \<or> fsize \<le> max_file_size (t_config s)"
    and "te_dir_ok env" "te_open_ok env" "te_reopen_ok env" "te_rename_ok env" "length d \<le> te_quota env"
    and "finite (dom (files s))"
  shows "\<exists>n s'. handle_transfer env s = (Inr (), s') \<and> files s n = None \<and>
    (files s (sanitize_file_name name) = None \<longrightarrow> n = sanitize_file_name name) \<and>
    files s' = (files s)(part_name (sanitize_file_name name) := None, n \<mapsto> data) \<and>
    tx (t_stream s') = tx (t_stream s) @ b3 @ b4 @ b5"
  using assms by (rule upload_stores)

theorem upload_completes_witness:
  "\<exists>s'. handle_transfer ex_transfer_env (ex_transfer_state [2, 3]) = (Inr (), s') \<and>
     files s' ''a.txt'' = Some [1, 2, 3] \<and> files s' ''a.txt.part'' = None"
proof -
  have "files (ex_transfer_state [2, 3]) ''a.txt'' = None" by (simp add: ex_transfer_state_def)
  with upload_completes [OF ex_hyps(1) ex_hyps(2,3,4) [unfolded ex_request_def ex_offer_def] ex_hyps(5)
      ex_hyps(6) [unfolded ex_request_def ex_offer_def] ex_hyps(7-)]
  show ?thesis by (auto simp: ex_sanitize part_name_def)
qed

text \<open>
  An interrupted upload starts over. If the sender closes the connection before the offered
  size is reached, the handler returns normally and deletes the file named like the partial one,
  with what an earlier connection had left there - also if it was not a partial file at all but a
  finished one that was sent under a name ending in \<open>.part\<close>.
\<close>

theorem interrupted_upload_discards:
  assumes "\<And>e bs. wf_envelope e \<Longrightarrow> te_ser env e = Some bs \<Longrightarrow> te_de env bs = Some e"
    and "wf_envelope (PairRequest nonce fp pf)" "wf_envelope (FileOffer fid name fsize sha256)"
    and "framed (te_ser env)
          [PairRequest nonce fp pf, FileOffer fid name fsize sha256, PairAccept,
           FileAccept fid (word_of_nat (length kept))] [b1, b2, b3, b4]"
    and "is_paired (t_config s) fp"
    and "rx (t_stream s) = b1 @ b2 @ d" "tx_room (t_stream s) = None" "ending s = Closed"
    and "resume_from (files s (part_name (sanitize_file_name name))) (unat fsize) = kept"
    and "length kept + length d < unat fsize"
    and "max_file_size (t_config s) = 0 \<or> fsize \<le> max_file_size (t_config s)"
    and "te_dir_ok env" "te_open_ok env" "te_remove_ok env" "length d \<le> te_quota env"
  shows "fst (handle_transfer env s) = Inr () \<and>
    files (snd (handle_transfer env s)) = (files s)(part_name (sanitize_file_name name) := None)"
proof -
  define nm where "nm = sanitize_file_name name"
  define s1 where "s1 = s\<lparr>files := (files s)(part_name nm \<mapsto> kept),
      t_stream := (t_stream s)\<lparr>rx := d, tx := tx (t_stream s) @ b3 @ b4\<rparr>\<rparr>"
  have codec: "envelope_codec (te_ser env) (te_de env)" using assms(1) by unfold_locales
  from assms(4) have b: "framed (te_ser env) [PairRequest nonce fp pf, FileOffer fid name fsize sha256, PairAccept] [b1, b2, b3]"
    "serialize_envelope (te_ser env) (FileAccept fid (word_of_nat (length kept))) = Inr b4" by simp_all
  have "handle_transfer env s = receive_offer env fid name fsize sha256
    (s\<lparr>t_stream := (t_stream s)\<lparr>rx := d, tx := tx (t_stream s) @ b3\<rparr>\<rparr>)"
    by (rule handle_transfer_offered [OF codec assms(2,3) b(1) assms(5,6,7)])
  also have "\<dots> = after_accept env fid nm (unat fsize) sha256 (length kept) s1"
    using assms(7,9-13) b(2)
    by (auto simp: receive_offer_eq Let_def seqM_apply t_send_ok not_less s1_def nm_def)
  finally have h: "handle_transfer env s = after_accept env fid nm (unat fsize) sha256 (length kept) s1" .
  have s1: "files s1 (part_name nm) = Some kept" "length kept + length (rx (t_stream s1)) < unat fsize"
    "length (rx (t_stream s1)) \<le> te_quota env" "ending s1 = Closed"
    using assms by (simp_all add: s1_def)
  from after_accept_interrupted [OF s1 assms(14)] show ?thesis
    unfolding h nm_def [symmetric] by (simp add: s1_def)
qed

theorem interrupted_upload_discards_witness:
  "files (ex_transfer_state [2]) ''a.txt.part'' = Some [1] \<and>
   files (snd (handle_transfer ex_transfer_env (ex_transfer_state [2]))) ''a.txt.part'' = None"
proof -
  let ?s = "ex_transfer_state [2]"
  note ex = ex_transfer_env_def ex_transfer_state_def
  have same: "t_config ?s = t_config (ex_transfer_state [2, 3])" "files ?s = files (ex_transfer_state [2, 3])"
    by (simp_all add: ex)
  have "framed (te_ser ex_transfer_env) [ex_request, ex_offer, PairAccept, FileAccept 1 (word_of_nat (length [1 :: u8]))]
       [frame_of ex_request, frame_of ex_offer, frame_of PairAccept, frame_of (FileAccept 1 1)]"
    using ex_hyps(4) by simp
  note f = this [unfolded ex_request_def ex_offer_def]
  have "rx (t_stream ?s) = frame_of ex_request @ frame_of ex_offer @ [2]" by (simp add: ex)
  note r = this [unfolded ex_request_def ex_offer_def]
  have "files (snd (handle_transfer ex_transfer_env ?s)) = (files ?s)(part_name (sanitize_file_name ''a.txt'') := None)"
    using interrupted_upload_discards [OF ex_hyps(1) ex_hyps(2,3) [unfolded ex_request_def ex_offer_def] f
        ex_hyps(5) [folded same] r _ _ ex_hyps(8) [folded same] _ ex_hyps(12) [folded same] ex_hyps(13,14)]
    by (simp add: ex)
  then show ?thesis by (simp add: ex_sanitize part_name_def) (simp add: ex)
qed

end
