(* ===== verification/FileSend.thy ===== *)
theory FileSend
  imports FileTransfer Session
begin

text \<open>
  \<^verbatim>\<open>client/src/file_transfer.rs\<close>: sending a file, and the two ends of the file channel together.
  The local file is what the calls on its path return, one field per call, since the file may
  change between them. A read that returns less than the buffer only changes how often progress
  is reported.
\<close>

section \<open>The sender\<close>

datatype send_error =
    IsDirectory
  | NoFileName
  | StatFailed
  | SendTcpFailed
  | SendTlsFailed
  | SProto protocol_error
  | ChannelRejected string
  | UnexpectedOnChannel envelope
  | FileOpenFailed
  | FileReadFailed
  | OfferRejected string
  | UnexpectedAnswer envelope
  | ServerTransferError string

record local_file =
  lf_path :: string
  lf_is_dir :: bool
  lf_len :: "u64 option"
  lf_hashed :: "bytes option"
  lf_sent :: "bytes option"
  lf_read_ok :: bool

record send_state =
  sf_stream :: wire
  sf_progress :: "(u64 \<times> u64) list"

definition sf_send :: "client_env \<Rightarrow> envelope \<Rightarrow> (send_state, send_error, unit) io" where
  "sf_send env e = (\<lambda>s. case send_envelope (ce_ser env) e (sf_stream s) of
      (Inr u, w) \<Rightarrow> (Inr u, s\<lparr>sf_stream := w\<rparr>)
    | (Inl err, w) \<Rightarrow> (Inl (SProto err), s\<lparr>sf_stream := w\<rparr>))"

definition sf_read :: "client_env \<Rightarrow> (send_state, send_error, envelope) io" where
  "sf_read env = (\<lambda>s. case read_envelope (ce_de env) (sf_stream s) of
      (Inr e, w) \<Rightarrow> (Inr e, s\<lparr>sf_stream := w\<rparr>)
    | (Inl err, w) \<Rightarrow> (Inl (SProto err), s\<lparr>sf_stream := w\<rparr>))"

definition BUFFER_SIZE :: nat where
  "BUFFER_SIZE = 65536"

text \<open>The loop that reads the file and writes it to the stream, with the progress channel if any.\<close>

function send_chunks :: "bool \<Rightarrow> u64 \<Rightarrow> u64 \<Rightarrow> bytes \<Rightarrow> (send_state, send_error, unit) io" where
  "send_chunks report sent fsize content s =
     (if content = [] then (Inr (), s)
      else
        (let n = min BUFFER_SIZE (length content); sent' = sent + word_of_nat n in
         (case write_all (take n content) (sf_stream s) of
            (Inl e, w) \<Rightarrow> (Inl (SProto e), s\<lparr>sf_stream := w\<rparr>)
          | (Inr _, w) \<Rightarrow>
              send_chunks report sent' fsize (drop n content)
                (s\<lparr>sf_stream := w,
                   sf_progress := sf_progress s @ (if report then [(sent', fsize)] else [])\<rparr>))))"
  by pat_completeness auto
termination
  by (relation "measure (\<lambda>(rep, sent, fsize, content, s). length content)") (auto simp: BUFFER_SIZE_def)

declare send_chunks.simps [simp del]

text \<open>Reading the whole file: the opened content, or the error of the open or of a read.\<close>

definition whole_file :: "bytes option \<Rightarrow> (send_state, send_error, bytes) io" where
  "whole_file c = (case c of None \<Rightarrow> bail FileOpenFailed | Some content \<Rightarrow> ret content)"

definition channel_answer :: "envelope \<Rightarrow> (send_state, send_error, unit) io" where
  "channel_answer e =
     (case e of
        PairAccept \<Rightarrow> ret ()
      | PairReject reason \<Rightarrow> bail (ChannelRejected reason)
      | _ \<Rightarrow> bail (UnexpectedOnChannel e))"

definition offer_answer :: "envelope \<Rightarrow> (send_state, send_error, u64) io" where
  "offer_answer e =
     (case e of
        FileAccept _ start_offset \<Rightarrow> ret start_offset
      | FileReject _ reason \<Rightarrow> bail (OfferRejected reason)
      | _ \<Rightarrow> bail (UnexpectedAnswer e))"

definition final_answer :: "envelope \<Rightarrow> (send_state, send_error, unit) io" where
  "final_answer e =
     (case e of
        FileComplete _ \<Rightarrow> ret ()
      | FileReject _ reason \<Rightarrow> bail (OfferRejected reason)
      | ErrorMsg msg \<Rightarrow> bail (ServerTransferError msg)
      | _ \<Rightarrow> bail (UnexpectedAnswer e))"

definition send_data :: "bool \<Rightarrow> u64 \<Rightarrow> u64 \<Rightarrow> local_file \<Rightarrow> (send_state, send_error, unit) io" where
  "send_data report start_offset fsize f =
     bindM (whole_file (lf_sent f)) (\<lambda>content.
     seqM (send_chunks report start_offset fsize (drop (unat start_offset) content))
       (if lf_read_ok f then ret () else bail FileReadFailed))"

definition send_on_channel ::
    "client_env \<Rightarrow> uuid \<Rightarrow> bool \<Rightarrow> string \<Rightarrow> u64 \<Rightarrow> local_file \<Rightarrow> client_config \<Rightarrow>
     (send_state, send_error, unit) io" where
  "send_on_channel env fid report file_name fsize f config =
     (let fingerprint = client_fingerprint (ce_sha env) config;
          pf = pairing_proof (ce_sha env) [] (ce_nonce env) fingerprint
      in seqM (sf_send env (PairRequest (ce_nonce env) fingerprint pf))
          (bindM (sf_read env) (\<lambda>answer.
           seqM (channel_answer answer)
            (bindM (whole_file (lf_hashed f)) (\<lambda>hashed.
             seqM (sf_send env (FileOffer fid file_name fsize (ce_sha env hashed)))
              (bindM (sf_read env) (\<lambda>accept.
               bindM (offer_answer accept) (\<lambda>start_offset.
               seqM (send_data report start_offset fsize f)
                (bindM (sf_read env) final_answer)))))))))"

definition file_fingerprint :: "connect_options \<Rightarrow> client_config \<Rightarrow> string \<Rightarrow> u16 \<Rightarrow> string option" where
  "file_fingerprint opts config host port =
     or_else (co_expected_fingerprint opts) (known_fingerprint config (format_host_port host port))"

definition send_file ::
    "client_env \<Rightarrow> uuid \<Rightarrow> bool \<Rightarrow> string \<Rightarrow> u16 \<Rightarrow> local_file \<Rightarrow> client_config \<Rightarrow> connect_options \<Rightarrow> peer \<Rightarrow>
     (send_error + unit) \<times> send_state" where
  "send_file env fid report host port f config opts p =
     (let untouched = \<lparr>sf_stream = peer_stream p, sf_progress = []\<rparr> in
      if lf_is_dir f then (Inl IsDirectory, untouched)
      else (case path_file_name (lf_path f) of
              None \<Rightarrow> (Inl NoFileName, untouched)
            | Some file_name \<Rightarrow>
                (case lf_len f of
                   None \<Rightarrow> (Inl StatFailed, untouched)
                 | Some fsize \<Rightarrow>
                     if \<not> peer_tcp_ok p then (Inl SendTcpFailed, untouched)
                     else (case tls_connect env (file_fingerprint opts config host port) p of
                             Inl _ \<Rightarrow> (Inl SendTlsFailed, untouched)
                           | Inr _ \<Rightarrow> send_on_channel env fid report file_name fsize f config untouched))))"

section \<open>The sender's loop sends the rest of the file\<close>

lemma send_chunks_sends:
  "tx_room (sf_stream s) = None \<Longrightarrow>
   \<exists>ps. send_chunks report sent fsize content s =
     (Inr (), s\<lparr>sf_stream := (sf_stream s)\<lparr>tx := tx (sf_stream s) @ content\<rparr>, sf_progress := sf_progress s @ ps\<rparr>) \<and>
     (report \<longrightarrow> content \<noteq> [] \<longrightarrow> ps \<noteq> [] \<and> last ps = (sent + word_of_nat (length content), fsize)) \<and>
     (content = [] \<longrightarrow> ps = [])"
proof (induction report sent fsize content s rule: send_chunks.induct)
  case (1 report sent fsize content s)
  show ?case
  proof (cases "content = []")
    case True
    then show ?thesis by (intro exI [of _ "[]"]) (simp add: send_chunks.simps)
  next
    case False
    define n where "n = min BUFFER_SIZE (length content)"
    define s1 where "s1 = s\<lparr>sf_stream := (sf_stream s)\<lparr>tx := tx (sf_stream s) @ take n content\<rparr>,
      sf_progress := sf_progress s @ (if report then [(sent + word_of_nat n, fsize)] else [])\<rparr>"
    have w: "write_all (take n content) (sf_stream s) = (Inr (), (sf_stream s)\<lparr>tx := tx (sf_stream s) @ take n content\<rparr>)"
      using "1.prems" by (simp add: write_all_def)
    have step: "send_chunks report sent fsize content s =
        send_chunks report (sent + word_of_nat n) fsize (drop n content) s1"
      using False w by (subst send_chunks.simps) (simp add: Let_def n_def [symmetric] s1_def)
    have "tx_room (sf_stream s1) = None" using "1.prems" by (simp add: s1_def)
    then obtain ps where
      ps: "send_chunks report (sent + word_of_nat n) fsize (drop n content) s1 =
        (Inr (), s1\<lparr>sf_stream := (sf_stream s1)\<lparr>tx := tx (sf_stream s1) @ drop n content\<rparr>, sf_progress := sf_progress s1 @ ps\<rparr>)"
      and final: "report \<longrightarrow> drop n content \<noteq> [] \<longrightarrow> ps \<noteq> [] \<and>
        last ps = (sent + word_of_nat n + word_of_nat (length (drop n content)), fsize)"
      and quiet: "drop n content = [] \<longrightarrow> ps = []"
      using "1.IH" [OF False n_def refl w [symmetric] refl] unfolding s1_def by blast
    have total: "word_of_nat n + word_of_nat (length (drop n content)) = (word_of_nat (length content) :: u64)"
      by (simp add: n_def flip: of_nat_add)
    show ?thesis
    proof (intro exI conjI impI)
      show "send_chunks report sent fsize content s =
        (Inr (), s\<lparr>sf_stream := (sf_stream s)\<lparr>tx := tx (sf_stream s) @ content\<rparr>,
          sf_progress := sf_progress s @ ((if report then [(sent + word_of_nat n, fsize)] else []) @ ps)\<rparr>)"
        unfolding step ps by (simp add: s1_def)
      assume "report"
      then show "last ((if report then [(sent + word_of_nat n, fsize)] else []) @ ps) =
          (sent + word_of_nat (length content), fsize)"
        using final quiet total by (cases "drop n content = []") (auto simp: add.assoc)
    qed (use False in simp_all)
  qed
qed

lemma sf_send_ok:
  assumes "serialize_envelope (ce_ser env) e = Inr b" and "tx_room (sf_stream s) = None"
  shows "sf_send env e s = (Inr (), s\<lparr>sf_stream := (sf_stream s)\<lparr>tx := tx (sf_stream s) @ b\<rparr>\<rparr>)"
  using assms by (simp add: sf_send_def send_envelope_def bindM_def liftR_def write_all_def)

lemma sf_read_ok:
  assumes "envelope_codec (ce_ser env) (ce_de env)" and "wf_envelope e"
    and "serialize_envelope (ce_ser env) e = Inr b" and "rx (sf_stream s) = b @ rest"
  shows "sf_read env s = (Inr e, s\<lparr>sf_stream := (sf_stream s)\<lparr>rx := rest\<rparr>\<rparr>)"
  by (simp add: sf_read_def envelope_codec.read_serialized [OF assms])

text \<open>A conversation in which the server accepts and completes.\<close>

lemma send_on_channel_completes:
  assumes codec: "envelope_codec (ce_ser env) (ce_de env)"
    and frames: "framed (ce_ser env)
      [PairRequest (ce_nonce env) (client_fingerprint (ce_sha env) config)
         (pairing_proof (ce_sha env) [] (ce_nonce env) (client_fingerprint (ce_sha env) config)),
       FileOffer fid name fsize (ce_sha env content), PairAccept, FileAccept fid start_offset, FileComplete fid]
      [b1, b2, b3, b4, b5]"
    and local: "lf_hashed f = Some content" "lf_sent f = Some content" "lf_read_ok f"
    and stream: "sf_stream s = \<lparr>rx = b3 @ b4 @ b5, tx = [], tx_room = None\<rparr>"
  shows "\<exists>s'. send_on_channel env fid report name fsize f config s = (Inr (), s') \<and>
    tx (sf_stream s') = b1 @ b2 @ drop (unat start_offset) content"
proof -
  note b = frames [simplified]
  have wf: "wf_envelope PairAccept" "wf_envelope (FileAccept fid start_offset)" "wf_envelope (FileComplete fid)"
    by (simp_all add: wf_envelope_def)
  obtain s1 where data: "send_data report start_offset fsize f
      (s\<lparr>sf_stream := \<lparr>rx = b5, tx = b1 @ b2, tx_room = None\<rparr>\<rparr>) = (Inr (), s1)"
    and s1: "sf_stream s1 = \<lparr>rx = b5, tx = b1 @ b2 @ drop (unat start_offset) content, tx_room = None\<rparr>"
    using send_chunks_sends [of "s\<lparr>sf_stream := \<lparr>rx = b5, tx = b1 @ b2, tx_room = None\<rparr>\<rparr>" report start_offset fsize
        "drop (unat start_offset) content"] local
    by (auto simp: send_data_def whole_file_def bindM_apply seqM_apply ret_apply)
  show ?thesis
    using b local(1) wf
    by (simp add: send_on_channel_def Let_def seqM_apply bindM_apply stream sf_send_ok
        sf_read_ok [OF codec wf(1)] sf_read_ok [OF codec wf(2)] sf_read_ok [OF codec wf(3), where rest = "[]"]
        channel_answer_def offer_answer_def final_answer_def ret_apply whole_file_def data s1)
qed

lemma tls_connect_accepts:
  assumes "req \<in> {None, Some (fingerprint_der (ce_sha env) (peer_cert p))}" and "peer_tls_error p = None"
  shows "\<exists>fp. tls_connect env req p = Inr fp"
  using assms
  by (auto simp: tls_connect_def verify_server_cert_def verifier_new_def Let_def fingerprint_upper fingerprint_match_iff)

lemma tls_connect_stream [simp]: "tls_connect env req (p\<lparr>peer_stream := w\<rparr>) = tls_connect env req p"
  unfolding tls_connect_def by (simp split: prod.split sum.split tls_error.split)

section \<open>Properties\<close>

text \<open>
  Files go to the server that was connected to. After a successful connection, sending a file
  to the file port of that session, without an explicit fingerprint, fails before a byte is sent
  if the peer there has a certificate of another digest than the one seen on the control channel.
\<close>

theorem file_channel_pinned:
  assumes "parse_host_port addr DEFAULT_CONTROL_PORT = Inr (host, port)"
    and "connect env addr opts p config = (Inr si, config')"
    and "co_expected_fingerprint opts' = None"
    and "ce_sha env (peer_cert q) \<noteq> ce_sha env (peer_cert p)"
    and "path_file_name (lf_path f) = Some name" "\<not> lf_is_dir f" "lf_len f = Some fsize" "peer_tcp_ok q"
  shows "send_file env fid report host (si_file_port si) f config' opts' q =
    (Inl SendTlsFailed, \<lparr>sf_stream = peer_stream q, sf_progress = []\<rparr>)"
proof -
  have "known_fingerprint config' (format_host_port host (si_file_port si)) =
      Some (fingerprint_der (ce_sha env) (peer_cert p))"
    by (rule connect_pins [OF assms(1,2)]) simp
  then have "file_fingerprint opts' config' host (si_file_port si) = Some (fingerprint_der (ce_sha env) (peer_cert p))"
    using assms(3) by (simp add: file_fingerprint_def or_else_def)
  with tls_connect_pinned [OF assms(4)] show ?thesis
    using assms(5-8) by (auto simp: send_file_def Let_def)
qed

text \<open>
  C7: a file sent is the file received. For a paired client, a certificate that agrees with the
  pin, and a file that does not change while it is sent, there is a conversation of the sender and
  the server's handler - each reading exactly what the other wrote - that both end successfully
  and after which the server has the file under a name that was free; a partial file that is a
  beginning of it is continued, not sent again.
\<close>

theorem file_delivered:
  assumes "\<And>e bs. wf_envelope e \<Longrightarrow> ce_ser cenv e = Some bs \<Longrightarrow> ce_de cenv bs = Some e"
    and same: "te_ser env = ce_ser cenv" "te_de env = ce_de cenv" "te_sha env = ce_sha cenv"
    and lens: "length (ce_nonce cenv) = 16" "\<And>m. length (ce_sha cenv m) = 32"
    and local: "path_file_name (lf_path f) = Some name" "\<not> lf_is_dir f" "lf_read_ok f"
      "lf_len f = Some (word_of_nat (length content))" "lf_hashed f = Some content" "lf_sent f = Some content"
      "length content < 2 ^ 64"
    and paired: "is_paired (t_config s) (client_fingerprint (ce_sha cenv) config)"
    and kept: "resume_from (files s (part_name (sanitize_file_name name))) (length content) = take k content"
      "k \<le> length content"
    and frames: "framed (ce_ser cenv)
      [PairRequest (ce_nonce cenv) (client_fingerprint (ce_sha cenv) config)
         (pairing_proof (ce_sha cenv) [] (ce_nonce cenv) (client_fingerprint (ce_sha cenv) config)),
       FileOffer fid name (word_of_nat (length content)) (ce_sha cenv content), PairAccept,
       FileAccept fid (word_of_nat k), FileComplete fid]
      [b1, b2, b3, b4, b5]"
    and peer: "peer_tcp_ok p" "peer_tls_error p = None"
      "file_fingerprint opts config host port \<in> {None, Some (fingerprint_der (ce_sha cenv) (peer_cert p))}"
    and limit: "max_file_size (t_config s) = 0 \<or> word_of_nat (length content) \<le> max_file_size (t_config s)"
    and ok: "te_dir_ok env" "te_open_ok env" "te_reopen_ok env" "te_rename_ok env" "length content \<le> te_quota env"
    and fin: "finite (dom (files s))"
  shows "\<exists>sent replies cs s' n.
    send_file cenv fid report host port f config opts (p\<lparr>peer_stream := \<lparr>rx = replies, tx = [], tx_room = None\<rparr>\<rparr>) = (Inr (), cs) \<and>
    tx (sf_stream cs) = sent \<and>
    handle_transfer env (s\<lparr>t_stream := \<lparr>rx = sent, tx = [], tx_room = None\<rparr>\<rparr>) = (Inr (), s') \<and>
    tx (t_stream s') = replies \<and> files s n = None \<and>
    files s' = (files s)(part_name (sanitize_file_name name) := None, n \<mapsto> content)"
proof -
  let ?fp = "client_fingerprint (ce_sha cenv) config"
  let ?pf = "pairing_proof (ce_sha cenv) [] (ce_nonce cenv) ?fp"
  let ?size = "word_of_nat (length content) :: u64"
  have size: "unat ?size = length content" and k: "unat (word_of_nat k :: u64) = k"
    using local(7) kept(2) by (simp_all add: unat_of_nat)
  have codec: "envelope_codec (ce_ser cenv) (ce_de cenv)" using assms(1) by unfold_locales
  have law: "\<And>e bs. wf_envelope e \<Longrightarrow> te_ser env e = Some bs \<Longrightarrow> te_de env bs = Some e"
    using assms(1) by (simp add: same)
  have wf: "wf_envelope (PairRequest (ce_nonce cenv) ?fp ?pf)" "wf_envelope (FileOffer fid name ?size (ce_sha cenv content))"
    using lens by (simp_all add: wf_envelope_def pairing_proof_def)
  obtain cs where cs: "send_on_channel cenv fid report name ?size f config
      \<lparr>sf_stream = \<lparr>rx = b3 @ b4 @ b5, tx = [], tx_room = None\<rparr>, sf_progress = []\<rparr> = (Inr (), cs)"
    "tx (sf_stream cs) = b1 @ b2 @ drop k content"
    using send_on_channel_completes [OF codec frames local(5,6,3), where s = "\<lparr>sf_stream = \<lparr>rx = b3 @ b4 @ b5, tx = [], tx_room = None\<rparr>, sf_progress = []\<rparr>"]
      k by auto
  obtain fp where "tls_connect cenv (file_fingerprint opts config host port) p = Inr fp"
    using tls_connect_accepts [OF peer(3,2)] by blast
  then have sent: "send_file cenv fid report host port f config opts
      (p\<lparr>peer_stream := \<lparr>rx = b3 @ b4 @ b5, tx = [], tx_room = None\<rparr>\<rparr>) = (Inr (), cs)"
    using local peer cs by (simp add: send_file_def Let_def)
  let ?s = "s\<lparr>t_stream := \<lparr>rx = b1 @ b2 @ drop k content, tx = [], tx_room = None\<rparr>\<rparr>"
  have "\<exists>n s'. handle_transfer env ?s = (Inr (), s') \<and> files ?s n = None \<and>
    (files ?s (sanitize_file_name name) = None \<longrightarrow> n = sanitize_file_name name) \<and>
    files s' = (files ?s)(part_name (sanitize_file_name name) := None, n \<mapsto> content) \<and>
    tx (t_stream s') = tx (t_stream ?s) @ b3 @ b4 @ b5"
    by (rule upload_stores [OF law wf, where kept = "take k content" and d = "drop k content" and extra = "[]"])
      (use frames paired kept limit ok fin size same in \<open>simp_all add: min_absorb2\<close>)
  then obtain n s' where "handle_transfer env ?s = (Inr (), s')" "files ?s n = None"
    "files s' = (files ?s)(part_name (sanitize_file_name name) := None, n \<mapsto> content)"
    "tx (t_stream s') = tx (t_stream ?s) @ b3 @ b4 @ b5" by (elim exE conjE)
  then show ?thesis
    using sent cs(2)
    by (intro exI [of _ "b1 @ b2 @ drop k content"] exI [of _ "b3 @ b4 @ b5"] exI [of _ cs] exI [of _ s'] exI [of _ n]) simp
qed

definition ex_sender :: client_env where
  "ex_sender = \<lparr>ce_hostname = None, ce_env_pin = None, ce_secret = [], ce_nonce = replicate 16 0, ce_now = 0,
     ce_sha = pad32, ce_ser = bincode_ser, ce_de = bincode_de\<rparr>"

definition ex_file :: local_file where
  "ex_file = \<lparr>lf_path = ''/home/me/a.txt'', lf_is_dir = False, lf_len = Some 3, lf_hashed = Some [1, 2, 3],
     lf_sent = Some [1, 2, 3], lf_read_ok = True\<rparr>"

definition ex_receiver :: transfer_state where
  "ex_receiver = (ex_transfer_state [])\<lparr>t_config := add_paired_device 0 (client_fingerprint pad32 client_config_default) ''me''
     (server_config_default None None None)\<rparr>"

lemma ex_path: "path_file_name ''/home/me/a.txt'' = Some ''a.txt''"
  by code_simp

lemma ex_kept: "resume_from (files ex_receiver (part_name (sanitize_file_name ''a.txt''))) (length [1 :: u8, 2, 3]) = take 1 [1, 2, 3]"
  by (simp add: ex_receiver_def ex_transfer_state_def ex_sanitize part_name_def resume_from_def)

theorem file_delivered_witness:
  "\<exists>sent replies cs s' n.
    send_file ex_sender 1 True ''nas'' 4001 ex_file client_config_default ex_opts
      (ex_peer\<lparr>peer_stream := \<lparr>rx = replies, tx = [], tx_room = None\<rparr>\<rparr>) = (Inr (), cs) \<and>
    tx (sf_stream cs) = sent \<and>
    handle_transfer ex_transfer_env (ex_receiver\<lparr>t_stream := \<lparr>rx = sent, tx = [], tx_room = None\<rparr>\<rparr>) = (Inr (), s') \<and>
    tx (t_stream s') = replies \<and> files s' n = Some [1, 2, 3]"
proof -
  let ?fp = "client_fingerprint (ce_sha ex_sender) client_config_default"
  let ?req = "PairRequest (ce_nonce ex_sender) ?fp (pairing_proof (ce_sha ex_sender) [] (ce_nonce ex_sender) ?fp)"
  let ?offer = "FileOffer 1 ''a.txt'' (word_of_nat (length [1 :: u8, 2, 3])) (ce_sha ex_sender [1, 2, 3])"
  have frames: "framed (ce_ser ex_sender) [?req, ?offer, PairAccept, FileAccept 1 (word_of_nat 1), FileComplete 1]
      [frame_of ?req, frame_of ?offer, frame_of PairAccept, frame_of (FileAccept 1 (word_of_nat 1)), frame_of (FileComplete 1)]"
    by (simp add: ex_sender_def frame_of_def serialize_envelope_def bincode_ser_def client_fingerprint_def
      MAX_ENVELOPE_SIZE_def tag_def enc_word_def enc_string_def pairing_proof_def Let_def)
  note ex = ex_sender_def ex_transfer_env_def ex_file_def ex_receiver_def ex_transfer_state_def ex_peer_def ex_opts_def
  have "\<exists>sent replies cs s' n.
    send_file ex_sender 1 True ''nas'' 4001 ex_file client_config_default ex_opts
      (ex_peer\<lparr>peer_stream := \<lparr>rx = replies, tx = [], tx_room = None\<rparr>\<rparr>) = (Inr (), cs) \<and>
    tx (sf_stream cs) = sent \<and>
    handle_transfer ex_transfer_env (ex_receiver\<lparr>t_stream := \<lparr>rx = sent, tx = [], tx_room = None\<rparr>\<rparr>) = (Inr (), s') \<and>
    tx (t_stream s') = replies \<and> files ex_receiver n = None \<and>
    files s' = (files ex_receiver)(part_name (sanitize_file_name ''a.txt'') := None, n \<mapsto> [1, 2, 3])"
    by (rule file_delivered [OF _ _ _ _ _ _ _ _ _ _ _ _ _ _ ex_kept _ frames])
      (simp_all add: ex ex_path bincode.de_ser is_paired_def add_paired_device_def server_config_default_def Let_def
        file_fingerprint_def or_else_def known_fingerprint_def client_config_default_def)
  then show ?thesis by (elim exE conjE, intro exI conjI) (assumption+, simp only:, rule fun_upd_same)
qed

theorem file_channel_pinned_witness:
  "\<exists>si config'. connect ex_client_env ''nas'' ex_opts ex_peer client_config_default = (Inr si, config') \<and>
     fst (send_file ex_client_env 1 False ''nas'' (si_file_port si) ex_file config' ex_opts (ex_peer\<lparr>peer_cert := [8]\<rparr>)) =
       Inl SendTlsFailed"
proof -
  obtain si config' where c: "connect ex_client_env ''nas'' ex_opts ex_peer client_config_default = (Inr si, config')"
    using ex_connect by blast
  have "send_file ex_client_env 1 False ''nas'' (si_file_port si) ex_file config' ex_opts (ex_peer\<lparr>peer_cert := [8]\<rparr>) =
      (Inl SendTlsFailed, \<lparr>sf_stream = peer_stream (ex_peer\<lparr>peer_cert := [8]\<rparr>), sf_progress = []\<rparr>)"
    by (rule file_channel_pinned [OF ex_parse c])
      (simp_all add: ex_opts_def ex_file_def ex_path ex_peer_def ex_client_env_def pad32_def)
  with c show ?thesis by auto
qed

end
