(* ===== verification/Reconnect.thy ===== *)
theory Reconnect
  imports Session
begin

text \<open>
  \<open>run_with_reconnect\<close> of \<^verbatim>\<open>client/src/session.rs\<close>: load the configuration, connect, save, run the
  session, wait, and again. What happens during one turn of the loop (the peer that answers, the
  inputs of the session, whether the file can be written, when the caller cancels) is a \<open>turn\<close>; a
  run is a list of turns, and it is \<open>StillTrying\<close> when the list ends before the loop does.
\<close>

section \<open>The loop\<close>

record turn =
  tn_cancelled_at_start :: bool
  tn_env :: client_env
  tn_peer :: peer
  tn_dir_ok :: bool
  tn_write_ok :: bool
  tn_injector_error :: "string option"
  tn_start :: millis
  tn_inputs :: "session_input list"
  tn_cancel_before_wait :: bool
  tn_cancel_in_wait :: bool

record loop_env =
  le_platform :: platform
  le_from_toml :: "string \<Rightarrow> client_config option"
  le_to_toml :: "client_config \<Rightarrow> string option"
  le_error_text :: "connect_error \<Rightarrow> string"

definition MAX_BACKOFF :: millis where
  "MAX_BACKOFF = 30000"

datatype reconnect_end = CancelledOk | FatalEnd connect_error | StillTrying

text \<open>
  What a run leaves behind: the waits, the events, the configuration files, how it ended, and the
  sessions that were established, each with whether the configuration could be saved for it.
\<close>

record loop_log =
  waits :: "millis list"
  loop_events :: "session_event list"
  loop_files :: config_files
  loop_end :: reconnect_end
  sessions :: "(session_info \<times> bool) list"

text \<open>\<open>Session::run\<close> from its start, with an injector that may be unavailable: the events it emits.\<close>

definition run_session :: "loop_env \<Rightarrow> turn \<Rightarrow> session_info \<Rightarrow> session_event list" where
  "run_session le t si =
     (case tn_injector_error t of
        Some e \<Rightarrow>
          [SE_Connected (si_server_name si) (si_fingerprint si), SE_Error (''input injection unavailable: '' @ e)]
      | None \<Rightarrow>
          session_events (session_run (le_platform le) (ce_ser (tn_env t)) (ce_de (tn_env t)) (tn_inputs t)
            (session_start si (tn_start t) (si_stream si))))"

definition is_fatal :: "connect_error \<Rightarrow> bool" where
  "is_fatal e = (case e of Fatal _ \<Rightarrow> True | _ \<Rightarrow> False)"

definition report_error :: "loop_env \<Rightarrow> connect_error \<Rightarrow> session_event" where
  "report_error le e = SE_Error (case e of Fatal msg \<Rightarrow> msg | _ \<Rightarrow> le_error_text le e)"

definition after_turn :: "session_event list \<Rightarrow> (session_info \<times> bool) list \<Rightarrow> loop_log \<Rightarrow> loop_log" where
  "after_turn evs ss l = l\<lparr>loop_events := evs @ loop_events l, sessions := ss @ sessions l\<rparr>"

definition stopped :: "reconnect_end \<Rightarrow> config_files \<Rightarrow> loop_log" where
  "stopped r fs = \<lparr>waits = [], loop_events = [], loop_files = fs, loop_end = r, sessions = []\<rparr>"

text \<open>The end of a turn: cancelled before or during the wait, or the rest of the run after it.\<close>

definition wait_turn :: "turn \<Rightarrow> millis \<Rightarrow> config_files \<Rightarrow> loop_log \<Rightarrow> loop_log" where
  "wait_turn t backoff fs rest =
     (if tn_cancel_before_wait t then stopped CancelledOk fs
      else if tn_cancel_in_wait t then (stopped CancelledOk fs)\<lparr>waits := [backoff]\<rparr>
      else rest\<lparr>waits := backoff # waits rest\<rparr>)"

definition next_backoff :: "millis \<Rightarrow> millis" where
  "next_backoff backoff = min (backoff * 2) MAX_BACKOFF"

fun reconnect ::
    "loop_env \<Rightarrow> string \<Rightarrow> connect_options \<Rightarrow> millis \<Rightarrow> turn list \<Rightarrow> config_files \<Rightarrow> loop_log" where
  "reconnect le addr opts backoff [] fs = stopped StillTrying fs"
| "reconnect le addr opts backoff (t # ts) fs =
     (if tn_cancelled_at_start t then stopped CancelledOk fs
      else
        (case client_load_or_default (le_from_toml le) fs of
           (config, fs1) \<Rightarrow>
             (case connect (tn_env t) addr opts (tn_peer t) config of
                (Inr si, config') \<Rightarrow>
                  (case client_save (le_to_toml le) (tn_dir_ok t) (tn_write_ok t) config' fs1 of
                     (saved, fs2) \<Rightarrow>
                       after_turn (run_session le t si) [(si, saved)]
                         (wait_turn t 1000 fs2 (reconnect le addr opts (next_backoff 1000) ts fs2)))
              | (Inl e, config') \<Rightarrow>
                  after_turn [report_error le e] []
                    (if is_fatal e then stopped (FatalEnd e) fs1
                     else wait_turn t backoff fs1 (reconnect le addr opts (next_backoff backoff) ts fs1)))))"

definition run_with_reconnect ::
    "loop_env \<Rightarrow> string \<Rightarrow> connect_options \<Rightarrow> turn list \<Rightarrow> config_files \<Rightarrow> loop_log" where
  "run_with_reconnect le addr opts ts fs = reconnect le addr opts 1000 ts fs"

lemma after_turn_simps [simp]:
  "waits (after_turn evs ss l) = waits l" "loop_end (after_turn evs ss l) = loop_end l"
  "loop_files (after_turn evs ss l) = loop_files l" "sessions (after_turn evs ss l) = ss @ sessions l"
  "loop_events (after_turn evs ss l) = evs @ loop_events l"
  by (simp_all add: after_turn_def)

lemma stopped_simps [simp]:
  "waits (stopped r fs) = []" "loop_end (stopped r fs) = r" "loop_files (stopped r fs) = fs"
  "sessions (stopped r fs) = []" "loop_events (stopped r fs) = []"
  by (simp_all add: stopped_def)

lemma wait_turn_simps [simp]:
  "waits (wait_turn t b fs rest) =
     (if tn_cancel_before_wait t then [] else if tn_cancel_in_wait t then [b] else b # waits rest)"
  "sessions (wait_turn t b fs rest) =
     (if tn_cancel_before_wait t \<or> tn_cancel_in_wait t then [] else sessions rest)"
  "loop_end (wait_turn t b fs rest) =
     (if tn_cancel_before_wait t \<or> tn_cancel_in_wait t then CancelledOk else loop_end rest)"
  by (simp_all add: wait_turn_def)

section \<open>Waiting\<close>

definition backoff_ok :: "millis \<Rightarrow> bool" where
  "backoff_ok b \<longleftrightarrow> 1000 \<le> b \<and> b \<le> MAX_BACKOFF"

lemma backoff_ok_intros [simp, intro]: "backoff_ok 1000" "backoff_ok b \<Longrightarrow> backoff_ok (next_backoff b)"
  by (auto simp: backoff_ok_def next_backoff_def MAX_BACKOFF_def)

lemma reconnect_bounds: "backoff_ok b \<Longrightarrow> list_all backoff_ok (waits (reconnect le addr opts b ts fs))"
proof (induction ts arbitrary: b fs)
  case (Cons t ts)
  then show ?case by (auto simp: Let_def split: prod.splits sum.splits)
qed simp

text \<open>A turn whose attempt fails, but not fatally, and that nobody cancels.\<close>

definition retried :: "string \<Rightarrow> connect_options \<Rightarrow> turn \<Rightarrow> bool" where
  "retried addr opts t \<longleftrightarrow>
     \<not> tn_cancelled_at_start t \<and> \<not> tn_cancel_before_wait t \<and> \<not> tn_cancel_in_wait t \<and>
     (\<forall>config. \<exists>e config'. connect (tn_env t) addr opts (tn_peer t) config = (Inl e, config') \<and> \<not> is_fatal e)"

lemma next_backoff_power: "next_backoff (min (1000 * 2 ^ k) MAX_BACKOFF) = min (1000 * 2 ^ Suc k) MAX_BACKOFF"
  by (simp add: next_backoff_def min_def)

lemma reconnect_failures:
  assumes "list_all (retried addr opts) ts"
  shows "waits (reconnect le addr opts (min (1000 * 2 ^ k) MAX_BACKOFF) ts fs) =
      map (\<lambda>i. min (1000 * 2 ^ (k + i)) MAX_BACKOFF) [0..<length ts] \<and>
    loop_end (reconnect le addr opts (min (1000 * 2 ^ k) MAX_BACKOFF) ts fs) = StillTrying"
  using assms
proof (induction ts arbitrary: k fs)
  case (Cons t ts)
  obtain config fs1 where load: "client_load_or_default (le_from_toml le) fs = (config, fs1)" by fastforce
  from Cons.prems obtain e config' where "connect (tn_env t) addr opts (tn_peer t) config = (Inl e, config')"
    "\<not> is_fatal e" and quiet: "\<not> tn_cancelled_at_start t" "\<not> tn_cancel_before_wait t" "\<not> tn_cancel_in_wait t"
    unfolding retried_def by force
  moreover have "map (\<lambda>i. min (1000 * 2 ^ (Suc k + i)) MAX_BACKOFF) [0..<length ts] =
      map (\<lambda>i. min (1000 * 2 ^ (k + i)) MAX_BACKOFF) [1..<Suc (length ts)]"
    by (rule nth_equalityI) (simp_all del: upt_Suc)
  ultimately show ?case
    using Cons.IH [of "Suc k" fs1] Cons.prems load
    by (simp add: next_backoff_power upt_conv_Cons del: upt_Suc power_Suc)
qed simp

section \<open>Keeping to one server\<close>

text \<open>
  The part of the configuration files that matters here: the pin that the next turn will load.
\<close>

definition pin_in :: "loop_env \<Rightarrow> config_files \<Rightarrow> string \<Rightarrow> string option" where
  "pin_in le fs a = known_fingerprint (fst (client_load_or_default (le_from_toml le) fs)) a"

lemma reload:
  assumes "client_load_or_default from_toml fs = (config, fs1)"
  shows "fst (client_load_or_default from_toml fs1) = config"
  using assms by (auto simp: client_load_or_default_def split: option.splits if_splits)

lemma connect_fingerprint:
  assumes "connect env addr opts p config = (Inr si, config')"
  shows "si_fingerprint si = fingerprint_der (ce_sha env) (peer_cert p)"
  using assms
  by (auto simp: connect_eq Let_def split: if_splits sum.splits prod.splits dest: tls_connect_Inr)

definition no_override :: "connect_options \<Rightarrow> bool" where
  "no_override opts \<longleftrightarrow> \<not> co_trust_new_cert opts \<and> co_expected_fingerprint opts = None"

lemma connect_pinned_same:
  assumes "parse_host_port addr DEFAULT_CONTROL_PORT = Inr (host, port)" and "no_override opts"
    and "known_fingerprint config (format_host_port host port) = Some (fingerprint_der (ce_sha env) pinned)"
    and "connect env addr opts p config = (Inr si, config')"
  shows "si_fingerprint si = fingerprint_der (ce_sha env) pinned"
proof -
  have "ce_sha env (peer_cert p) = ce_sha env pinned"
  proof (rule ccontr)
    assume "ce_sha env (peer_cert p) \<noteq> ce_sha env pinned"
    with tls_connect_pinned [OF this] assms show False
      by (auto simp: connect_eq no_override_def required_fingerprint_def Let_def split: if_splits)
  qed
  then have "fingerprint_der (ce_sha env) (peer_cert p) = fingerprint_der (ce_sha env) pinned"
    by (simp add: fingerprint_der_eq)
  with connect_fingerprint [OF assms(4)] show ?thesis by simp
qed

lemma saved_pin:
  assumes "\<And>c text. le_to_toml le c = Some text \<Longrightarrow> le_from_toml le text = Some c"
    and "client_save (le_to_toml le) d w config' fs1 = (True, fs2)"
  shows "pin_in le fs2 a = known_fingerprint config' a"
  using assms by (auto simp: client_save_def pin_in_def client_load_or_default_def split: if_splits option.splits)

lemma unsaved_files:
  "client_save (le_to_toml le) d w config' fs1 = (False, fs2) \<Longrightarrow> fs2 = fs1"
  by (auto simp: client_save_def split: if_splits option.splits)

text \<open>Once a pin is in the file, every session of the run has that fingerprint.\<close>

lemma reconnect_pinned:
  assumes toml: "\<And>c text. le_to_toml le c = Some text \<Longrightarrow> le_from_toml le text = Some c"
    and addr: "parse_host_port addr DEFAULT_CONTROL_PORT = Inr (host, port)" and opts: "no_override opts"
    and "\<And>t. t \<in> set ts \<Longrightarrow> ce_sha (tn_env t) = sha"
    and "pin_in le fs (format_host_port host port) = Some (fingerprint_der sha pinned)"
    and "(si, saved) \<in> set (sessions (reconnect le addr opts b ts fs))"
  shows "si_fingerprint si = fingerprint_der sha pinned"
  using assms(4-6)
proof (induction ts arbitrary: b fs)
  case (Cons t ts)
  let ?a = "format_host_port host port"
  have sha: "ce_sha (tn_env t) = sha" using Cons.prems(1) by simp
  obtain config fs1 where load: "client_load_or_default (le_from_toml le) fs = (config, fs1)" by fastforce
  obtain r config' where conn: "connect (tn_env t) addr opts (tn_peer t) config = (r, config')" by fastforce
  from Cons.prems(2) load have known: "known_fingerprint config ?a = Some (fingerprint_der sha pinned)"
    by (simp add: pin_in_def)
  have fs1: "pin_in le fs1 ?a = Some (fingerprint_der sha pinned)"
    using reload [OF load] known by (simp add: pin_in_def)
  note IH = Cons.IH [OF Cons.prems(1) [OF list.set_intros(2)]]
  show ?case
  proof (cases r)
    case (Inl e)
    with Cons.prems(3) load conn IH [OF _ fs1] show ?thesis
      by (auto split: if_splits)
  next
    case (Inr s)
    have fp: "si_fingerprint s = fingerprint_der sha pinned"
      using connect_pinned_same [OF addr opts] known conn Inr sha by blast
    obtain ok fs2 where save: "client_save (le_to_toml le) (tn_dir_ok t) (tn_write_ok t) config' fs1 = (ok, fs2)"
      by fastforce
    have "known_fingerprint config' ?a = Some (fingerprint_der sha pinned)"
      using connect_pins [OF addr conn [unfolded Inr]] connect_fingerprint [OF conn [unfolded Inr]] fp sha by simp
    moreover have "fs2 = fs1" if "\<not> ok" using that save unsaved_files by simp
    moreover have "pin_in le fs2 ?a = known_fingerprint config' ?a" if ok
      using saved_pin [OF toml] save that by simp
    ultimately have "pin_in le fs2 ?a = Some (fingerprint_der sha pinned)" using fs1 by (cases ok) auto
    with Cons.prems(3) load conn Inr save fp IH show ?thesis
      by (auto simp: Let_def split: if_splits)
  qed
qed simp

lemma reconnect_after_saved:
  assumes toml: "\<And>c text. le_to_toml le c = Some text \<Longrightarrow> le_from_toml le text = Some c"
    and addr: "parse_host_port addr DEFAULT_CONTROL_PORT = Inr (host, port)" and opts: "no_override opts"
    and "\<And>t. t \<in> set ts \<Longrightarrow> ce_sha (tn_env t) = sha"
    and "sessions (reconnect le addr opts b ts fs) = pre @ (si, True) # rest"
    and "(si', saved) \<in> set rest"
  shows "si_fingerprint si' = si_fingerprint si"
  using assms(4-6)
proof (induction ts arbitrary: b fs pre)
  case (Cons t ts)
  have t: "ce_sha (tn_env t) = sha" using Cons.prems(1) by simp
  obtain config fs1 where load: "client_load_or_default (le_from_toml le) fs = (config, fs1)" by fastforce
  obtain r config' where conn: "connect (tn_env t) addr opts (tn_peer t) config = (r, config')" by fastforce
  note IH = Cons.IH [OF Cons.prems(1) [OF list.set_intros(2)] _ Cons.prems(3)]
  show ?case
  proof (cases r)
    case (Inl e)
    with Cons.prems(2) load conn IH show ?thesis by (auto split: if_splits)
  next
    case (Inr s)
    let ?fp = "fingerprint_der sha (peer_cert (tn_peer t))"
    obtain ok fs2 where save: "client_save (le_to_toml le) (tn_dir_ok t) (tn_write_ok t) config' fs1 = (ok, fs2)"
      by fastforce
    let ?tail = "sessions (reconnect le addr opts (next_backoff 1000) ts fs2)"
    have list: "pre @ (si, True) # rest = (s, ok) # (if tn_cancel_before_wait t \<or> tn_cancel_in_wait t then [] else ?tail)"
      using Cons.prems(2) load conn Inr save by (auto split: if_splits)
    show ?thesis
    proof (cases pre)
      case Nil
      with list Cons.prems(3) have s: "s = si" "ok" and mem: "(si', saved) \<in> set ?tail" by (auto split: if_splits)
      have "pin_in le fs2 (format_host_port host port) = Some ?fp"
        using saved_pin [OF toml] save s connect_pins [OF addr conn [unfolded Inr]] t by simp
      then have "si_fingerprint si' = ?fp"
        by (intro reconnect_pinned [OF toml addr opts _ _ mem]) (use Cons.prems(1) in auto)
      with connect_fingerprint [OF conn [unfolded Inr]] t s show ?thesis by simp
    next
      case (Cons x pre')
      with list have "?tail = pre' @ (si, True) # rest" by (auto split: if_splits)
      then show ?thesis using IH by blast
    qed
  qed
qed simp

section \<open>Properties\<close>

text \<open>
  Reconnecting backs off and stops. Every wait is between one and thirty seconds; after
  \<open>i\<close> failures in a row the wait is \<open>2\<^sup>i\<close> seconds, capped at thirty; and a fatal failure (wrong
  PIN, version or certificate) ends the loop without a wait, with the error reported.
\<close>

theorem reconnect_backoff:
  assumes "list_all (retried addr opts) ts"
    and "\<not> tn_cancelled_at_start t"
    and "connect (tn_env t) addr opts (tn_peer t) (fst (client_load_or_default (le_from_toml le) fs)) = (Inl (Fatal msg), config')"
  shows "waits (run_with_reconnect le addr opts ts fs) = map (\<lambda>i. min (1000 * 2 ^ i) MAX_BACKOFF) [0..<length ts] \<and>
    loop_end (run_with_reconnect le addr opts ts fs) = StillTrying \<and>
    list_all (\<lambda>x. 1000 \<le> x \<and> x \<le> MAX_BACKOFF) (waits (run_with_reconnect le addr opts us fs)) \<and>
    waits (run_with_reconnect le addr opts (t # us) fs) = [] \<and>
    loop_end (run_with_reconnect le addr opts (t # us) fs) = FatalEnd (Fatal msg) \<and>
    loop_events (run_with_reconnect le addr opts (t # us) fs) = [SE_Error msg]"
proof -
  have start: "min (1000 * 2 ^ 0) MAX_BACKOFF = 1000" by (simp add: MAX_BACKOFF_def)
  have "list_all backoff_ok (waits (run_with_reconnect le addr opts us fs))"
    unfolding run_with_reconnect_def by (rule reconnect_bounds) simp
  then have "list_all (\<lambda>x. 1000 \<le> x \<and> x \<le> MAX_BACKOFF) (waits (run_with_reconnect le addr opts us fs))"
    by (simp add: backoff_ok_def [abs_def])
  with reconnect_failures [OF assms(1), of le 0, unfolded start] assms(2,3) show ?thesis
    by (auto simp: run_with_reconnect_def is_fatal_def report_error_def after_turn_def stopped_def split: prod.splits)
qed

definition ex_turn :: "peer \<Rightarrow> turn" where
  "ex_turn p = \<lparr>tn_cancelled_at_start = False, tn_env = ex_client_env, tn_peer = p, tn_dir_ok = True, tn_write_ok = True,
     tn_injector_error = None, tn_start = 0, tn_inputs = [PeerClosed], tn_cancel_before_wait = False,
     tn_cancel_in_wait = False\<rparr>"

text \<open>A TOML library for one configuration.\<close>

definition ex_loop :: "client_config \<Rightarrow> loop_env" where
  "ex_loop c = \<lparr>le_platform = Linux, le_from_toml = (\<lambda>text. if text = ''toml'' then Some c else None),
     le_to_toml = (\<lambda>c'. if c' = c then Some ''toml'' else None), le_error_text = (\<lambda>_. ''failed'')\<rparr>"

definition ex_files :: config_files where
  "ex_files = \<lparr>cf_main = None, cf_backup = None, cf_rename_ok = True\<rparr>"

definition other_opts :: connect_options where
  "other_opts = ex_opts\<lparr>co_expected_fingerprint := Some (fingerprint_der pad32 [8])\<rparr>"

theorem reconnect_backoff_witness:
  "let t = ex_turn (ex_peer\<lparr>peer_tcp_ok := False\<rparr>) in
   waits (run_with_reconnect (ex_loop client_config_default) ''nas'' other_opts (replicate 6 t) ex_files) =
     [1000, 2000, 4000, 8000, 16000, 30000]"
proof -
  let ?t = "ex_turn (ex_peer\<lparr>peer_tcp_ok := False\<rparr>)"
  let ?config = "fst (client_load_or_default (le_from_toml (ex_loop client_config_default)) ex_files)"
  have r: "list_all (retried ''nas'' other_opts) (replicate 6 ?t)"
    by (simp add: list_all_iff retried_def ex_turn_def connect_eq ex_parse is_fatal_def ex_peer_def Let_def)
  have "ce_sha ex_client_env (peer_cert ex_peer) \<noteq> ce_sha ex_client_env [8]"
    by (simp add: ex_client_env_def ex_peer_def pad32_def)
  from tls_connect_pinned [OF this]
  have "\<exists>msg. connect ex_client_env ''nas'' other_opts ex_peer ?config = (Inl (Fatal msg), ?config)"
    by (auto simp: connect_eq ex_parse required_fingerprint_def other_opts_def fingerprint_upper Let_def
        ex_client_env_def [THEN arg_cong [of _ _ ce_sha]] ex_peer_def [THEN arg_cong [of _ _ peer_tcp_ok]])
  then obtain msg where f: "connect (tn_env (ex_turn ex_peer)) ''nas'' other_opts (tn_peer (ex_turn ex_peer)) ?config =
      (Inl (Fatal msg), ?config)"
    by (auto simp: ex_turn_def)
  have "map (\<lambda>i. min (1000 * 2 ^ i) MAX_BACKOFF) [0..<length (replicate 6 ?t)] = [1000, 2000, 4000, 8000, 16000, 30000]"
    by (simp add: MAX_BACKOFF_def upt_conv_Cons)
  with reconnect_backoff [OF r _ f] show ?thesis by (simp add: ex_turn_def Let_def)
qed

text \<open>
  C25: a run stays with one server. Unless the caller overrides the pin, and with a TOML library
  that reads back what it printed, all sessions of one run of the reconnect loop after the first
  one for which the configuration was saved are with the certificate of that session, whichever
  peers answer in between and whether or not later saves succeed.
\<close>

theorem reconnect_same_certificate:
  assumes "\<And>c text. le_to_toml le c = Some text \<Longrightarrow> le_from_toml le text = Some c"
    and "parse_host_port addr DEFAULT_CONTROL_PORT = Inr (host, port)"
    and "\<not> co_trust_new_cert opts" "co_expected_fingerprint opts = None"
    and "\<And>t. t \<in> set ts \<Longrightarrow> ce_sha (tn_env t) = sha"
    and "sessions (run_with_reconnect le addr opts ts fs) = pre @ (si, True) # rest"
    and "(si', saved) \<in> set rest"
  shows "si_fingerprint si' = si_fingerprint si"
proof -
  have "no_override opts" using assms(3,4) by (simp add: no_override_def)
  from reconnect_after_saved [OF assms(1,2) this assms(5) assms(6) [unfolded run_with_reconnect_def] assms(7)]
  show ?thesis .
qed

lemma ex_handshake:
  "\<exists>s. perform_handshake ex_client_env ex_opts \<lparr>cc_config = config, cc_stream = peer_stream ex_peer\<rparr> =
     (Inr (4001, ''desk''), s)"
  by (simp add: perform_handshake_def bindM_def seqM_def getM_def ret_def modifyM_def ex_c_send c_read_def
      ex_c_read1 ex_c_read2 ex_peer_def hello_ack_def pair_answer_def Let_def)

lemma ex_connect_again:
  assumes "known_fingerprint config (format_host_port ''nas'' DEFAULT_CONTROL_PORT) \<in> {None, Some (fingerprint_der pad32 [7])}"
  shows "\<exists>si config'. connect ex_client_env ''nas'' ex_opts ex_peer config = (Inr si, config')"
proof -
  have "\<exists>fp. tls_connect ex_client_env (required_fingerprint ex_opts
      (known_fingerprint config (format_host_port ''nas'' DEFAULT_CONTROL_PORT))) ex_peer = Inr fp"
    using assms by (auto simp: tls_connect_def verify_server_cert_def verifier_new_def required_fingerprint_def ex_opts_def
        ex_peer_def ex_client_env_def Let_def fingerprint_upper fingerprint_match_iff)
  moreover obtain s where "perform_handshake ex_client_env ex_opts \<lparr>cc_config = config, cc_stream = peer_stream ex_peer\<rparr> =
     (Inr (4001, ''desk''), s)" using ex_handshake by blast
  moreover have "peer_tcp_ok ex_peer" by (simp add: ex_peer_def)
  ultimately show ?thesis by (auto simp: connect_eq ex_parse Let_def)
qed

theorem reconnect_same_certificate_witness:
  "\<exists>c si si' saved. sessions (run_with_reconnect (ex_loop c) ''nas'' ex_opts (replicate 2 (ex_turn ex_peer)) ex_files) =
     [(si, True), (si', saved)] \<and> si_fingerprint si' = si_fingerprint si"
proof -
  have start: "client_load_or_default from_toml ex_files = (client_config_default, ex_files)" for from_toml
    by (simp add: client_load_or_default_def ex_files_def)
  obtain si c where c1: "connect ex_client_env ''nas'' ex_opts ex_peer client_config_default = (Inr si, c)"
    using ex_connect by blast
  have "known_fingerprint c (format_host_port ''nas'' DEFAULT_CONTROL_PORT) = Some (fingerprint_der pad32 [7])"
    using connect_pins [OF ex_parse c1] by (simp add: ex_client_env_def ex_peer_def)
  then obtain si' c' where c2: "connect ex_client_env ''nas'' ex_opts ex_peer c = (Inr si', c')"
    using ex_connect_again by blast
  let ?fs = "ex_files\<lparr>cf_main := Some ''toml''\<rparr>"
  have s1: "client_save (le_to_toml (ex_loop c)) True True c ex_files = (True, ?fs)"
    by (simp add: client_save_def ex_loop_def)
  have l2: "client_load_or_default (le_from_toml (ex_loop c)) ?fs = (c, ?fs)"
    by (simp add: client_load_or_default_def ex_loop_def)
  obtain saved fs3 where s2: "client_save (le_to_toml (ex_loop c)) True True c' ?fs = (saved, fs3)" by fastforce
  have ss: "sessions (run_with_reconnect (ex_loop c) ''nas'' ex_opts (replicate 2 (ex_turn ex_peer)) ex_files) =
      [] @ (si, True) # [(si', saved)]"
    by (simp add: run_with_reconnect_def numeral_2_eq_2 start c1 s1 l2 c2 s2 ex_turn_def)
  have "si_fingerprint si' = si_fingerprint si"
    by (rule reconnect_same_certificate [OF _ ex_parse _ _ _ ss])
      (auto simp: ex_loop_def ex_opts_def ex_turn_def split: if_splits)
  with ss show ?thesis by auto
qed

text \<open>
  \<open>--trust-new-cert\<close> switches pinning off for the whole run. The option is passed to every
  attempt, so a later attempt with it succeeds or fails regardless of the certificate presented,
  whatever has been pinned, and then pins that certificate.
\<close>

theorem trust_new_cert_accepts_any:
  assumes "parse_host_port addr DEFAULT_CONTROL_PORT = Inr (host, port)"
    and "co_trust_new_cert opts" "co_expected_fingerprint opts = None"
    and "connect env addr opts p config = (Inr si, config')"
  shows "\<exists>si'' config''. connect env addr opts (p\<lparr>peer_cert := other\<rparr>) config = (Inr si'', config'') \<and>
    known_fingerprint config'' (format_host_port host port) = Some (fingerprint_der (ce_sha env) other)"
proof -
  have req: "required_fingerprint opts k = None" for k using assms(2,3) by (simp add: required_fingerprint_def)
  have tls: "tls_connect env None (p\<lparr>peer_cert := other\<rparr>) = Inr (fingerprint_der (ce_sha env) other)"
    if "tls_connect env None p = Inr fp" for fp
    using that by (auto simp: tls_connect_def verify_server_cert_def verifier_new_def Let_def split: option.splits if_splits)
  have "\<exists>si'' config''. connect env addr opts (p\<lparr>peer_cert := other\<rparr>) config = (Inr si'', config'')"
    using assms(1,4) tls by (auto simp: connect_eq req Let_def split: if_splits sum.splits prod.splits)
  then obtain si'' config'' where c: "connect env addr opts (p\<lparr>peer_cert := other\<rparr>) config = (Inr si'', config'')"
    by blast
  with connect_pins [OF assms(1) c] show ?thesis by simp
qed

theorem trust_new_cert_accepts_any_witness:
  "\<exists>si config'. connect ex_client_env ''nas'' (ex_opts\<lparr>co_trust_new_cert := True\<rparr>) (ex_peer\<lparr>peer_cert := [8]\<rparr>)
     (add_known_server 1 ''desk'' (format_host_port ''nas'' DEFAULT_CONTROL_PORT) (fingerprint_der pad32 [7]) client_config_default) =
     (Inr si, config') \<and>
   known_fingerprint config' (format_host_port ''nas'' DEFAULT_CONTROL_PORT) = Some (fingerprint_der pad32 [8])"
proof -
  let ?opts = "ex_opts\<lparr>co_trust_new_cert := True\<rparr>"
  let ?config = "add_known_server 1 ''desk'' (format_host_port ''nas'' DEFAULT_CONTROL_PORT) (fingerprint_der pad32 [7]) client_config_default"
  have known: "known_fingerprint ?config (format_host_port ''nas'' DEFAULT_CONTROL_PORT) = Some (fingerprint_der pad32 [7])"
    by (simp add: known.lookup_record)
  have "perform_handshake ex_client_env ?opts = perform_handshake ex_client_env ex_opts"
    by (simp add: perform_handshake_def client_pin_def)
  moreover have "required_fingerprint ?opts k = None" "tls_connect ex_client_env None ex_peer = Inr (fingerprint_der pad32 [7])" for k
    by (simp_all add: required_fingerprint_def ex_opts_def tls_connect_def verify_server_cert_def verifier_new_def
        ex_peer_def ex_client_env_def Let_def)
  moreover obtain s where "perform_handshake ex_client_env ex_opts \<lparr>cc_config = ?config, cc_stream = peer_stream ex_peer\<rparr> =
     (Inr (4001, ''desk''), s)" using ex_handshake by blast
  moreover have "peer_tcp_ok ex_peer" by (simp add: ex_peer_def)
  ultimately obtain si c where c: "connect ex_client_env ''nas'' ?opts ex_peer ?config = (Inr si, c)"
    by (simp add: connect_eq ex_parse Let_def)
  have "\<exists>si config'. connect ex_client_env ''nas'' ?opts (ex_peer\<lparr>peer_cert := [8]\<rparr>) ?config = (Inr si, config') \<and>
      known_fingerprint config' (format_host_port ''nas'' DEFAULT_CONTROL_PORT) = Some (fingerprint_der (ce_sha ex_client_env) [8])"
    by (rule trust_new_cert_accepts_any [OF ex_parse _ _ c]) (simp_all add: ex_opts_def)
  then show ?thesis by (simp add: ex_client_env_def [THEN arg_cong [of _ _ ce_sha]])
qed

end
