(* ===== verification/ClientMain.thy ===== *)
theory ClientMain
  imports Discovery FileSend Reconnect
begin

text \<open>
  \<^verbatim>\<open>client/src/main.rs\<close>: the command-line client. It chooses the address of the server, then sends
  one file, runs one session, or runs sessions with reconnection. What the world contributes (the
  mDNS events, the peers, the local file) is the record \<open>main_env\<close>. Logging, which includes the
  warning about \<open>--socks5-proxy\<close> and the printing of session events, is left out.
\<close>

section \<open>Definitions\<close>

record client_args =
  ca_server :: "string option"
  ca_port :: u16
  ca_discover :: bool
  ca_send_file :: "string option"
  ca_pin :: "string option"
  ca_trust_new_cert :: bool
  ca_fingerprint :: "string option"
  ca_no_reconnect :: bool

text \<open>
  \<open>me_config_path\<close>: whether a path for the configuration was given or can be determined;
  \<open>me_mdns\<close>: the events of the mDNS daemon, if it can be started; \<open>me_turns\<close>: what happens at each
  connection attempt, the first of them being the one of a run without reconnection.
\<close>

record main_env =
  me_config_path :: bool
  me_mdns :: "mdns_event list option"
  me_order :: "discovered_server list \<Rightarrow> discovered_server list"
  me_loop :: loop_env
  me_turn :: turn
  me_later_turns :: "turn list"
  me_local_file :: "string \<Rightarrow> local_file"
  me_file_id :: uuid
  me_file_env :: client_env
  me_file_peer :: peer

datatype client_outcome =
    NoConfigPath
  | DiscoveryFailed
  | NoServersFound
  | NoServerGiven
  | ConnectFailed connect_error
  | FileSent "(send_error + unit) \<times> send_state"
  | SessionRan session_info "session_event list"
  | LoopRan loop_log

definition server_addr :: "client_args \<Rightarrow> discovered_server list option \<Rightarrow> string option \<Rightarrow> client_outcome + string" where
  "server_addr args found last_addr =
     (case ca_server args of
        Some server \<Rightarrow>
          if CHR '':'' \<in> set server \<or> starts_with server ''['' then Inr server
          else Inr (server @ '':'' @ show_nat (unat (ca_port args)))
      | None \<Rightarrow>
          if ca_discover args then
            (case found of
               None \<Rightarrow> Inl DiscoveryFailed
             | Some [] \<Rightarrow> Inl NoServersFound
             | Some (s # _) \<Rightarrow> Inr (ds_address s))
          else (case last_addr of Some a \<Rightarrow> Inr a | None \<Rightarrow> Inl NoServerGiven))"

definition args_options :: "client_args \<Rightarrow> connect_options" where
  "args_options args =
     \<lparr>co_pin = ca_pin args, co_trust_new_cert = ca_trust_new_cert args, co_expected_fingerprint = ca_fingerprint args\<rparr>"

text \<open>Connect and save the configuration; a failure to save is only logged.\<close>

definition connect_and_save ::
    "main_env \<Rightarrow> string \<Rightarrow> connect_options \<Rightarrow> client_config \<Rightarrow> config_files \<Rightarrow>
     (connect_error + session_info) \<times> client_config \<times> config_files" where
  "connect_and_save env addr opts config fs =
     (let t = me_turn env in
      (case connect (tn_env t) addr opts (tn_peer t) config of
         (Inl e, config') \<Rightarrow> (Inl e, config', fs)
       | (Inr si, config') \<Rightarrow>
           (Inr si, config', snd (client_save (le_to_toml (me_loop env)) (tn_dir_ok t) (tn_write_ok t) config' fs))))"

definition client_main :: "client_args \<Rightarrow> main_env \<Rightarrow> config_files \<Rightarrow> client_outcome \<times> config_files" where
  "client_main args env fs =
     (if \<not> me_config_path env then (NoConfigPath, fs)
      else (case client_load_or_default (le_from_toml (me_loop env)) fs of
        (config, fs1) \<Rightarrow>
          (case server_addr args (map_option (discover_servers (me_order env)) (me_mdns env)) (last_server config) of
             Inl r \<Rightarrow> (r, fs1)
           | Inr addr \<Rightarrow>
               (case ca_send_file args of
                  Some path \<Rightarrow>
                    (case connect_and_save env addr (args_options args) config fs1 of
                       (Inl e, _, fs2) \<Rightarrow> (ConnectFailed e, fs2)
                     | (Inr si, config', fs2) \<Rightarrow>
                         (FileSent (send_file (me_file_env env) (me_file_id env) False (si_host si) (si_file_port si)
                            (me_local_file env path) config' (args_options args) (me_file_peer env)), fs2))
                | None \<Rightarrow>
                    if ca_no_reconnect args then
                      (case connect_and_save env addr (args_options args) config fs1 of
                         (Inl e, _, fs2) \<Rightarrow> (ConnectFailed e, fs2)
                       | (Inr si, config', fs2) \<Rightarrow> (SessionRan si (run_session (me_loop env) (me_turn env) si), fs2))
                    else
                      (let l = run_with_reconnect (me_loop env) addr (args_options args)
                                 (me_turn env # me_later_turns env) fs1
                       in (LoopRan l, loop_files l))))))"

section \<open>Which address is meant\<close>

text \<open>
  How \<open>--server\<close> and \<open>--port\<close> are read. A host name or IPv4 address without a port is combined
  with \<open>--port\<close>. A bare IPv6 address or a bracketed host without a port has no port of its own
  either, but there \<open>--port\<close> is ignored and the default port is used.
\<close>

theorem server_option_port:
  assumes "ca_server args = Some s" and "s \<noteq> []" and "list_all plain_char s"
    and "length (filter (\<lambda>c. c = CHR '':'') s) \<noteq> 1"
  shows "\<exists>a. server_addr args found last_addr = Inr a \<and>
    parse_host_port a DEFAULT_CONTROL_PORT = Inr (s, if CHR '':'' \<in> set s then DEFAULT_CONTROL_PORT else ca_port args)"
proof -
  have vis: "visible (hd s)" "visible (last s)" "hd s \<noteq> CHR ''[''" "CHR '']'' \<notin> set s" "CHR ''['' \<notin> set s"
    using assms(2,3) by (auto simp: list_all_iff plain_char_def)
  show ?thesis
  proof (cases "CHR '':'' \<in> set s")
    case True
    then have "filter (\<lambda>c. c = CHR '':'') s \<noteq> []" by (auto simp: filter_empty_conv)
    with True assms vis trim_visible [OF assms(2) vis(1,2)] show ?thesis
      by (simp add: server_addr_def parse_host_port_def Let_def)
  next
    case False
    then have "format_host_port s (ca_port args) = s @ '':'' @ show_nat (unat (ca_port args))"
      by (simp add: format_host_port_def)
    with parse_format [OF assms(2) vis(1,3,4)] have
      "parse_host_port (s @ '':'' @ show_nat (unat (ca_port args))) DEFAULT_CONTROL_PORT = Inr (s, ca_port args)"
      by metis
    moreover have "\<not> starts_with s ''[''" using vis(3) assms(2) by (cases s) simp_all
    ultimately show ?thesis using False assms(1) by (simp add: server_addr_def)
  qed
qed

definition ex_client_args :: client_args where
  "ex_client_args = \<lparr>ca_server = Some ''fe80::1'', ca_port = 5000, ca_discover = False, ca_send_file = Some ''/tmp/a.txt'',
     ca_pin = Some ''1234'', ca_trust_new_cert = False, ca_fingerprint = None, ca_no_reconnect = False\<rparr>"

theorem server_option_port_witness:
  "\<exists>a. server_addr ex_client_args None None = Inr a \<and>
     parse_host_port a DEFAULT_CONTROL_PORT = Inr (''fe80::1'', DEFAULT_CONTROL_PORT) \<and> ca_port ex_client_args \<noteq> DEFAULT_CONTROL_PORT"
  using server_option_port [of ex_client_args "''fe80::1''" None None]
  by (simp add: ex_client_args_def plain_char_def visible_def DEFAULT_CONTROL_PORT_def)

section \<open>A file goes to the server of the session\<close>

lemma upper_idem: "ascii s \<Longrightarrow> to_uppercase (to_uppercase s) = to_uppercase s"
proof -
  assume "ascii s"
  moreover have "ascii (map ascii_upper s)" "map ascii_upper (map ascii_upper s) = map ascii_upper s"
    using \<open>ascii s\<close> by (induction s) (auto simp: ascii_upper_def is_ascii_lower_def is_ascii_def of_char_of)
  ultimately show ?thesis by (simp add: to_uppercase_ascii)
qed

lemma tls_connect_required:
  assumes "tls_connect env (Some req) p = Inr fp"
  shows "eq_ignore_ascii_case (to_uppercase req) (fingerprint_der (ce_sha env) (peer_cert p))"
  using assms
  by (auto simp: tls_connect_def verify_server_cert_def verifier_new_def Let_def split: if_splits option.splits)

lemma tls_connect_same_requirement:
  assumes "tls_connect env (Some (to_uppercase req)) p = Inr fp" and "ascii req" and "ce_sha fenv = ce_sha env"
    and "tls_connect fenv (Some req) q = Inr fq"
  shows "ce_sha env (peer_cert q) = ce_sha env (peer_cert p)"
  using tls_connect_required [OF assms(1)] tls_connect_required [OF assms(4)] assms(2,3)
  by (simp add: upper_idem eq_ignore_ascii_case_def flip: fingerprint_match_iff)

lemma connect_Inr_parts:
  assumes "connect env addr opts p config = (Inr si, config')"
  obtains host port fp where "parse_host_port addr DEFAULT_CONTROL_PORT = Inr (host, port)" "si_host si = host"
    "tls_connect env (required_fingerprint opts (known_fingerprint config (format_host_port host port))) p = Inr fp"
  using assms by (auto simp: connect_eq Let_def split: if_splits sum.splits prod.splits)

lemma file_channel_same_certificate:
  assumes "connect env addr opts p config = (Inr si, config')" and "ce_sha fenv = ce_sha env"
    and "\<And>fp. co_expected_fingerprint opts = Some fp \<Longrightarrow> ascii fp"
    and "tls_connect fenv (file_fingerprint opts config' (si_host si) (si_file_port si)) q = Inr fq"
  shows "ce_sha env (peer_cert q) = ce_sha env (peer_cert p)"
proof -
  obtain host port fp where parts: "parse_host_port addr DEFAULT_CONTROL_PORT = Inr (host, port)" "si_host si = host"
    "tls_connect env (required_fingerprint opts (known_fingerprint config (format_host_port host port))) p = Inr fp"
    using connect_Inr_parts [OF assms(1)] .
  show ?thesis
  proof (cases "co_expected_fingerprint opts")
    case (Some req)
    with parts assms(2-4) tls_connect_same_requirement show ?thesis
      by (auto simp: required_fingerprint_def file_fingerprint_def or_else_def)
  next
    case None
    have "known_fingerprint config' (format_host_port host (si_file_port si)) =
        Some (fingerprint_der (ce_sha env) (peer_cert p))"
      by (rule connect_pins [OF parts(1) assms(1)]) simp
    with None parts(2) assms(2,4) tls_connect_pinned [of fenv q "peer_cert p"] show ?thesis
      by (auto simp: file_fingerprint_def or_else_def)
  qed
qed

lemma send_file_untouched:
  assumes "\<And>fp. tls_connect env (file_fingerprint opts config host port) p \<noteq> Inr fp"
  shows "\<exists>e. send_file env fid report host port f config opts p = (Inl e, \<lparr>sf_stream = peer_stream p, sf_progress = []\<rparr>)"
  using assms by (auto simp: send_file_def Let_def split: option.split sum.split)

lemma server_addr_Inl:
  "server_addr args found last_addr = Inl r \<Longrightarrow> r \<in> {DiscoveryFailed, NoServersFound, NoServerGiven}"
  by (auto simp: server_addr_def split: option.splits if_splits list.splits)

text \<open>
  C12: \<open>--send-file\<close> hands the file only to the server it has just paired with. Whatever the options
  (a pin in the file, an explicit fingerprint, or \<open>--trust-new-cert\<close>), if the peer on the file port
  shows a certificate of another digest than the control channel, the transfer fails and not a
  byte is sent to that peer.
\<close>

theorem file_goes_to_paired_server:
  assumes "client_main args env fs = (FileSent (r, s), fs')"
    and "ce_sha (me_file_env env) = ce_sha (tn_env (me_turn env))"
    and "\<And>fp. ca_fingerprint args = Some fp \<Longrightarrow> ascii fp"
    and "ce_sha (me_file_env env) (peer_cert (me_file_peer env)) \<noteq> ce_sha (me_file_env env) (peer_cert (tn_peer (me_turn env)))"
  shows "(\<exists>e. r = Inl e) \<and> s = \<lparr>sf_stream = peer_stream (me_file_peer env), sf_progress = []\<rparr>"
proof -
  let ?t = "me_turn env" and ?o = "args_options args"
  obtain path addr config si config' where
    c: "connect (tn_env ?t) addr ?o (tn_peer ?t) config = (Inr si, config')" and
    send: "send_file (me_file_env env) (me_file_id env) False (si_host si) (si_file_port si)
      (me_local_file env path) config' ?o (me_file_peer env) = (r, s)"
    using assms(1)
    by (auto simp: client_main_def connect_and_save_def Let_def dest!: server_addr_Inl
        split: if_splits prod.splits sum.splits option.splits)
  have "tls_connect (me_file_env env) (file_fingerprint ?o config' (si_host si) (si_file_port si)) (me_file_peer env) \<noteq> Inr fp"
    for fp
    using file_channel_same_certificate [OF c assms(2)] assms(2-4) by (auto simp: args_options_def)
  then show ?thesis using send_file_untouched send by (metis prod.inject)
qed

definition ex_main_env :: main_env where
  "ex_main_env = \<lparr>me_config_path = True, me_mdns = None, me_order = (\<lambda>xs. xs),
     me_loop = \<lparr>le_platform = Linux, le_from_toml = (\<lambda>_. None), le_to_toml = (\<lambda>_. None), le_error_text = (\<lambda>_. [])\<rparr>,
     me_turn = \<lparr>tn_cancelled_at_start = False, tn_env = ex_client_env, tn_peer = ex_peer, tn_dir_ok = True,
       tn_write_ok = True, tn_injector_error = None, tn_start = 0, tn_inputs = [], tn_cancel_before_wait = False,
       tn_cancel_in_wait = False\<rparr>,
     me_later_turns = [], me_local_file = (\<lambda>_. ex_file), me_file_id = 1, me_file_env = ex_client_env,
     me_file_peer = ex_peer\<lparr>peer_cert := [8]\<rparr>\<rparr>"

definition ex_args_nas :: client_args where
  "ex_args_nas = ex_client_args\<lparr>ca_server := None\<rparr>"

definition ex_main_nas :: main_env where
  "ex_main_nas = ex_main_env\<lparr>me_loop := (me_loop ex_main_env)
     \<lparr>le_from_toml := (\<lambda>_. Some (client_config_default\<lparr>last_server := Some ''nas''\<rparr>))\<rparr>\<rparr>"

theorem file_goes_to_paired_server_witness:
  "\<exists>e fs. client_main ex_args_nas ex_main_nas (ex_files\<lparr>cf_main := Some []\<rparr>) =
     (FileSent (Inl e, \<lparr>sf_stream = peer_stream ex_peer, sf_progress = []\<rparr>), fs)"
proof -
  let ?c = "client_config_default\<lparr>last_server := Some ''nas''\<rparr>"
  obtain si config where c: "connect ex_client_env ''nas'' ex_opts ex_peer ?c = (Inr si, config)"
    using ex_connect_no_pins [of ?c] by (auto simp: client_config_default_def)
  have "args_options ex_args_nas = ex_opts" by (simp add: args_options_def ex_args_nas_def ex_client_args_def ex_opts_def)
  with c obtain r s fs where m: "client_main ex_args_nas ex_main_nas (ex_files\<lparr>cf_main := Some []\<rparr>) = (FileSent (r, s), fs)"
    by (auto simp: client_main_def client_load_or_default_def ex_main_nas_def ex_main_env_def server_addr_def
        ex_args_nas_def ex_client_args_def connect_and_save_def intro: prod.exhaust)
  have "(\<exists>e. r = Inl e) \<and> s = \<lparr>sf_stream = peer_stream (me_file_peer ex_main_nas), sf_progress = []\<rparr>"
    by (rule file_goes_to_paired_server [OF m])
      (simp_all add: ex_main_nas_def ex_main_env_def ex_args_nas_def ex_client_args_def ex_client_env_def ex_peer_def pad32_def)
  with m show ?thesis by (auto simp: ex_main_nas_def ex_main_env_def)
qed

end
