(* ===== verification/Ui.thy ===== *)
theory Ui
  imports FileSend Reconnect
begin

text \<open>
  \<^verbatim>\<open>ui/src/main.rs\<close>: the control panel's commands and the tasks they start. Commands and tasks run
  concurrently on one \<open>AppState\<close>; the unit of interleaving is one access to it (an atomic
  operation, or a block under the mutex of \<open>session\<close>; the generation is read in the block of
  \<open>install_active_session\<close>, and a call that bumps it meanwhile has to wait for the block to end before
  it takes the session, as if it had bumped it afterwards). A \<open>connect_to_server\<close> or
  \<open>disconnect_from_server\<close> call and the tasks it starts are known by the generation number that
  the call draws, which is also the name of its cancellation token. Generations are unbounded
  here; the 64-bit counter of the source does not wrap within any number of clicks.
\<close>

section \<open>The state of the application\<close>

record active_session =
  as_token :: nat
  as_address :: string
  as_server_name :: string
  as_fingerprint :: string
  as_file_port :: u16
  as_host :: string

record app_state =
  generation :: nat
  session :: "active_session option"
  forwarding_active :: bool
  last_error :: "string option"
  latency_ms :: "nat option"

definition app_default :: app_state where
  "app_default = \<lparr>generation = 0, session = None, forwarding_active = False, last_error = None, latency_ms = None\<rparr>"

record kvm_status =
  ks_connected :: bool
  ks_address :: "string option"
  ks_server_name :: "string option"
  ks_fingerprint :: "string option"
  ks_forwarding_active :: bool
  ks_last_error :: "string option"
  ks_latency_ms :: "nat option"
  ks_version :: string

text \<open>
  \<open>get_status\<close> drops the lock of \<open>session\<close> before it reads the other fields, one after the other, so
  that it sees four states of the application: the ones at the reads of the session, the
  forwarding flag, the error and the latency.
\<close>

definition get_status :: "app_state \<Rightarrow> app_state \<Rightarrow> app_state \<Rightarrow> app_state \<Rightarrow> kvm_status" where
  "get_status a_session a_flag a_error a_latency =
     \<lparr>ks_connected = (session a_session \<noteq> None), ks_address = map_option as_address (session a_session),
      ks_server_name = map_option as_server_name (session a_session),
      ks_fingerprint = map_option as_fingerprint (session a_session),
      ks_forwarding_active = forwarding_active a_flag, ks_last_error = last_error a_error,
      ks_latency_ms = latency_ms a_latency, ks_version = PROTOCOL_VERSION\<rparr>"

text \<open>The result of the command and the toggle request handed to the session, if any.\<close>

definition toggle_forwarding :: "bool \<Rightarrow> app_state \<Rightarrow> (string + bool) \<times> bool option" where
  "toggle_forwarding running a =
     (case session a of
        None \<Rightarrow> (Inl ''not connected to a server'', None)
      | Some _ \<Rightarrow>
          (let target = (\<not> forwarding_active a)
           in if running then (Inr target, Some target) else (Inl ''session is no longer running'', None)))"

section \<open>The pieces of the commands and tasks\<close>

definition bump_generation :: "app_state \<Rightarrow> nat \<times> app_state" where
  "bump_generation a = (let g = generation a + 1 in (g, a\<lparr>generation := g\<rparr>))"

definition take_session :: "app_state \<Rightarrow> nat option \<times> app_state" where
  "take_session a = (map_option as_token (session a), a\<lparr>session := None\<rparr>)"

definition clear_forwarding :: "app_state \<Rightarrow> app_state" where
  "clear_forwarding a = a\<lparr>forwarding_active := False\<rparr>"

definition clear_error :: "app_state \<Rightarrow> app_state" where
  "clear_error a = a\<lparr>last_error := None\<rparr>"

definition clear_latency :: "app_state \<Rightarrow> app_state" where
  "clear_latency a = a\<lparr>latency_ms := None\<rparr>"

definition install_session :: "nat \<Rightarrow> string \<Rightarrow> session_info \<Rightarrow> string \<Rightarrow> app_state \<Rightarrow> bool \<times> app_state" where
  "install_session my_gen address si fingerprint a =
     (if generation a \<noteq> my_gen then (False, a)
      else (True, a\<lparr>session := Some \<lparr>as_token = my_gen, as_address = address, as_server_name = si_server_name si,
             as_fingerprint = fingerprint, as_file_port = si_file_port si, as_host = si_host si\<rparr>\<rparr>))"

text \<open>The event task: what an event of the session stores, after the comparison of generations.\<close>

definition note_event :: "(session_end \<Rightarrow> string) \<Rightarrow> session_event \<Rightarrow> app_state \<Rightarrow> app_state" where
  "note_event reason ev a =
     (case ev of
        SE_ForwardingChanged on \<Rightarrow> a\<lparr>forwarding_active := on\<rparr>
      | SE_Latency ms \<Rightarrow> a\<lparr>latency_ms := Some ms\<rparr>
      | SE_Error msg \<Rightarrow> a\<lparr>last_error := Some msg\<rparr>
      | SE_Disconnected r \<Rightarrow> a\<lparr>last_error := Some (reason r)\<rparr>
      | _ \<Rightarrow> a)"

section \<open>Interleaving\<close>

datatype command = Connect | Disconnect

text \<open>
  Where a call, and then its driving task, stands. \<open>Checked first\<close>: in \<open>install_active_session\<close> after
  the first comparison of generations, called from the command (\<open>first\<close>) or from the reconnect
  loop. \<open>Failing\<close>: after the comparison in the branch of a failed attempt, before the store of the
  message. \<open>Unflagged\<close> and \<open>Unreported\<close>: in \<open>disconnect_from_server\<close>, before the store to
  \<open>last_error\<close> and before the store to \<open>latency_ms\<close>. \<open>Ending\<close>, \<open>Clearing\<close> and \<open>Cleared\<close> are the block after the loop: before the comparison,
  before the store to \<open>session\<close>, before the store to the forwarding flag.
\<close>

datatype phase =
    Unborn
  | Resetting command
  | Taken command
  | Unflagged
  | Unreported
  | Connecting
  | Checked bool
  | Driving
  | Waiting
  | Reconnecting
  | Failing bool string
  | Ending
  | Clearing
  | Cleared
  | Finished

text \<open>
  \<open>noting\<close> holds the event that the event task of a generation has checked and not yet stored, and
  \<open>ended\<close> the event tasks that have seen a newer generation and left their loop.
  \<open>clobbered\<close> is a history variable: whether the block after some loop has removed the session of
  another task.
\<close>

record ui =
  app :: app_state
  tasks :: "nat \<Rightarrow> phase"
  cancelled :: "nat set"
  noting :: "nat \<Rightarrow> session_event option"
  ended :: "nat set"
  clobbered :: bool

definition ui_init :: ui where
  "ui_init = \<lparr>app = app_default, tasks = (\<lambda>_. Unborn), cancelled = {}, noting = (\<lambda>_. None), ended = {}, clobbered = False\<rparr>"

definition move :: "nat \<Rightarrow> phase \<Rightarrow> ui \<Rightarrow> ui" where
  "move g p u = u\<lparr>tasks := (tasks u)(g := p)\<rparr>"

inductive ui_step :: "ui \<Rightarrow> ui \<Rightarrow> bool" where
  bump: "bump_generation (app u) = (g, a) \<Longrightarrow> ui_step u (move g (Resetting c) (u\<lparr>app := a\<rparr>))"
| take: "tasks u g = Resetting c \<Longrightarrow> take_session (app u) = (tok, a) \<Longrightarrow>
     ui_step u (move g (Taken c) (u\<lparr>app := a, cancelled := cancelled u \<union> set_option tok\<rparr>))"
| disconnected: "tasks u g = Taken Disconnect \<Longrightarrow>
     ui_step u (move g Unflagged (u\<lparr>app := clear_forwarding (app u)\<rparr>))"
| error_cleared: "tasks u g = Unflagged \<Longrightarrow>
     ui_step u (move g Unreported (u\<lparr>app := clear_error (app u)\<rparr>))"
| latency_cleared: "tasks u g = Unreported \<Longrightarrow>
     ui_step u (move g Finished (u\<lparr>app := clear_latency (app u)\<rparr>))"
| connect_start: "tasks u g = Taken Connect \<Longrightarrow>
     ui_step u (move g Connecting (u\<lparr>app := clear_forwarding (app u)\<rparr>))"
| connect_failed: "tasks u g = Connecting \<Longrightarrow> ui_step u (move g Finished u)"
| first_check: "tasks u g = Connecting \<Longrightarrow>
     ui_step u (move g (if generation (app u) = g then Checked True else Finished) u)"
| install: "tasks u g = Checked first \<Longrightarrow> install_session g address si fp (app u) = (ok, a) \<Longrightarrow>
     ui_step u (move g (if ok then Driving else if first then Finished else Ending) (u\<lparr>app := a\<rparr>))"
| run_ended: "tasks u g = Driving \<Longrightarrow>
     ui_step u (move g (if g \<in> cancelled u then Ending else Waiting) u)"
| wait_cancelled: "tasks u g = Waiting \<Longrightarrow> g \<in> cancelled u \<Longrightarrow> ui_step u (move g Ending u)"
| wait_over: "tasks u g = Waiting \<Longrightarrow> ui_step u (move g Reconnecting u)"
| no_config_path: "tasks u g = Reconnecting \<Longrightarrow> ui_step u (move g Ending u)"
| reconnected: "tasks u g = Reconnecting \<Longrightarrow>
     ui_step u (move g (if generation (app u) = g then Checked False else Ending) u)"
| reconnect_failed: "tasks u g = Reconnecting \<Longrightarrow>
     ui_step u
       (move g (if generation (app u) \<noteq> g then Ending else Failing fatal message) u)"
| report_failure: "tasks u g = Failing fatal message \<Longrightarrow>
     ui_step u (move g (if fatal then Ending else Waiting) (u\<lparr>app := (app u)\<lparr>last_error := Some message\<rparr>\<rparr>))"
| end_check: "tasks u g = Ending \<Longrightarrow>
     ui_step u (move g (if generation (app u) = g then Clearing else Finished) u)"
| end_clear: "tasks u g = Clearing \<Longrightarrow> take_session (app u) = (tok, a) \<Longrightarrow>
     ui_step u (move g Cleared (u\<lparr>app := a, clobbered := clobbered u \<or> (tok \<noteq> None \<and> tok \<noteq> Some g)\<rparr>))"
| end_flag: "tasks u g = Cleared \<Longrightarrow> ui_step u (move g Finished (u\<lparr>app := clear_forwarding (app u)\<rparr>))"
| event_check: "tasks u g \<noteq> Unborn \<Longrightarrow> g \<notin> ended u \<Longrightarrow> noting u g = None \<Longrightarrow>
     ui_step u
       (if generation (app u) \<noteq> g then u\<lparr>ended := insert g (ended u)\<rparr>
        else u\<lparr>noting := (noting u)(g := Some ev)\<rparr>)"
| event_store: "noting u g = Some ev \<Longrightarrow>
     ui_step u (u\<lparr>app := note_event reason ev (app u), noting := (noting u)(g := None)\<rparr>)"

inductive ui_reach :: "ui \<Rightarrow> bool" where
  ui_start: "ui_reach ui_init"
| ui_next: "ui_reach u \<Longrightarrow> ui_step u u' \<Longrightarrow> ui_reach u'"

inductive_cases ui_stepE: "ui_step u u'"

section \<open>Who holds the session\<close>

definition past_take :: "phase \<Rightarrow> bool" where
  "past_take p \<longleftrightarrow> (case p of Unborn \<Rightarrow> False | Resetting _ \<Rightarrow> False | _ \<Rightarrow> True)"

definition in_loop :: "phase \<Rightarrow> bool" where
  "in_loop p \<longleftrightarrow> p \<in> {Driving, Waiting, Reconnecting, Checked False} \<or> (\<exists>fatal msg. p = Failing fatal msg)"

definition token :: "app_state \<Rightarrow> nat option" where
  "token a = map_option as_token (session a)"

definition ui_inv :: "ui \<Rightarrow> bool" where
  "ui_inv u \<longleftrightarrow>
     (\<forall>g. generation (app u) < g \<longrightarrow> tasks u g = Unborn) \<and>
     (\<forall>t. token (app u) = Some t \<longrightarrow> t \<le> generation (app u) \<and> (\<forall>g. past_take (tasks u g) \<longrightarrow> g \<le> t)) \<and>
     (\<forall>g. in_loop (tasks u g) \<longrightarrow> g \<in> cancelled u \<or> token (app u) = Some g \<or> clobbered u)"

lemma past_take_simps [simp]:
  "\<not> past_take Unborn" "\<not> past_take (Resetting c)" "past_take (Taken c)" "past_take Connecting" "past_take (Checked b)"
  "past_take Unflagged" "past_take Unreported"
  "past_take Driving" "past_take Waiting" "past_take Reconnecting" "past_take (Failing f m)" "past_take Ending" "past_take Clearing"
  "past_take Cleared" "past_take Finished"
  by (simp_all add: past_take_def)

lemma in_loop_simps [simp]:
  "\<not> in_loop Unborn" "\<not> in_loop (Resetting c)" "\<not> in_loop (Taken c)" "\<not> in_loop Connecting" "in_loop (Checked b) \<longleftrightarrow> \<not> b"
  "\<not> in_loop Unflagged" "\<not> in_loop Unreported"
  "in_loop Driving" "in_loop Waiting" "in_loop Reconnecting" "in_loop (Failing f m)" "\<not> in_loop Ending" "\<not> in_loop Clearing"
  "\<not> in_loop Cleared" "\<not> in_loop Finished"
  by (simp_all add: in_loop_def)

lemma move_simps [simp]:
  "app (move g p u) = app u" "cancelled (move g p u) = cancelled u" "clobbered (move g p u) = clobbered u"
  "tasks (move g p u) = (tasks u)(g := p)"
  by (simp_all add: move_def)

lemma token_simps [simp]:
  "token (clear_forwarding a) = token a" "token (clear_error a) = token a" "token (clear_latency a) = token a"
  "token (note_event r ev a) = token a"
  "token (a\<lparr>last_error := e\<rparr>) = token a" "generation (clear_forwarding a) = generation a"
  "generation (clear_error a) = generation a" "generation (clear_latency a) = generation a" "generation (note_event r ev a) = generation a"
  by (simp_all add: token_def clear_forwarding_def clear_error_def clear_latency_def note_event_def split: session_event.split)

lemma take_session_eq: "take_session a = (token a, a\<lparr>session := None\<rparr>)"
  by (simp add: take_session_def token_def)

text \<open>Moving a task between phases of the same kind keeps the invariant.\<close>

lemma ui_inv_move:
  assumes "ui_inv u" and "tasks u g = p" and "past_take p" and "past_take p'" and "in_loop p' \<Longrightarrow> in_loop p"
  shows "ui_inv (move g p' u)"
proof -
  have "tasks u g \<noteq> Unborn" using assms(2,3) by auto
  with assms show ?thesis unfolding ui_inv_def by (auto simp: fun_upd_def)
qed

lemma ui_inv_app:
  "token a = token (app u) \<Longrightarrow> generation a = generation (app u) \<Longrightarrow> ui_inv (u\<lparr>app := a\<rparr>) \<longleftrightarrow> ui_inv u"
  by (simp add: ui_inv_def)

lemma ui_inv_install:
  assumes "ui_inv u" and "tasks u g = Checked b" and "install_session g ad si fp (app u) = (True, a)"
  shows "ui_inv (move g Driving (u\<lparr>app := a\<rparr>))"
proof -
  from assms(3) have gen: "generation (app u) = g" "generation a = g" and tok: "token a = Some g"
    by (auto simp: install_session_def token_def split: if_splits)
  have below: "g' \<le> g" if "past_take (tasks u g')" for g'
    using assms(1) gen that unfolding ui_inv_def by (metis not_le past_take_simps(1))
  have "g' = g" if "token (app u) = Some g'" for g'
    using assms(1,2) gen that unfolding ui_inv_def by (metis le_antisym past_take_simps(5))
  with assms(1,2) gen tok below show ?thesis unfolding ui_inv_def by auto
qed

lemma ui_inv_step: "ui_step u u' \<Longrightarrow> ui_inv u \<Longrightarrow> ui_inv u'"
proof (induction rule: ui_step.induct)
  case (bump u g a c)
  then have "g = generation (app u) + 1" "generation a = g" "token a = token (app u)"
    by (auto simp: bump_generation_def token_def Let_def)
  with bump show ?case unfolding ui_inv_def by (auto simp: not_less_eq dest: less_imp_le)
next
  case (take u g c tok a)
  then show ?case
    unfolding ui_inv_def by (auto simp: take_session_eq token_def)
next
  case (install u g first ad si fp ok a)
  show ?case
  proof (cases ok)
    case True
    with install ui_inv_install show ?thesis by simp
  next
    case False
    with install have "a = app u" by (auto simp: install_session_def split: if_splits)
    with False install show ?thesis by (auto intro!: ui_inv_move)
  qed
next
  case (end_clear u g tok a)
  then show ?case unfolding ui_inv_def by (auto simp: take_session_eq token_def)
next
  case (event_check u g ev)
  then show ?case by (auto simp: ui_inv_def)
next
  case (event_store u g ev reason)
  then show ?case by (simp add: ui_inv_def)
qed (auto intro!: ui_inv_move simp: ui_inv_app)

lemma ui_reach_inv: "ui_reach u \<Longrightarrow> ui_inv u"
proof (induction rule: ui_reach.induct)
  case ui_start
  show ?case by (simp add: ui_inv_def ui_init_def app_default_def token_def)
qed (rule ui_inv_step)

section \<open>Properties\<close>

text \<open>
  C24: a session that runs can be stopped. In every state the application can reach, as long as
  the block after a loop has not removed another task's session, a task that drives a session
  (or is about to drive it again) is either cancelled or is the one whose session the state holds,
  so that the next disconnect or connect cancels it.
\<close>

theorem running_session_stoppable:
  assumes "ui_reach u" and "\<not> clobbered u" and "tasks u g \<in> {Driving, Waiting, Reconnecting}"
  shows "g \<in> cancelled u \<or> (\<exists>s. session (app u) = Some s \<and> as_token s = g)"
  using ui_reach_inv [OF assms(1)] assms(2,3) unfolding ui_inv_def token_def by force

text \<open>One call of \<open>connect_to_server\<close> up to the running session, when no other call is under way.\<close>

definition ex_info :: session_info where
  "ex_info = \<lparr>si_host = ''nas'', si_server_name = ''desk'', si_fingerprint = ''AA'', si_file_port = 4001,
     si_stream = \<lparr>rx = [], tx = [], tx_room = None\<rparr>\<rparr>"

definition holding :: "nat \<Rightarrow> active_session" where
  "holding g = \<lparr>as_token = g, as_address = ''nas:4000'', as_server_name = ''desk'', as_fingerprint = ''AA'',
     as_file_port = 4001, as_host = ''nas''\<rparr>"

definition driven :: "nat \<Rightarrow> ui \<Rightarrow> ui" where
  "driven g u = u\<lparr>app := (app u)\<lparr>generation := g, session := Some (holding g), forwarding_active := False\<rparr>,
     tasks := (tasks u)(g := Driving), cancelled := cancelled u \<union> set_option (token (app u))\<rparr>"

lemma connect_reaches:
  assumes "ui_reach u" and "generation (app u) + 1 = g"
  shows "ui_reach (driven g u)"
proof -
  let ?a0 = "(app u)\<lparr>generation := g\<rparr>"
  let ?u1 = "move g (Resetting Connect) (u\<lparr>app := ?a0\<rparr>)"
  have 1: "ui_reach ?u1"
    by (rule ui_next [OF assms(1) bump]) (use assms(2) in \<open>simp add: bump_generation_def Let_def\<close>)
  let ?u2 = "move g (Taken Connect) (?u1\<lparr>app := ?a0\<lparr>session := None\<rparr>, cancelled := cancelled ?u1 \<union> set_option (token ?a0)\<rparr>)"
  have 2: "ui_reach ?u2"
    by (rule ui_next [OF 1 take]) (simp_all add: take_session_eq)
  let ?u3 = "move g Connecting (?u2\<lparr>app := clear_forwarding (app ?u2)\<rparr>)"
  have 3: "ui_reach ?u3" by (rule ui_next [OF 2 connect_start]) simp
  have 4: "ui_reach (move g (Checked True) ?u3)"
    using ui_next [OF 3 first_check [of _ g]] by simp
  let ?a = "(app ?u3)\<lparr>session := Some (holding g)\<rparr>"
  have "install_session g ''nas:4000'' ex_info ''AA'' (app ?u3) = (True, ?a)"
    by (simp add: install_session_def clear_forwarding_def holding_def ex_info_def)
  with ui_next [OF 4 install [of _ g True "''nas:4000''" ex_info "''AA''" True ?a]]
  have "ui_reach (move g Driving ((move g (Checked True) ?u3)\<lparr>app := ?a\<rparr>))" by simp
  also have "move g Driving ((move g (Checked True) ?u3)\<lparr>app := ?a\<rparr>) = driven g u"
    by (simp add: move_def driven_def clear_forwarding_def token_def)
  finally show ?thesis .
qed

theorem running_session_stoppable_witness:
  "1 \<in> cancelled (driven 1 ui_init) \<or>
   (\<exists>s. session (app (driven 1 ui_init)) = Some s \<and> as_token s = 1)"
  by (rule running_session_stoppable [OF connect_reaches [OF ui_start]])
    (simp_all add: ui_init_def app_default_def driven_def)

definition disconnected_by :: "nat \<Rightarrow> ui \<Rightarrow> ui" where
  "disconnected_by g u = u\<lparr>app := clear_latency (clear_error (clear_forwarding ((app u)\<lparr>generation := g, session := None\<rparr>))),
     tasks := (tasks u)(g := Finished), cancelled := cancelled u \<union> set_option (token (app u))\<rparr>"

lemma disconnect_reaches:
  assumes "ui_reach u" and "generation (app u) + 1 = g"
  shows "ui_reach (disconnected_by g u)"
proof -
  let ?a = "(app u)\<lparr>generation := g\<rparr>"
  let ?u1 = "move g (Resetting Disconnect) (u\<lparr>app := ?a\<rparr>)"
  have 1: "ui_reach ?u1"
    by (rule ui_next [OF assms(1) bump]) (use assms(2) in \<open>simp add: bump_generation_def Let_def\<close>)
  let ?u2 = "move g (Taken Disconnect) (?u1\<lparr>app := ?a\<lparr>session := None\<rparr>, cancelled := cancelled ?u1 \<union> set_option (token ?a)\<rparr>)"
  have 2: "ui_reach ?u2"
    by (rule ui_next [OF 1 take]) (simp_all add: take_session_eq)
  let ?u3 = "move g Unflagged (?u2\<lparr>app := clear_forwarding (app ?u2)\<rparr>)"
  have 3: "ui_reach ?u3" by (rule ui_next [OF 2 disconnected]) simp
  let ?u4 = "move g Unreported (?u3\<lparr>app := clear_error (app ?u3)\<rparr>)"
  have 4: "ui_reach ?u4" by (rule ui_next [OF 3 error_cleared]) simp
  have "ui_reach (move g Finished (?u4\<lparr>app := clear_latency (app ?u4)\<rparr>))"
    by (rule ui_next [OF 4 latency_cleared]) simp
  also have "move g Finished (?u4\<lparr>app := clear_latency (app ?u4)\<rparr>) = disconnected_by g u"
    by (simp add: move_def disconnected_by_def token_def)
  finally show ?thesis .
qed

text \<open>
  C37: a session can be orphaned. The block after the loop compares the generations and only then
  removes the session. When the user connects again in between, the new session is removed; the
  application then shows no connection, a disconnect finds nothing to cancel, and the new session
  runs on.
\<close>

theorem session_orphaned:
  "\<exists>u. ui_reach u \<and> tasks u 2 = Driving \<and> 2 \<notin> cancelled u \<and> session (app u) = None \<and>
     tasks u 3 = Finished \<and> \<not> ks_connected (get_status (app u) (app u) (app u) (app u))"
proof -
  let ?u0 = "driven 1 ui_init"
  have 0: "ui_reach ?u0" by (rule connect_reaches [OF ui_start]) (simp add: ui_init_def app_default_def)
  have d0: "tasks ?u0 1 = Driving" "cancelled ?u0 = {}" "generation (app ?u0) = 1"
    by (simp_all add: driven_def ui_init_def app_default_def token_def)
  have 1: "ui_reach (move 1 Waiting ?u0)" using ui_next [OF 0 run_ended [of _ 1]] d0 by simp
  have 2: "ui_reach (move 1 Reconnecting (move 1 Waiting ?u0))" by (rule ui_next [OF 1 wait_over]) simp
  let ?u1 = "(move 1 Reconnecting (move 1 Waiting ?u0))"
  have "ui_reach (move 1 (Failing True ''PIN'') ?u1)"
    using ui_next [OF 2 reconnect_failed [of _ 1 True "''PIN''"]] d0 by simp
  note f = this
  let ?u1' = "move 1 (Failing True ''PIN'') ?u1"
  let ?u2 = "move 1 Ending (?u1'\<lparr>app := (app ?u1')\<lparr>last_error := Some ''PIN''\<rparr>\<rparr>)"
  have 3: "ui_reach ?u2"
    using ui_next [OF f report_failure [of _ 1 True "''PIN''"]] by simp
  have 4: "ui_reach (move 1 Clearing ?u2)"
    using ui_next [OF 3 end_check [of _ 1]] d0 by simp
  let ?u3 = "driven 2 (move 1 Clearing ?u2)"
  have 5: "ui_reach ?u3" by (rule connect_reaches [OF 4]) (use d0 in simp)
  let ?u4 = "move 1 Cleared (?u3\<lparr>app := (app ?u3)\<lparr>session := None\<rparr>, clobbered := True\<rparr>)"
  have 6: "ui_reach ?u4"
    using ui_next [OF 5 end_clear [of _ 1 "Some 2" "(app ?u3)\<lparr>session := None\<rparr>"]]
    by (simp add: driven_def take_session_eq token_def holding_def)
  have 7: "ui_reach (disconnected_by 3 ?u4)"
    by (rule disconnect_reaches [OF 6]) (simp add: driven_def)
  have "tasks (disconnected_by 3 ?u4) 2 = Driving" "2 \<notin> cancelled (disconnected_by 3 ?u4)"
    "session (app (disconnected_by 3 ?u4)) = None" "tasks (disconnected_by 3 ?u4) 3 = Finished"
    using d0(2) by (simp_all add: disconnected_by_def driven_def clear_error_def clear_latency_def clear_forwarding_def token_def
        ui_init_def app_default_def holding_def)
  with 7 show ?thesis by (intro exI [of _ "disconnected_by 3 ?u4"]) (simp add: get_status_def)
qed

section \<open>The other commands\<close>

text \<open>\<open>send_file_to_server\<close>: the file goes to the host and file port of the session, with its fingerprint required.\<close>

definition send_file_to_server ::
    "client_env \<Rightarrow> uuid \<Rightarrow> local_file \<Rightarrow> (string \<Rightarrow> client_config option) \<Rightarrow> config_files \<Rightarrow> peer \<Rightarrow> app_state \<Rightarrow>
     string + ((send_error + unit) \<times> send_state)" where
  "send_file_to_server env fid f from_toml fs p a =
     (case session a of
        None \<Rightarrow> Inl ''not connected to a server''
      | Some s \<Rightarrow>
          Inr (send_file env fid True (as_host s) (as_file_port s) f (fst (client_load_or_default from_toml fs))
            \<lparr>co_pin = None, co_trust_new_cert = False, co_expected_fingerprint = Some (as_fingerprint s)\<rparr> p))"

definition ui_forget_server ::
    "(string \<Rightarrow> client_config option) \<Rightarrow> (client_config \<Rightarrow> string option) \<Rightarrow> bool \<Rightarrow> bool \<Rightarrow> string \<Rightarrow> config_files \<Rightarrow>
     (string + bool) \<times> config_files" where
  "ui_forget_server from_toml to_toml dir_ok write_ok address fs =
     (case client_load_or_default from_toml fs of
        (config, fs1) \<Rightarrow>
          (case forget_server address config of
             (removed, config') \<Rightarrow>
               if removed then
                 (case client_save to_toml dir_ok write_ok config' fs1 of
                    (ok, fs2) \<Rightarrow> (if ok then Inr True else Inl ''save failed'', fs2))
               else (Inr False, fs1)))"

text \<open>
  The panel sends files to the server it shows, and to no other. If the peer at the file port
  has a certificate of another digest than the one whose fingerprint the session shows, sending
  fails before a byte is sent, whatever the configuration file says.
\<close>

theorem panel_sends_to_session_server:
  assumes "session a = Some s" and "as_fingerprint s = fingerprint_der (ce_sha env) cert"
    and "ce_sha env (peer_cert p) \<noteq> ce_sha env cert"
  shows "\<exists>e. send_file_to_server env fid f from_toml fs p a = Inr (Inl e, \<lparr>sf_stream = peer_stream p, sf_progress = []\<rparr>)"
proof -
  let ?opts = "\<lparr>co_pin = None, co_trust_new_cert = False, co_expected_fingerprint = Some (as_fingerprint s)\<rparr>"
  obtain msg where
    "tls_connect env (file_fingerprint ?opts (fst (client_load_or_default from_toml fs)) (as_host s) (as_file_port s)) p =
       Inl (Fatal msg)"
    using tls_connect_pinned [OF assms(3)] assms(2) by (auto simp: file_fingerprint_def or_else_def)
  with assms(1) show ?thesis by (auto simp: send_file_to_server_def send_file_def Let_def split: option.split)
qed

theorem panel_sends_to_session_server_witness:
  "\<exists>e. send_file_to_server ex_sender 1 ex_file (\<lambda>_. None) ex_files (ex_peer\<lparr>peer_cert := [8]\<rparr>)
     (app_default\<lparr>session := Some ((holding 1)\<lparr>as_fingerprint := fingerprint_der pad32 [7]\<rparr>)\<rparr>) =
     Inr (Inl e, \<lparr>sf_stream = peer_stream ex_peer, sf_progress = []\<rparr>)"
  using panel_sends_to_session_server [of "app_default\<lparr>session := Some ((holding 1)\<lparr>as_fingerprint := fingerprint_der pad32 [7]\<rparr>)\<rparr>"
      "(holding 1)\<lparr>as_fingerprint := fingerprint_der pad32 [7]\<rparr>" ex_sender "[7]" "ex_peer\<lparr>peer_cert := [8]\<rparr>"]
  by (simp add: ex_sender_def pad32_def)

end
