(* ===== verification/Panel.thy ===== *)
theory Panel
  imports Ui Discovery "HOL-Library.Sublist"
begin

text \<open>
  \<^verbatim>\<open>ui/src/main.rs\<close>, what the panel is told: the events emitted to the frontend, the listing commands,
  and the task that reports the progress of a file, which runs beside the command that sends it. The
  interleaving of the commands themselves is in \<open>Ui\<close>.
\<close>

section \<open>Status events\<close>

datatype status_event =
    St_Connected string string
  | St_Disconnected string
  | St_ForwardingChanged bool
  | St_ClipboardReceived nat
  | St_Latency nat
  | St_Error string

fun status_of :: "(session_end \<Rightarrow> string) \<Rightarrow> session_event \<Rightarrow> status_event" where
  "status_of reason (SE_Connected name fp) = St_Connected name fp"
| "status_of reason (SE_Disconnected r) = St_Disconnected (reason r)"
| "status_of reason (SE_ForwardingChanged on) = St_ForwardingChanged on"
| "status_of reason (SE_ClipboardReceived n) = St_ClipboardReceived n"
| "status_of reason (SE_Latency ms) = St_Latency ms"
| "status_of reason (SE_Error msg) = St_Error msg"

text \<open>
  The event task over the events it receives, each with the generation it reads then: the state is
  updated and the event emitted, until the generation is not its own.
\<close>

fun event_task ::
    "(session_end \<Rightarrow> string) \<Rightarrow> nat \<Rightarrow> (nat \<times> session_event) list \<Rightarrow> app_state \<Rightarrow> app_state \<times> status_event list" where
  "event_task reason my_gen [] a = (a, [])"
| "event_task reason my_gen ((gen, ev) # evs) a =
     (if gen \<noteq> my_gen then (a, [])
      else (case event_task reason my_gen evs (note_event reason ev a) of
              (a', out) \<Rightarrow> (a', status_of reason ev # out)))"

section \<open>Listings\<close>

definition discover_command ::
    "(string + discovered_server list) \<Rightarrow> string + (string \<times> string \<times> u16 \<times> string) list" where
  "discover_command found =
     (case found of
        Inl e \<Rightarrow> Inl e
      | Inr servers \<Rightarrow> Inr (map (\<lambda>s. (ds_name s, ds_host s, ds_port s, ds_address s)) servers))"

record known_server_info =
  ki_name :: string
  ki_address :: string
  ki_fingerprint :: string
  ki_last_connected :: string

text \<open>\<open>to_rfc3339\<close> is of the crate \<open>chrono\<close>; \<open>entries\<close> is the order in which the hash map gives its values.\<close>

definition list_command ::
    "(millis \<Rightarrow> string) \<Rightarrow> (string \<Rightarrow> client_config option) \<Rightarrow> (client_config \<Rightarrow> known_server list) \<Rightarrow> config_files \<Rightarrow>
     known_server_info list \<times> config_files" where
  "list_command to_rfc3339 from_toml entries fs =
     (case client_load_or_default from_toml fs of
        (config, fs1) \<Rightarrow>
          (map (\<lambda>s. \<lparr>ki_name = ks_name s, ki_address = ClientConfig.ks_address s,
              ki_fingerprint = ClientConfig.ks_fingerprint s, ki_last_connected = to_rfc3339 (ks_last_connected s)\<rparr>)
             (list_known_servers (entries config)), fs1))"

section \<open>The progress of a file\<close>

record transfer_progress =
  tp_sent :: u64
  tp_total :: u64
  tp_done :: bool
  tp_error :: "string option"

definition underway :: "u64 \<times> u64 \<Rightarrow> transfer_progress" where
  "underway p = \<lparr>tp_sent = fst p, tp_total = snd p, tp_done = False, tp_error = None\<rparr>"

definition transfer_over :: "(string + unit) \<Rightarrow> transfer_progress" where
  "transfer_over result =
     \<lparr>tp_sent = 0, tp_total = 0, tp_done = True, tp_error = (case result of Inl e \<Rightarrow> Some e | Inr _ \<Rightarrow> None)\<rparr>"

text \<open>
  \<open>todo\<close>: what \<open>send_file\<close> has yet to report; \<open>chan\<close>: the channel between it and the task; \<open>held\<close>: what
  the task has received and not yet emitted; \<open>told\<close>: what the frontend has been told.
\<close>

record report =
  todo :: "(u64 \<times> u64) list"
  chan :: "(u64 \<times> u64) list"
  held :: "(u64 \<times> u64) option"
  told :: "transfer_progress list"
  returned :: bool

datatype report_event = Report | Receive | EmitHeld | EmitOver

definition PROGRESS_CAPACITY :: nat where
  "PROGRESS_CAPACITY = 32"

fun report_step :: "(string + unit) \<Rightarrow> report_event \<Rightarrow> report \<Rightarrow> report option" where
  "report_step result Report r =
     (case todo r of
        [] \<Rightarrow> None
      | p # ps \<Rightarrow> if length (chan r) < PROGRESS_CAPACITY then Some (r\<lparr>todo := ps, chan := chan r @ [p]\<rparr>) else None)"
| "report_step result Receive r =
     (case chan r of
        [] \<Rightarrow> None
      | p # ps \<Rightarrow> if held r = None then Some (r\<lparr>chan := ps, held := Some p\<rparr>) else None)"
| "report_step result EmitHeld r =
     (case held r of
        None \<Rightarrow> None
      | Some p \<Rightarrow> Some (r\<lparr>held := None, told := told r @ [underway p]\<rparr>))"
| "report_step result EmitOver r =
     (if todo r = [] \<and> \<not> returned r then Some (r\<lparr>told := told r @ [transfer_over result], returned := True\<rparr>) else None)"

fun report_run :: "(string + unit) \<Rightarrow> report_event list \<Rightarrow> report \<Rightarrow> report option" where
  "report_run result [] r = Some r"
| "report_run result (e # es) r = (case report_step result e r of None \<Rightarrow> None | Some r' \<Rightarrow> report_run result es r')"

definition report_start :: "(u64 \<times> u64) list \<Rightarrow> report" where
  "report_start ps = \<lparr>todo = ps, chan = [], held = None, told = [], returned = False\<rparr>"

definition report_inv :: "(string + unit) \<Rightarrow> (u64 \<times> u64) list \<Rightarrow> report \<Rightarrow> bool" where
  "report_inv result ps r \<longleftrightarrow>
     filter (\<lambda>t. \<not> tp_done t) (told r) @ map underway ((case held r of None \<Rightarrow> [] | Some p \<Rightarrow> [p]) @ chan r @ todo r) =
       map underway ps \<and>
     filter tp_done (told r) = (if returned r then [transfer_over result] else []) \<and> length (chan r) \<le> PROGRESS_CAPACITY"

lemma tp_done_simps [simp]: "\<not> tp_done (underway p)" "tp_done (transfer_over result)"
  by (simp_all add: underway_def transfer_over_def)

lemma report_step_inv: "report_step result e r = Some r' \<Longrightarrow> report_inv result ps r \<Longrightarrow> report_inv result ps r'"
  by (cases e) (auto simp: report_inv_def split: list.splits if_splits option.splits)

lemma report_run_inv: "report_run result es r = Some r' \<Longrightarrow> report_inv result ps r \<Longrightarrow> report_inv result ps r'"
  by (induction es arbitrary: r) (auto split: option.splits intro: report_step_inv)

lemma report_start_inv: "report_inv result ps (report_start ps)"
  by (simp add: report_inv_def report_start_def)

lemma report_run_append:
  "report_run result (es @ es') r = (case report_run result es r of None \<Rightarrow> None | Some r' \<Rightarrow> report_run result es' r')"
  by (induction es arbitrary: r) (auto split: option.split)

section \<open>Properties\<close>

text \<open>
  The panel is told of every step of a transfer once. Whatever the order in which the command and
  its progress task run, the reports of progress are emitted in order, none twice, and the end exactly
  once when the command has returned; nothing is lost when the channel is drained.
\<close>

theorem transfer_reported:
  assumes "report_run result es (report_start ps) = Some r"
  shows "prefix (filter (\<lambda>t. \<not> tp_done t) (told r)) (map underway ps) \<and>
    filter tp_done (told r) = (if returned r then [transfer_over result] else []) \<and>
    (todo r = [] \<and> chan r = [] \<and> held r = None \<longrightarrow> filter (\<lambda>t. \<not> tp_done t) (told r) = map underway ps)"
proof -
  have inv: "report_inv result ps r" using report_run_inv [OF assms report_start_inv] .
  then have "prefix (filter (\<lambda>t. \<not> tp_done t) (told r)) (map underway ps)"
    unfolding report_inv_def prefix_def by metis
  with inv show ?thesis by (auto simp: report_inv_def)
qed

theorem transfer_reported_witness:
  "\<exists>r. report_run (Inr ()) [Report, Receive, Report, EmitHeld, EmitOver] (report_start [(1, 2), (2, 2)]) = Some r \<and>
     prefix (filter (\<lambda>t. \<not> tp_done t) (told r)) [underway (1, 2), underway (2, 2)]"
proof -
  obtain r where r: "report_run (Inr ()) [Report, Receive, Report, EmitHeld, EmitOver] (report_start [(1, 2), (2, 2)]) = Some r"
    by (simp add: report_start_def PROGRESS_CAPACITY_def)
  with transfer_reported [OF r] show ?thesis by simp
qed

text \<open>
  The last thing the panel is told can be that a finished transfer is under way. The progress task
  is not joined before the end is emitted: a report that is still in the channel then comes after it,
  and the panel, which shows the last one, stays at the progress of a file that has arrived.
\<close>

theorem progress_after_end:
  "\<exists>es r. report_run (Inr ()) es (report_start (ps @ [p])) = Some r \<and> todo r = [] \<and> chan r = [] \<and> held r = None \<and>
     returned r \<and> \<not> tp_done (List.last (told r))"
proof -
  have many: "\<exists>es. report_run (Inr ()) es \<lparr>todo = qs @ [p], chan = [], held = None, told = t, returned = False\<rparr> =
      Some \<lparr>todo = [p], chan = [], held = None, told = t @ map underway qs, returned = False\<rparr>" for qs t
  proof (induction qs arbitrary: t)
    case Nil
    show ?case by (rule exI [of _ "[]"]) simp
  next
    case (Cons q qs)
    obtain es where "report_run (Inr ()) es \<lparr>todo = qs @ [p], chan = [], held = None, told = t @ [underway q], returned = False\<rparr> =
        Some \<lparr>todo = [p], chan = [], held = None, told = (t @ [underway q]) @ map underway qs, returned = False\<rparr>"
      using Cons.IH [of "t @ [underway q]"] by blast
    then show ?case
      by (intro exI [of _ "Report # Receive # EmitHeld # es"]) (simp add: PROGRESS_CAPACITY_def)
  qed
  obtain es where es: "report_run (Inr ()) es (report_start (ps @ [p])) =
      Some \<lparr>todo = [p], chan = [], held = None, told = map underway ps, returned = False\<rparr>"
    using many [of ps "[]"] by (auto simp: report_start_def)
  show ?thesis
    by (intro exI [of _ "es @ [Report, EmitOver, Receive, EmitHeld]"])
      (simp add: report_run_append es PROGRESS_CAPACITY_def)
qed

text \<open>
  Forwarding can be shown as on without a connection. The event task compares the generations and
  then stores: when the user disconnects in between, the store comes last. The panel then shows that
  forwarding is on, with no session and no task left that would clear it.
\<close>

theorem forwarding_shown_after_disconnect:
  "\<exists>u. ui_reach u \<and> (\<forall>g. tasks u g \<in> {Unborn, Finished}) \<and> (\<forall>g. noting u g = None) \<and>
     \<not> ks_connected (get_status (app u) (app u) (app u) (app u)) \<and> ks_forwarding_active (get_status (app u) (app u) (app u) (app u))"
proof -
  let ?ev = "SE_ForwardingChanged True"
  let ?u0 = "driven 1 ui_init"
  have 0: "ui_reach ?u0" by (rule connect_reaches [OF ui_start]) (simp add: ui_init_def app_default_def)
  let ?u1 = "?u0\<lparr>noting := (noting ?u0)(1 := Some ?ev)\<rparr>"
  have 1: "ui_reach ?u1"
    using ui_next [OF 0 event_check [of _ 1 ?ev]] by (simp add: driven_def ui_init_def)
  let ?u2 = "disconnected_by 2 ?u1"
  have 2: "ui_reach ?u2" by (rule disconnect_reaches [OF 1]) (simp add: driven_def)
  let ?u3 = "?u2\<lparr>app := note_event (\<lambda>_. []) ?ev (app ?u2), noting := (noting ?u2)(1 := None)\<rparr>"
  have 3: "ui_reach ?u3"
    by (rule ui_next [OF 2 event_store]) (simp add: disconnected_by_def)
  have 4: "ui_reach (move 1 Ending ?u3)"
    using ui_next [OF 3 run_ended [of _ 1]] by (simp add: disconnected_by_def driven_def token_def holding_def)
  have 5: "ui_reach (move 1 Finished (move 1 Ending ?u3))"
    using ui_next [OF 4 end_check [of _ 1]] by (simp add: disconnected_by_def driven_def clear_error_def clear_latency_def clear_forwarding_def)
  then show ?thesis
    by (rule_tac exI [of _ "move 1 Finished (move 1 Ending ?u3)"])
      (simp add: get_status_def disconnected_by_def driven_def move_def note_event_def ui_init_def
        clear_error_def clear_latency_def clear_forwarding_def)
qed

end
