(* ===== verification/Pairing.thy ===== *)
theory Pairing
  imports Server FileSend
begin

text \<open>
  The two sides of the handshake together: \<open>perform_handshake\<close> of \<^verbatim>\<open>client/src/session.rs\<close> against the
  first half of \<open>handle_client\<close> of \<^verbatim>\<open>server/src/server.rs\<close>, each reading the bytes that the other wrote.
\<close>

section \<open>One message on each side\<close>

lemma c_send_ok:
  assumes "serialize_envelope (ce_ser env) e = Inr b" and "tx_room (cc_stream s) = None"
  shows "c_send env e s = (Inr (), s\<lparr>cc_stream := (cc_stream s)\<lparr>tx := tx (cc_stream s) @ b\<rparr>\<rparr>)"
  using assms by (simp add: c_send_def send_envelope_def bindM_def liftR_def write_all_def)

lemma c_read_ok:
  assumes "envelope_codec (ce_ser env) (ce_de env)" and "wf_envelope e"
    and "serialize_envelope (ce_ser env) e = Inr b" and "rx (cc_stream s) = b @ rest"
  shows "c_read env s = (Inr e, s\<lparr>cc_stream := (cc_stream s)\<lparr>rx := rest\<rparr>\<rparr>)"
  by (simp add: c_read_def envelope_codec.read_serialized [OF assms])

lemma send_ok:
  assumes "serialize_envelope (he_ser env) e = Inr b" and "tx_room (stream c) = None"
  shows "send env e c = (Inr (), c\<lparr>stream := (stream c)\<lparr>tx := tx (stream c) @ b\<rparr>\<rparr>)"
  using assms by (simp add: send_def send_envelope_def bindM_def liftR_def write_all_def)

lemma timed_read_ok:
  assumes "envelope_codec (he_ser env) (he_de env)" and "wf_envelope e"
    and "serialize_envelope (he_ser env) e = Inr b" and "rx (stream c) = b @ rest"
  shows "timed_read env expired c = (Inr e, c\<lparr>stream := (stream c)\<lparr>rx := rest\<rparr>\<rparr>)"
  by (simp add: timed_read_def envelope_codec.read_serialized [OF assms])

section \<open>The client's half\<close>

text \<open>The device as the client presents it: its fingerprint, after a missing secret was made up.\<close>

definition device :: "client_env \<Rightarrow> client_config \<Rightarrow> string" where
  "device env cfg = client_fingerprint (ce_sha env) (snd (ensure_client_secret (ce_secret env) cfg))"

definition own_name :: "client_env \<Rightarrow> string" where
  "own_name env = (case ce_hostname env of Some h \<Rightarrow> h | None \<Rightarrow> ''kvm-client'')"

definition pair_request :: "client_env \<Rightarrow> connect_options \<Rightarrow> client_config \<Rightarrow> envelope" where
  "pair_request env opts cfg =
     PairRequest (ce_nonce env) (device env cfg)
       (pairing_proof (ce_sha env) (client_pin env opts) (ce_nonce env) (device env cfg))"

definition pin_refused :: string where
  "pin_refused = ''pairing PIN required or incorrect''"

lemma pair_answer_rejected:
  "pair_answer (PairReject pin_refused) =
     bail (Fatal ''pairing rejected: pairing PIN required or incorrect (pass --pin <code>, or set KVM_PAIRING_PIN)'')"
proof -
  have "str_contains (to_lowercase pin_refused) ''pin''" by code_simp
  then show ?thesis by (simp add: pair_answer_def pin_refused_def)
qed

lemma pair_answer_accepted: "pair_answer PairAccept = ret ()"
  by (simp add: pair_answer_def)

lemma client_half:
  assumes codec: "envelope_codec (ce_ser env) (ce_de env)"
    and frames: "framed (ce_ser env)
      [Hello (own_name env) PROTOCOL_VERSION caps_default, HelloAck port name, pair_request env opts cfg, answer]
      [b1, b2, b3, b4]"
    and answer: "answer \<in> {PairAccept, PairReject pin_refused}"
  shows "perform_handshake env opts \<lparr>cc_config = cfg, cc_stream = \<lparr>rx = b2 @ b4, tx = [], tx_room = None\<rparr>\<rparr> =
    (if answer = PairAccept then Inr (port, name)
     else Inl (Fatal ''pairing rejected: pairing PIN required or incorrect (pass --pin <code>, or set KVM_PAIRING_PIN)''),
     \<lparr>cc_config = snd (ensure_client_secret (ce_secret env) cfg), cc_stream = \<lparr>rx = [], tx = b1 @ b3, tx_room = None\<rparr>\<rparr>)"
proof -
  note b = frames [simplified]
  have wf: "wf_envelope (HelloAck port name)" "wf_envelope answer" using answer by (auto simp: wf_envelope_def)
  show ?thesis
    using answer b(1) b
    by (auto simp: perform_handshake_def Let_def seqM_apply bindM_apply getM_def modifyM_def
        c_send_ok c_read_ok [OF codec wf(1)] c_read_ok [OF codec wf(2), where rest = "[]"] hello_ack_def ret_apply
        pair_answer_rejected pair_answer_accepted bail_def own_name_def pair_request_def device_def)
qed

section \<open>The server's half\<close>

text \<open>What the handler does to its state for a device that is let in or turned away.\<close>

definition admit :: "handshake_env \<Rightarrow> ip_addr \<Rightarrow> string \<Rightarrow> string \<Rightarrow> bool \<Rightarrow> server_state \<Rightarrow> server_state" where
  "admit env ip fp name ok s =
     (if is_paired (config s) fp then s
      else if ok then accept_new_device env fp name s
      else s\<lparr>rate_limiter := record_pairing_failure (he_now env) (rate_limiter s) ip\<rparr>)"

lemma server_half:
  assumes codec: "envelope_codec (he_ser env) (he_de env)"
    and ok: "ok \<longleftrightarrow> is_paired (config s) fp \<or> proof_matches (pairing_proof (he_sha env) (pin s) nonce fp) pf"
    and answer: "answer = (if ok then PairAccept else PairReject pin_refused)"
    and frames: "framed (he_ser env)
      [Hello name PROTOCOL_VERSION cs, HelloAck (file_port s) (server_name (config s)), PairRequest nonce fp pf, answer]
      [b1, b2, b3, b4]"
    and wf: "wf_envelope (PairRequest nonce fp pf)"
    and free: "\<not> is_rate_limited (he_now env) (rate_limiter s) ip"
  shows "handshake env ip \<lparr>srv = s, stream = \<lparr>rx = b1 @ b3, tx = [], tx_room = None\<rparr>, stalls = st\<rparr> =
    (if ok then Inr (name, fp) else Inl PairingRejectedBail,
     \<lparr>srv = admit env ip fp name ok s, stream = \<lparr>rx = [], tx = b2 @ b4, tx_room = None\<rparr>, stalls = st\<rparr>)"
proof -
  note b = frames [simplified]
  have hello: "wf_envelope (Hello name PROTOCOL_VERSION cs)" by (simp add: wf_envelope_def)
  have h: "read_hello env \<lparr>srv = s, stream = \<lparr>rx = b1 @ b3, tx = [], tx_room = None\<rparr>, stalls = st\<rparr> =
      (Inr name, \<lparr>srv = s, stream = \<lparr>rx = b3, tx = [], tx_room = None\<rparr>, stalls = st\<rparr>)"
    using b by (simp add: read_hello_def bindM_apply timed_read_ok [OF codec hello] ret_apply)
  have "pair_device env ip name \<lparr>srv = s, stream = \<lparr>rx = b3, tx = b2, tx_room = None\<rparr>, stalls = st\<rparr> =
    (if ok then Inr fp else Inl PairingRejectedBail,
     \<lparr>srv = admit env ip fp name ok s, stream = \<lparr>rx = [], tx = b2 @ b4, tx_room = None\<rparr>, stalls = st\<rparr>)"
    using b ok answer free
    by (cases "is_paired (config s) fp"; cases "proof_matches (pairing_proof (he_sha env) (pin s) nonce fp) pf")
      (simp_all add: pair_device_def bindM_apply seqM_apply getM_def modifyM_def bail_def send_ok
        timed_read_ok [OF codec wf, where rest = "[]"] ret_apply admit_def pin_refused_def)
  then show ?thesis
    using b by (simp add: handshake_def bindM_apply seqM_apply getM_def h send_ok ret_apply)
qed

section \<open>Properties\<close>

lemma proof_matches_same_device:
  assumes "\<And>m. length (sha m) = 32" and "inj_on sha {proof_message p nonce fp, proof_message q nonce fp}"
  shows "proof_matches (pairing_proof sha p nonce fp) (pairing_proof sha q nonce fp) \<longleftrightarrow> p = q"
proof -
  have "proof_matches (pairing_proof sha p nonce fp) (pairing_proof sha q nonce fp) \<longleftrightarrow>
      sha (proof_message p nonce fp) = sha (proof_message q nonce fp)"
    using assms(1) by (simp add: proof_matches_iff pairing_proof_def)
  also have "\<dots> \<longleftrightarrow> proof_message p nonce fp = proof_message q nonce fp"
    by (rule inj_on_eq_iff [OF assms(2)]) simp_all
  also have "\<dots> \<longleftrightarrow> p = q" by (auto simp: proof_message_def)
  finally show ?thesis .
qed

text \<open>
  C2: both ends of the handshake agree. A client and a server that is not rate limiting it, joined
  by a connection that carries what each writes to the other, finish the handshake together. If
  the device is paired or has the server's PIN, both succeed: the client learns the server's name
  and file port, the server the client's name and fingerprint, and the device is paired
  afterwards. Otherwise both fail: the client with the fatal error that stops its reconnection,
  the server with one more failure recorded against the address, and nothing else is changed.
\<close>

theorem handshake_agrees:
  assumes "\<And>e bs. wf_envelope e \<Longrightarrow> ce_ser cenv e = Some bs \<Longrightarrow> ce_de cenv bs = Some e"
    and same: "he_ser env = ce_ser cenv" "he_de env = ce_de cenv" "he_sha env = ce_sha cenv"
    and lens: "length (ce_nonce cenv) = 16" "\<And>m. length (ce_sha cenv m) = 32"
    and inj: "inj_on (ce_sha cenv) {proof_message (pin s) (ce_nonce cenv) (device cenv cfg),
      proof_message (client_pin cenv opts) (ce_nonce cenv) (device cenv cfg)}"
    and free: "\<not> is_rate_limited (he_now env) (rate_limiter s) ip"
    and ok: "ok \<longleftrightarrow> is_paired (config s) (device cenv cfg) \<or> pin s = client_pin cenv opts"
    and frames: "framed (ce_ser cenv)
      [Hello (own_name cenv) PROTOCOL_VERSION caps_default, HelloAck (file_port s) (server_name (config s)),
       pair_request cenv opts cfg, if ok then PairAccept else PairReject pin_refused]
      [b1, b2, b3, b4]"
  shows "\<exists>from_client from_server rc c rs s'.
    perform_handshake cenv opts \<lparr>cc_config = cfg, cc_stream = \<lparr>rx = from_server, tx = [], tx_room = None\<rparr>\<rparr> = (rc, c) \<and>
    tx (cc_stream c) = from_client \<and>
    handshake env ip \<lparr>srv = s, stream = \<lparr>rx = from_client, tx = [], tx_room = None\<rparr>, stalls = st\<rparr> = (rs, s') \<and>
    tx (stream s') = from_server \<and>
    (if ok then
       rc = Inr (file_port s, server_name (config s)) \<and> rs = Inr (own_name cenv, device cenv cfg) \<and>
       is_paired (config (srv s')) (device cenv cfg) \<and> rate_limiter (srv s') = rate_limiter s
     else
       (\<exists>msg. rc = Inl (Fatal msg)) \<and> rs = Inl PairingRejectedBail \<and>
       srv s' = s\<lparr>rate_limiter := record_pairing_failure (he_now env) (rate_limiter s) ip\<rparr>)"
proof -
  let ?fp = "device cenv cfg" and ?pf = "pairing_proof (ce_sha cenv) (client_pin cenv opts) (ce_nonce cenv) (device cenv cfg)"
  let ?answer = "if ok then PairAccept else PairReject pin_refused"
  have codec: "envelope_codec (ce_ser cenv) (ce_de cenv)" using assms(1) by unfold_locales
  have ok': "ok \<longleftrightarrow> is_paired (config s) ?fp \<or> proof_matches (pairing_proof (he_sha env) (pin s) (ce_nonce cenv) ?fp) ?pf"
    using ok proof_matches_same_device [OF lens(2) inj] same(3) by simp
  have wf: "wf_envelope (PairRequest (ce_nonce cenv) ?fp ?pf)"
    using lens by (simp add: wf_envelope_def pairing_proof_def)
  have client: "perform_handshake cenv opts \<lparr>cc_config = cfg, cc_stream = \<lparr>rx = b2 @ b4, tx = [], tx_room = None\<rparr>\<rparr> =
    (if ?answer = PairAccept then Inr (file_port s, server_name (config s))
     else Inl (Fatal ''pairing rejected: pairing PIN required or incorrect (pass --pin <code>, or set KVM_PAIRING_PIN)''),
     \<lparr>cc_config = snd (ensure_client_secret (ce_secret cenv) cfg), cc_stream = \<lparr>rx = [], tx = b1 @ b3, tx_room = None\<rparr>\<rparr>)"
    by (rule client_half [OF codec frames]) simp
  have server: "handshake env ip \<lparr>srv = s, stream = \<lparr>rx = b1 @ b3, tx = [], tx_room = None\<rparr>, stalls = st\<rparr> =
    (if ok then Inr (own_name cenv, ?fp) else Inl PairingRejectedBail,
     \<lparr>srv = admit env ip ?fp (own_name cenv) ok s, stream = \<lparr>rx = [], tx = b2 @ b4, tx_room = None\<rparr>, stalls = st\<rparr>)"
    by (rule server_half [OF _ ok' refl _ wf free, where cs = caps_default]) (use codec frames same in \<open>simp_all add: pair_request_def\<close>)
  have admitted: "is_paired (config (admit env ip ?fp (own_name cenv) True s)) ?fp"
    "rate_limiter (admit env ip ?fp (own_name cenv) True s) = rate_limiter s"
    by (auto simp: admit_def accept_new_device_def is_paired_def add_paired_device_def Let_def)
  have "\<not> is_paired (config s) ?fp" if "\<not> ok" using that ok by simp
  then show ?thesis
    using client server admitted
    by (intro exI [of _ "b1 @ b3"] exI [of _ "b2 @ b4"]) (cases ok; simp add: admit_def)
qed

definition ex_pair_env :: handshake_env where
  "ex_pair_env = \<lparr>he_sha = pad32, he_ser = bincode_ser, he_de = bincode_de, he_to_toml = (\<lambda>_. None), he_dir_ok = True,
     he_write_ok = True, he_now = 0\<rparr>"

theorem handshake_agrees_witness:
  "\<exists>from_client from_server rc c rs s'.
    perform_handshake ex_sender ex_opts \<lparr>cc_config = client_config_default, cc_stream = \<lparr>rx = from_server, tx = [], tx_room = None\<rparr>\<rparr> = (rc, c) \<and>
    tx (cc_stream c) = from_client \<and>
    handshake ex_pair_env ex_ip \<lparr>srv = ex_server, stream = \<lparr>rx = from_client, tx = [], tx_room = None\<rparr>, stalls = False\<rparr> = (rs, s') \<and>
    tx (stream s') = from_server \<and>
    rc = Inr (file_port ex_server, server_name (config ex_server)) \<and>
    rs = Inr (''kvm-client'', device ex_sender client_config_default) \<and>
    is_paired (config (srv s')) (device ex_sender client_config_default)"
proof -
  let ?hello = "Hello (own_name ex_sender) PROTOCOL_VERSION caps_default"
  let ?ack = "HelloAck (file_port ex_server) (server_name (config ex_server))"
  let ?req = "pair_request ex_sender ex_opts client_config_default"
  have "framed (ce_ser ex_sender) [?hello, ?ack, ?req, if True then PairAccept else PairReject pin_refused]
      [frame_of ?hello, frame_of ?ack, frame_of ?req, frame_of PairAccept]"
    by (simp add: ex_sender_def frame_of_def serialize_envelope_def bincode_ser_def device_def client_fingerprint_def
      MAX_ENVELOPE_SIZE_def tag_def enc_word_def enc_string_def enc_caps_def enc_bool_def pairing_proof_def pair_request_def own_name_def
      PROTOCOL_VERSION_def caps_default_def ensure_client_secret_def client_config_default_def ex_server_def
      server_config_default_def Let_def)
  note frames = this
  have "\<exists>from_client from_server rc c rs s'.
    perform_handshake ex_sender ex_opts \<lparr>cc_config = client_config_default, cc_stream = \<lparr>rx = from_server, tx = [], tx_room = None\<rparr>\<rparr> = (rc, c) \<and>
    tx (cc_stream c) = from_client \<and>
    handshake ex_pair_env ex_ip \<lparr>srv = ex_server, stream = \<lparr>rx = from_client, tx = [], tx_room = None\<rparr>, stalls = False\<rparr> = (rs, s') \<and>
    tx (stream s') = from_server \<and>
    (if True then
       rc = Inr (file_port ex_server, server_name (config ex_server)) \<and>
       rs = Inr (own_name ex_sender, device ex_sender client_config_default) \<and>
       is_paired (config (srv s')) (device ex_sender client_config_default) \<and> rate_limiter (srv s') = rate_limiter ex_server
     else
       (\<exists>msg. rc = Inl (Fatal msg)) \<and> rs = Inl PairingRejectedBail \<and>
       srv s' = ex_server\<lparr>rate_limiter := record_pairing_failure (he_now ex_pair_env) (rate_limiter ex_server) ex_ip\<rparr>)"
    by (rule handshake_agrees [OF _ _ _ _ _ _ _ _ _ frames])
      (simp_all add: ex_sender_def ex_pair_env_def bincode.de_ser ex_server_def is_rate_limited_def client_pin_def ex_opts_def)
  moreover have "own_name ex_sender = ''kvm-client''" by (simp add: own_name_def ex_sender_def)
  ultimately show ?thesis unfolding if_True by metis
qed

end
