(* ===== verification/KeyPath.thy ===== *)
theory KeyPath
  imports Capture Session
begin

text \<open>
  The way of an input event through the program: captured on the server (\<^verbatim>\<open>server/src/capture.rs\<close>),
  framed (\<^verbatim>\<open>common/src/lib.rs\<close>), read by the client's session loop (\<^verbatim>\<open>client/src/session.rs\<close>) and injected
  (\<^verbatim>\<open>client/src/inject.rs\<close>).
\<close>

section \<open>The two key tables\<close>

lemma code_to_key_named:
  assumes "k \<in> set canonical_keys"
  shows "code_to_key p (key_to_code k) = None \<longleftrightarrow> p = MacOS \<and> k = K_NumLock"
proof (cases "\<exists>n. k = K_Unknown n")
  case True
  with assms show ?thesis by auto
next
  case False
  then show ?thesis
    by (cases k) (simp_all add: code_to_key_def code_table_def numlock_key_def word_le_nat_alt)
qed

lemma code_to_key_unknown:
  assumes "unat n < 2 ^ 32 - 2 ^ 16"
  shows "code_to_key p (key_to_code (K_Unknown n)) = None"
  using unat_key_to_code_Unknown [OF assms] by (simp add: code_to_key_def word_le_nat_alt)

text \<open>
  The two tables fit together. On every platform of the client each key that the server knows
  by name arrives as a key to press, except NumLock on macOS, where there is none; a key known
  only by a number is dropped, unless the number is among the last 65536, where the code wraps
  around: the number \<open>2 ^ 32 - 65535\<close> arrives as Escape.
\<close>

theorem key_tables_fit:
  "(k \<in> set canonical_keys \<longrightarrow> (code_to_key p (key_to_code k) = None \<longleftrightarrow> p = MacOS \<and> k = K_NumLock)) \<and>
   (unat n < 2 ^ 32 - 2 ^ 16 \<longrightarrow> code_to_key p (key_to_code (K_Unknown n)) = None) \<and>
   code_to_key p (key_to_code (K_Unknown (- 65535))) = Some EK_Escape"
  using code_to_key_named code_to_key_unknown by (simp add: code_to_key_def code_table_def word_le_nat_alt)

theorem key_tables_fit_witness:
  "code_to_key MacOS (key_to_code K_NumLock) = None \<and> code_to_key Linux (key_to_code K_NumLock) \<noteq> None \<and>
   code_to_key Linux (key_to_code (K_Unknown 7)) = None"
  using key_tables_fit [of K_NumLock MacOS 7] key_tables_fit [of K_NumLock Linux 7]
  by (simp add: canonical_keys_def)

section \<open>From the keyboard to the injector\<close>














end
