(* ===== verification/GuessRace.thy ===== *)
theory GuessRace
  imports RateLimit
begin

text \<open>
  The limiter under concurrent connections. The pairing handler (\<^verbatim>\<open>server/src/server.rs\<close>) and the SOCKS5
  handler ask the limiter and record a failure under the mutex, but in two separate critical
  sections: other connections of the same peer may be between the two. A guess is therefore two
  events here, and any interleaving of them is a run.
\<close>

section \<open>Guesses in flight\<close>

text \<open>
  \<open>Check t c ip\<close>: connection \<open>c\<close> of peer \<open>ip\<close> asks the limiter; \<open>Wrong t c\<close>: its proof or password turns out
  wrong and the failure is recorded; \<open>Leave c\<close>: it ends in another way (right, or disconnected).
\<close>

datatype guess_event = Check millis nat ip_addr | Wrong millis nat | Leave nat

record race =
  lim :: limiter
  in_flight :: "(nat \<times> ip_addr) list"
  wrong :: "(millis \<times> ip_addr) list"

definition leave :: "nat \<Rightarrow> race \<Rightarrow> race" where
  "leave c s = s\<lparr>in_flight := filter (\<lambda>x. fst x \<noteq> c) (in_flight s)\<rparr>"

fun race_step :: "guess_event \<Rightarrow> race \<Rightarrow> race" where
  "race_step (Check t c ip) s =
     (if is_rate_limited t (lim s) ip then s else s\<lparr>in_flight := in_flight s @ [(c, ip)]\<rparr>)"
| "race_step (Wrong t c) s =
     (case map_of (in_flight s) c of
        None \<Rightarrow> s
      | Some ip \<Rightarrow> (leave c s)\<lparr>lim := record_pairing_failure t (lim s) ip, wrong := wrong s @ [(t, ip)]\<rparr>)"
| "race_step (Leave c) s = leave c s"

definition race_start :: race where
  "race_start = \<lparr>lim = Map.empty, in_flight = [], wrong = []\<rparr>"

fun race_run :: "guess_event list \<Rightarrow> race \<Rightarrow> race" where
  "race_run [] s = s"
| "race_run (e # es) s = race_run es (race_step e s)"

fun time_of :: "guess_event \<Rightarrow> millis option" where
  "time_of (Check t c ip) = Some t"
| "time_of (Wrong t c) = Some t"
| "time_of (Leave c) = None"

text \<open>The clock does not go back.\<close>

fun clocked :: "millis \<Rightarrow> guess_event list \<Rightarrow> bool" where
  "clocked now [] = True"
| "clocked now (e # es) =
     (case time_of e of None \<Rightarrow> clocked now es | Some t \<Rightarrow> now \<le> t \<and> clocked t es)"

text \<open>At no time are more than \<open>k\<close> connections between the check and the verdict.\<close>

fun capped :: "nat \<Rightarrow> guess_event list \<Rightarrow> race \<Rightarrow> bool" where
  "capped k [] s = (length (in_flight s) \<le> k)"
| "capped k (e # es) s = (length (in_flight s) \<le> k \<and> capped k es (race_step e s))"

fun clock_after :: "millis \<Rightarrow> guess_event list \<Rightarrow> millis" where
  "clock_after now [] = now"
| "clock_after now (e # es) = clock_after (case time_of e of None \<Rightarrow> now | Some t \<Rightarrow> t) es"

lemma map_of_filter_other: "map_of (filter (\<lambda>x. fst x \<noteq> c) xs) = (map_of xs)(c := None)"
  by (induction xs) (auto simp: fun_eq_iff)

lemma map_of_leave: "map_of (in_flight (leave c s)) = (map_of (in_flight s))(c := None)"
  by (simp add: leave_def map_of_filter_other)

lemma lim_leave [simp]: "lim (leave c s) = lim s"
  by (simp add: leave_def)

lemma distinct_leave: "distinct (map fst (in_flight r)) \<Longrightarrow> distinct (map fst (in_flight (leave c r)))"
  by (simp add: leave_def distinct_map_filter)

lemma race_run_append: "race_run (es @ fs) s = race_run fs (race_run es s)"
  by (induction es arbitrary: s) simp_all

lemma clocked_append: "clocked now (es @ fs) \<longleftrightarrow> clocked now es \<and> clocked (clock_after now es) fs"
  by (induction es arbitrary: now) (auto split: option.split)

lemma clock_after_append: "clock_after now (es @ fs) = clock_after (clock_after now es) fs"
  by (induction es arbitrary: now) simp_all

lemma capped_append:
  "capped k (es @ fs) s \<longleftrightarrow> capped k es s \<and> capped k fs (race_run es s)"
  by (induction es arbitrary: s; cases fs) auto

lemma capped_end: "capped k es s \<Longrightarrow> length (in_flight (race_run es s)) \<le> k"
  by (induction es arbitrary: s) auto

section \<open>The limiter of one peer\<close>

definition flying :: "ip_addr \<Rightarrow> race \<Rightarrow> nat" where
  "flying ip s = length (filter (\<lambda>x. snd x = ip) (in_flight s))"

definition missed :: "ip_addr \<Rightarrow> race \<Rightarrow> millis list" where
  "missed ip s = times_of ip (wrong s)"

lemma flying_le: "flying ip s \<le> length (in_flight s)"
  by (simp add: flying_def)

lemma flying_leave_eq:
  "flying ip (leave c s) = length (filter (\<lambda>x. fst x \<noteq> c) (filter (\<lambda>x. snd x = ip) (in_flight s)))"
  by (simp add: flying_def leave_def conj_commute)

lemma flying_leave: "flying ip (leave c s) \<le> flying ip s"
  unfolding flying_leave_eq unfolding flying_def by (rule length_filter_le)

lemma flying_leave_less:
  assumes "map_of (in_flight s) c = Some ip"
  shows "flying ip (leave c s) < flying ip s"
proof -
  have "(c, ip) \<in> set (filter (\<lambda>x. snd x = ip) (in_flight s))"
    using map_of_SomeD [OF assms] by simp
  then have "length (filter (\<lambda>x. fst x \<noteq> c) (filter (\<lambda>x. snd x = ip) (in_flight s))) <
      length (filter (\<lambda>x. snd x = ip) (in_flight s))"
    by (rule length_filter_less) simp
  then show ?thesis unfolding flying_leave_eq unfolding flying_def .
qed

lemma note_failure_stays:
  "entry_blocked t e \<Longrightarrow> t < u + RATE_LIMIT_WINDOW \<Longrightarrow> entry_blocked t (note_failure u e)"
  by (auto simp: entry_blocked_def note_failure_def Let_def split: option.splits)

lemma fold_note_failure_stays:
  "entry_blocked t e \<Longrightarrow> (\<And>u. u \<in> set us \<Longrightarrow> t < u + RATE_LIMIT_WINDOW) \<Longrightarrow> entry_blocked t (fold note_failure us e)"
  by (induction us arbitrary: e) (auto intro: note_failure_stays)

text \<open>Five failures within the window block the peer until the window after the fifth is over.\<close>

definition burst_at :: "millis list \<Rightarrow> nat \<Rightarrow> bool" where
  "burst_at ts j \<longleftrightarrow> j + 4 < length ts \<and> ts ! (j + 4) < ts ! j + RATE_LIMIT_WINDOW"

lemma burst_blocks:
  assumes "sorted ts" and "burst_at ts j" and "ts ! (j + 4) \<le> t" and "t < ts ! (j + 4) + RATE_LIMIT_WINDOW"
  shows "entry_blocked t (fold note_failure ts fresh_entry)"
proof -
  have j: "j + 5 \<le> length ts" and close: "ts ! (j + 4) < ts ! j + RATE_LIMIT_WINDOW"
    using assms(2) by (simp_all add: burst_at_def)
  let ?us = "take (j + 5) ts"
  have last: "last ?us = ts ! (j + 4)" using j by (subst last_conv_nth) (auto simp: numeral_eq_Suc)
  have "entry_blocked t (fold note_failure ?us fresh_entry)"
  proof (rule limiter.burst)
    show "sorted ?us" using assms(1) by (rule sorted_wrt_take)
    show "last ?us - ?us ! (length ?us - RATE_LIMIT_MAX_FAILURES) < RATE_LIMIT_WINDOW"
      using j close sorted_nth_mono [OF assms(1), of j "j + 4"] unfolding last
      by (simp add: RATE_LIMIT_MAX_FAILURES_def less_diff_conv2)
  qed (use j assms(3,4) in \<open>simp_all add: last RATE_LIMIT_MAX_FAILURES_def\<close>)
  moreover have "t < u + RATE_LIMIT_WINDOW" if "u \<in> set (drop (j + 5) ts)" for u
  proof -
    from that obtain i where "u = ts ! (j + 5 + i)" "j + 5 + i < length ts"
      by (auto simp: in_set_conv_nth)
    then have "ts ! (j + 4) \<le> u" using assms(1) by (auto intro: sorted_nth_mono)
    with assms(4) show ?thesis by simp
  qed
  ultimately have "entry_blocked t (fold note_failure (drop (j + 5) ts) (fold note_failure ?us fresh_entry))"
    by (rule fold_note_failure_stays)
  then show ?thesis by (metis append_take_drop_id comp_apply fold_append)
qed

section \<open>The invariant of a run\<close>

text \<open>
  As long as a burst blocks the peer, the failures after it and the guesses still in flight are
  together fewer than the cap: no new guess joins them.
\<close>

definition race_inv :: "nat \<Rightarrow> millis \<Rightarrow> ip_addr \<Rightarrow> race \<Rightarrow> bool" where
  "race_inv k now ip s \<longleftrightarrow>
     (let ts = missed ip s in
      entry_of (lim s) ip = fold note_failure ts fresh_entry \<and> sorted ts \<and> (\<forall>t \<in> set ts. t \<le> now) \<and>
      (\<forall>j. burst_at ts j \<longrightarrow> now < ts ! (j + 4) + RATE_LIMIT_WINDOW \<longrightarrow> length ts - (j + 5) + flying ip s < k) \<and>
      (\<forall>i. i + k + 4 < length ts \<longrightarrow> ts ! i + RATE_LIMIT_WINDOW \<le> ts ! (i + k + 4)))"

lemma race_inv_start: "race_inv k now ip race_start"
  by (simp add: race_inv_def race_start_def missed_def times_of_def entry_of_def burst_at_def)

lemma race_inv_mono:
  assumes "race_inv k now ip s" and "now \<le> now'" and "missed ip s' = missed ip s" and "lim s' ip = lim s ip"
    and "flying ip s' \<le> flying ip s"
  shows "race_inv k now' ip s'"
  using assms unfolding race_inv_def Let_def entry_of_def
  by (metis (no_types, lifting) le_less_trans le_trans nat_add_left_cancel_le)

lemma race_inv_blocked:
  assumes "race_inv k now ip s" and "now \<le> t" and "burst_at (missed ip s) j"
    and "t < missed ip s ! (j + 4) + RATE_LIMIT_WINDOW"
  shows "is_rate_limited t (lim s) ip"
proof -
  have inv: "entry_of (lim s) ip = fold note_failure (missed ip s) fresh_entry" "sorted (missed ip s)"
    "\<forall>u \<in> set (missed ip s). u \<le> now"
    using assms(1) by (simp_all add: race_inv_def Let_def)
  have "missed ip s ! (j + 4) \<le> t"
    using inv(3) assms(2,3) by (metis burst_at_def le_trans nth_mem)
  from burst_blocks [OF inv(2) assms(3) this assms(4)] show ?thesis
    by (simp add: limiter.limited_entry inv(1))
qed

lemma race_inv_check:
  assumes "race_inv k now ip s" and "now \<le> t"
  shows "race_inv k t ip (race_step (Check t c ip') s)"
proof (cases "is_rate_limited t (lim s) ip' \<or> ip' \<noteq> ip")
  case True
  then show ?thesis
    by (intro race_inv_mono [OF assms]) (auto simp: missed_def flying_def)
next
  case False
  then have free: "\<not> is_rate_limited t (lim s) ip" and ip: "ip' = ip" by auto
  have "\<not> (burst_at (missed ip s) j \<and> t < missed ip s ! (j + 4) + RATE_LIMIT_WINDOW)" for j
    using race_inv_blocked [OF assms] free by blast
  moreover have "missed ip (race_step (Check t c ip') s) = missed ip s" using free ip by (simp add: missed_def)
  ultimately show ?thesis
    using assms free ip unfolding race_inv_def Let_def by auto
qed

text \<open>Adding one failure to the list.\<close>

lemma burst_at_snoc: "burst_at (ts @ [t]) j \<Longrightarrow> burst_at ts j \<or> j + 5 = length (ts @ [t])"
  by (auto simp: burst_at_def nth_append split: if_splits)

lemma race_inv_wrong:
  assumes inv: "race_inv k now ip s" and "now \<le> t" and cap: "flying ip s \<le> k"
    and c: "map_of (in_flight s) c = Some ip"
  shows "race_inv k t ip (race_step (Wrong t c) s)"
proof -
  let ?ts = "missed ip s" and ?s' = "race_step (Wrong t c) s"
  have ts': "missed ip ?s' = ?ts @ [t]" using c by (simp add: missed_def times_of_def)
  have fl: "flying ip ?s' = flying ip (leave c s)" using c by (simp add: flying_def)
  have less: "flying ip ?s' < flying ip s" using flying_leave_less [OF c] fl by simp
  have old: "entry_of (lim s) ip = fold note_failure ?ts fresh_entry" "sorted ?ts" "\<forall>u \<in> set ?ts. u \<le> now"
    and bursts: "\<And>j. burst_at ?ts j \<Longrightarrow> now < ?ts ! (j + 4) + RATE_LIMIT_WINDOW \<Longrightarrow>
      length ?ts - (j + 5) + flying ip s < k"
    and spaced: "\<And>i. i + k + 4 < length ?ts \<Longrightarrow> ?ts ! i + RATE_LIMIT_WINDOW \<le> ?ts ! (i + k + 4)"
    using inv by (simp_all add: race_inv_def Let_def)
  have entry: "entry_of (lim ?s') ip = fold note_failure (?ts @ [t]) fresh_entry"
    using c old(1) by (simp add: limiter.fail_entry)
  have sorted: "sorted (?ts @ [t])" using old(2,3) assms(2) by (auto simp: sorted_append)
  have new_bursts: "length (?ts @ [t]) - (j + 5) + flying ip ?s' < k"
    if "burst_at (?ts @ [t]) j" "t < (?ts @ [t]) ! (j + 4) + RATE_LIMIT_WINDOW" for j
    using burst_at_snoc [OF that(1)]
  proof
    assume b: "burst_at ?ts j"
    then have "j + 4 < length ?ts" by (simp add: burst_at_def)
    with that(2) assms(2) have "now < ?ts ! (j + 4) + RATE_LIMIT_WINDOW" by (simp add: nth_append)
    from bursts [OF b this] less \<open>j + 4 < length ?ts\<close> show ?thesis by simp
  next
    assume "j + 5 = length (?ts @ [t])"
    with less cap show ?thesis by simp
  qed
  have new_spaced: "(?ts @ [t]) ! i + RATE_LIMIT_WINDOW \<le> (?ts @ [t]) ! (i + k + 4)"
    if "i + k + 4 < length (?ts @ [t])" for i
  proof (cases "i + k + 4 < length ?ts")
    case True
    with spaced [OF True] show ?thesis by (simp add: nth_append)
  next
    case False
    with that have n: "i + k + 4 = length ?ts" by simp
    then have at: "(?ts @ [t]) ! (i + k + 4) = t" by simp
    show ?thesis
    proof (rule ccontr)
      assume "\<not> ?thesis"
      then have close: "t < (?ts @ [t]) ! i + RATE_LIMIT_WINDOW" using at by simp
      have le: "(?ts @ [t]) ! (i + 4) \<le> t" "(?ts @ [t]) ! i \<le> (?ts @ [t]) ! (i + 4)"
        using sorted n at sorted_nth_mono [OF sorted, of "i + 4" "i + k + 4"] sorted_nth_mono [OF sorted, of i "i + 4"]
        by simp_all
      have "burst_at (?ts @ [t]) i" unfolding burst_at_def using n close le by simp
      from new_bursts [OF this] close le n show False by simp
    qed
  qed
  show ?thesis
    unfolding race_inv_def Let_def ts'
    using entry sorted new_bursts new_spaced old(3) assms(2) by (auto simp: sorted_append)
qed

lemma race_inv_other:
  assumes "race_inv k now ip s" and "now \<le> t" and "map_of (in_flight s) c = Some ip'" and "ip' \<noteq> ip"
  shows "race_inv k t ip (race_step (Wrong t c) s)"
proof (rule race_inv_mono [OF assms(1,2)])
  show "missed ip (race_step (Wrong t c) s) = missed ip s"
    using assms(3,4) by (simp add: missed_def times_of_def)
  show "lim (race_step (Wrong t c) s) ip = lim s ip"
    using assms(3,4) by (simp add: record_pairing_failure_def)
  show "flying ip (race_step (Wrong t c) s) \<le> flying ip s"
    using assms(3) flying_leave [of ip c s] by (simp add: flying_def)
qed

lemma race_inv_run:
  assumes "race_inv k now ip s" and "clocked now es" and "capped k es s"
  shows "race_inv k (clock_after now es) ip (race_run es s)"
  using assms
proof (induction es arbitrary: now s)
  case (Cons e es)
  have "\<exists>now'. race_inv k now' ip (race_step e s) \<and> clocked now' es \<and> clock_after now (e # es) = clock_after now' es"
  proof (cases e)
    case (Check t c ip')
    with Cons.prems have "now \<le> t" "clocked t es" by auto
    with Check race_inv_check [OF Cons.prems(1)] show ?thesis by (auto simp del: race_step.simps)
  next
    case (Wrong t c)
    with Cons.prems have t: "now \<le> t" "clocked t es" "flying ip s \<le> k"
      using flying_le [of ip s] by auto
    have "race_inv k t ip (race_step (Wrong t c) s)"
    proof (cases "map_of (in_flight s) c")
      case None
      with race_inv_mono [OF Cons.prems(1) t(1), of s] show ?thesis by simp
    next
      case (Some ip')
      then show ?thesis
        using race_inv_wrong [OF Cons.prems(1) t(1,3)] race_inv_other [OF Cons.prems(1) t(1)] by blast
    qed
    with t Wrong show ?thesis by (auto simp del: race_step.simps)
  next
    case (Leave c)
    with Cons.prems race_inv_mono [OF Cons.prems(1) order.refl, of "leave c s"] flying_leave show ?thesis
      by (auto simp: missed_def leave_def)
  qed
  with Cons.IH Cons.prems(3) show ?case by (auto simp del: race_step.simps clock_after.simps)
qed auto

text \<open>The elements of a sorted list from some value on are its last ones.\<close>

lemma sorted_from:
  "sorted ts \<Longrightarrow> j < length ts \<Longrightarrow> length ts \<le> j + length (filter ((\<le>) t) ts) \<Longrightarrow> (t :: nat) \<le> ts ! j"
proof (induction ts arbitrary: j)
  case (Cons x ts)
  show ?case
  proof (cases "t \<le> x")
    case True
    with Cons.prems show ?thesis by (cases j) (auto dest: nth_mem intro: order_trans)
  next
    case False
    with Cons.prems length_filter_le [of "(\<le>) t" ts] obtain i where "j = Suc i" by (cases j) auto
    with False Cons show ?thesis by auto
  qed
qed simp

text \<open>
  The failures of the last ten minutes and the guesses in flight are together at most four more
  than the cap.
\<close>

lemma race_window:
  assumes inv: "race_inv k now ip s" and now: "now < t + RATE_LIMIT_WINDOW" and cap: "flying ip s \<le> k"
  shows "length (filter ((\<le>) t) (missed ip s)) + flying ip s \<le> k + 4"
proof (rule ccontr)
  let ?ts = "missed ip s"
  let ?m = "length (filter ((\<le>) t) ?ts)" and ?j = "length ?ts - length (filter ((\<le>) t) ?ts)"
  assume over: "\<not> ?thesis"
  have m: "?m \<le> length ?ts" by (rule length_filter_le)
  have j: "?j + 4 < length ?ts" using over cap m by linarith
  have s: "sorted ?ts" "\<forall>u \<in> set ?ts. u \<le> now"
    and bursts: "\<And>j. burst_at ?ts j \<Longrightarrow> now < ?ts ! (j + 4) + RATE_LIMIT_WINDOW \<Longrightarrow>
      length ?ts - (j + 5) + flying ip s < k"
    using inv by (simp_all add: race_inv_def Let_def)
  have "t \<le> ?ts ! ?j" using s(1) j m by (intro sorted_from) linarith+
  moreover have "?ts ! ?j \<le> ?ts ! (?j + 4)" using s(1) j by (intro sorted_nth_mono) simp_all
  moreover have "?ts ! (?j + 4) \<le> now" using s(2) j by simp
  ultimately have "burst_at ?ts ?j" "now < ?ts ! (?j + 4) + RATE_LIMIT_WINDOW"
    using now j by (simp_all add: burst_at_def)
  from bursts [OF this] over j m show False by linarith
qed

text \<open>Elements of a sorted list of which those \<open>n\<close> apart differ by a window: at most \<open>n\<close> fall in one window.\<close>

lemma window_count:
  fixes ts :: "nat list"
  assumes "sorted ts" and spaced: "\<And>i. i + n < length ts \<Longrightarrow> ts ! i + W \<le> ts ! (i + n)"
  shows "length (filter (\<lambda>u. t \<le> u \<and> u < t + W) ts) \<le> n"
proof -
  let ?S = "{j. j < length ts \<and> t \<le> ts ! j \<and> ts ! j < t + W}"
  have "?S \<subseteq> {Min ?S ..< Min ?S + n}"
  proof
    fix j assume j: "j \<in> ?S"
    have fin: "finite ?S" by simp
    have "?S \<noteq> {}" using j by blast
    then have m: "Min ?S \<in> ?S" "Min ?S \<le> j" using Min_in [OF fin] Min_le [OF fin j] by blast+
    have "j < Min ?S + n"
    proof (rule ccontr)
      assume "\<not> ?thesis"
      then have "Min ?S + n \<le> j" by simp
      moreover from this j have "ts ! Min ?S + W \<le> ts ! (Min ?S + n)" by (intro spaced) simp
      ultimately have "ts ! Min ?S + W \<le> ts ! j"
        using sorted_nth_mono [OF assms(1), of "Min ?S + n" j] j by simp
      with m(1) j show False by simp
    qed
    with m show "j \<in> {Min ?S ..< Min ?S + n}" by simp
  qed
  then have "card ?S \<le> card {Min ?S ..< Min ?S + n}" by (intro card_mono) simp_all
  then show ?thesis by (simp add: length_filter_conv_card)
qed

section \<open>Properties\<close>

text \<open>
  How fast a secret can be guessed in parallel. Whatever peers do and however their connections
  interleave, as long as at most \<open>k\<close> connections are between the check and the verdict, of any
  \<open>k + 5\<close> consecutive wrong guesses of one peer the last comes at least ten minutes after the first.
  One connection at a time (\<open>k = 1\<close>) gives the five guesses in ten minutes of the limiter, the cap of
  the control port (\<open>k = 256\<close>) gives 260.
\<close>

theorem concurrent_guesses_limited:
  assumes "clocked 0 es" and "capped k es race_start"
    and "i + k + 4 < length (times_of ip (wrong (race_run es race_start)))"
  shows "times_of ip (wrong (race_run es race_start)) ! i + RATE_LIMIT_WINDOW
    \<le> times_of ip (wrong (race_run es race_start)) ! (i + k + 4)"
proof -
  have "race_inv k (clock_after 0 es) ip (race_run es race_start)"
    using race_inv_run [OF race_inv_start assms(1,2)] .
  with assms(3) show ?thesis by (simp add: race_inv_def Let_def missed_def)
qed

text \<open>Two connections at a time: the second of each pair is checked before the first is judged.\<close>

definition ex_pairs :: "guess_event list" where
  "ex_pairs = concat (map (\<lambda>t. [Check t 0 (IPv4 [10, 0, 0, 9]), Check t 1 (IPv4 [10, 0, 0, 9]), Wrong t 0, Wrong t 1])
     [1, 2, 3, 4, 600003])"

lemmas race_eval =
  ex_pairs_def race_start_def leave_def times_of_def is_rate_limited_def record_pairing_failure_def
  note_failure_def fresh_entry_def RATE_LIMIT_MAX_FAILURES_def RATE_LIMIT_WINDOW_def Let_def

theorem concurrent_guesses_limited_witness:
  "times_of (IPv4 [10, 0, 0, 9]) (wrong (race_run ex_pairs race_start)) = [1, 1, 2, 2, 3, 3, 600003, 600003] \<and>
   times_of (IPv4 [10, 0, 0, 9]) (wrong (race_run ex_pairs race_start)) ! 0 + RATE_LIMIT_WINDOW
     \<le> times_of (IPv4 [10, 0, 0, 9]) (wrong (race_run ex_pairs race_start)) ! (0 + 2 + 4)"
proof
  show run: "times_of (IPv4 [10, 0, 0, 9]) (wrong (race_run ex_pairs race_start)) = [1, 1, 2, 2, 3, 3, 600003, 600003]"
    by (simp add: race_eval)
  show "times_of (IPv4 [10, 0, 0, 9]) (wrong (race_run ex_pairs race_start)) ! 0 + RATE_LIMIT_WINDOW
     \<le> times_of (IPv4 [10, 0, 0, 9]) (wrong (race_run ex_pairs race_start)) ! (0 + 2 + 4)"
    by (rule concurrent_guesses_limited) (simp_all add: run, simp_all add: race_eval)
qed

end
