(* ===== verification/Proxy.thy ===== *)
theory Proxy
  imports Socks5 GuessRace "HOL-Library.Sublist"
begin

text \<open>
  \<open>Socks5Server::run\<close> of \<^verbatim>\<open>server/src/socks5.rs\<close>: every accepted connection gets a task of its own, and
  all tasks share one limiter. A task is cut at the places where it waits for the peer between two
  uses of the limiter: the greeting up to the method reply, the credentials up to the verdict, and
  the rest. What a peer will send is part of its connection from the start.
\<close>

section \<open>The handler in three parts\<close>

text \<open>From the first byte to the method reply; the result says whether credentials have to follow.\<close>

definition greet :: "socks5_config \<Rightarrow> ip_addr \<Rightarrow> millis \<Rightarrow> (socks_state, socks_error, bool) io" where
  "greet cfg ip t1 =
     bindM (s_read 2) (\<lambda>header.
     if header ! 0 \<noteq> SOCKS5_VERSION then bail (UnsupportedSocksVersion (header ! 0))
     else
       bindM (s_read (unat (header ! 1))) (\<lambda>methods.
       bindM getM (\<lambda>s.
       if sc_allow_anonymous cfg then
         if AUTH_NO_AUTH \<notin> set methods then seqM (s_write [SOCKS5_VERSION, 0xFF]) (bail ClientLacksNoAuth)
         else seqM (s_write [SOCKS5_VERSION, AUTH_NO_AUTH]) (ret False)
       else if is_rate_limited t1 (limiter s) ip then
         seqM (ignoreM (s_write [SOCKS5_VERSION, 0xFF])) (bail SocksRateLimited)
       else if sc_username cfg = None \<or> sc_password cfg = None then bail NoCredentialsConfigured
       else if AUTH_USER_PASS \<notin> set methods then
         seqM (s_write [SOCKS5_VERSION, 0xFF]) (bail ClientLacksUserPass)
       else seqM (s_write [SOCKS5_VERSION, AUTH_USER_PASS]) (ret True))))"

definition serve :: "(string \<Rightarrow> bool) \<Rightarrow> relay_result \<Rightarrow> (socks_state, socks_error, unit) io" where
  "serve connect relay =
     bindM negotiate_request (\<lambda>target_addr.
     seqM (modifyM (\<lambda>s. s\<lparr>dialled := dialled s @ [target_addr]\<rparr>))
       (if connect target_addr then
          seqM (s_write [SOCKS5_VERSION, 0, 0, 1, 0, 0, 0, 0, 0, 0])
            (case relay of
               RelayError \<Rightarrow> bail RelayFailed
             | RelayTimedOut \<Rightarrow> ret ()
             | RelayDone \<Rightarrow> ret ())
        else
          seqM (ignoreM (s_write [SOCKS5_VERSION, 4, 0, 1, 0, 0, 0, 0, 0, 0])) (bail ConnectFailed)))"

text \<open>One after the other the parts are the handler.\<close>

lemma handle_client_parts:
  "handle_client (Some cfg) ip t1 t2 connect relay =
     bindM (greet cfg ip t1) (\<lambda>auth.
     seqM (if auth then user_pass_auth cfg ip t2 else ret ()) (serve connect relay))"
proof -
  have methods_part: "seqM (negotiate_method (Some cfg) ip t1 t2 methods) k =
      bindM (bindM getM (\<lambda>s.
        if sc_allow_anonymous cfg then
          if AUTH_NO_AUTH \<notin> set methods then seqM (s_write [SOCKS5_VERSION, 0xFF]) (bail ClientLacksNoAuth)
          else seqM (s_write [SOCKS5_VERSION, AUTH_NO_AUTH]) (ret False)
        else if is_rate_limited t1 (limiter s) ip then
          seqM (ignoreM (s_write [SOCKS5_VERSION, 0xFF])) (bail SocksRateLimited)
        else if sc_username cfg = None \<or> sc_password cfg = None then bail NoCredentialsConfigured
        else if AUTH_USER_PASS \<notin> set methods then
          seqM (s_write [SOCKS5_VERSION, 0xFF]) (bail ClientLacksUserPass)
        else seqM (s_write [SOCKS5_VERSION, AUTH_USER_PASS]) (ret True)))
       (\<lambda>auth. seqM (if auth then user_pass_auth cfg ip t2 else ret ()) k)"
    for methods and k :: "(socks_state, socks_error, 'z) io"
    by (rule ext) (auto simp: negotiate_method_def Let_def seqM_def bindM_def getM_def ret_def bail_def
        split: prod.splits sum.splits)
  have "handle_client (Some cfg) ip t1 t2 connect relay =
      bindM (s_read 2) (\<lambda>header.
      if header ! 0 \<noteq> SOCKS5_VERSION then bail (UnsupportedSocksVersion (header ! 0))
      else bindM (s_read (unat (header ! 1))) (\<lambda>methods.
        seqM (negotiate_method (Some cfg) ip t1 t2 methods) (serve connect relay)))"
    by (rule ext) (auto simp: handle_client_def negotiate_def serve_def seqM_def bindM_def bail_def
        split: prod.splits sum.splits)
  also have "\<dots> = bindM (greet cfg ip t1) (\<lambda>auth.
     seqM (if auth then user_pass_auth cfg ip t2 else ret ()) (serve connect relay))"
    unfolding greet_def methods_part bindM_assoc
    by (rule arg_cong [where f = "bindM (s_read 2)"]) (auto simp: bindM_assoc fun_eq_iff)
  finally show ?thesis .
qed

section \<open>Connections side by side\<close>

datatype proxy_phase = Greeting | Authenticating | Serving | Ended "socks_error + unit"

record proxy_conn =
  px_ip :: ip_addr
  px_stream :: wire
  px_phase :: proxy_phase

record proxy =
  px_limiter :: limiter
  px_dialled :: "string list"
  px_conns :: "nat \<rightharpoonup> proxy_conn"
  px_clock :: millis

definition proxy_start :: proxy where
  "proxy_start = \<lparr>px_limiter = Map.empty, px_dialled = [], px_conns = Map.empty, px_clock = 0\<rparr>"

text \<open>A part of the handler of connection \<open>c\<close> runs on its stream and the shared limiter.\<close>

definition run_part ::
    "(socks_state, socks_error, 'a) io \<Rightarrow> ('a \<Rightarrow> proxy_phase) \<Rightarrow> nat \<Rightarrow> proxy_conn \<Rightarrow> millis \<Rightarrow> proxy \<Rightarrow> proxy" where
  "run_part m next_phase c pc t w =
     (case m \<lparr>stream = px_stream pc, limiter = px_limiter w, dialled = px_dialled w\<rparr> of
        (r, s) \<Rightarrow>
          w\<lparr>px_limiter := limiter s, px_dialled := dialled s, px_clock := t,
            px_conns := (px_conns w)(c \<mapsto> pc\<lparr>px_stream := stream s,
              px_phase := (case r of Inl e \<Rightarrow> Ended (Inl e) | Inr x \<Rightarrow> next_phase x)\<rparr>)\<rparr>)"

inductive proxy_step :: "socks5_config \<Rightarrow> proxy \<Rightarrow> proxy \<Rightarrow> bool" for cfg where
  accepted: "px_conns w c = None \<Longrightarrow>
     proxy_step cfg w (w\<lparr>px_conns := (px_conns w)(c \<mapsto> \<lparr>px_ip = ip, px_stream = str, px_phase = Greeting\<rparr>)\<rparr>)"
| greeted: "px_conns w c = Some pc \<Longrightarrow> px_phase pc = Greeting \<Longrightarrow> px_clock w \<le> t \<Longrightarrow>
     proxy_step cfg w
       (run_part (greet cfg (px_ip pc) t) (\<lambda>auth. if auth then Authenticating else Serving) c pc t w)"
| authenticated: "px_conns w c = Some pc \<Longrightarrow> px_phase pc = Authenticating \<Longrightarrow> px_clock w \<le> t \<Longrightarrow>
     proxy_step cfg w (run_part (user_pass_auth cfg (px_ip pc) t) (\<lambda>_. Serving) c pc t w)"
| served: "px_conns w c = Some pc \<Longrightarrow> px_phase pc = Serving \<Longrightarrow> px_clock w \<le> t \<Longrightarrow>
     proxy_step cfg w (run_part (serve reachable relay) (\<lambda>_. Ended (Inr ())) c pc t w)"

inductive proxy_reach :: "socks5_config \<Rightarrow> proxy \<Rightarrow> bool" for cfg where
  proxy_begin: "proxy_reach cfg proxy_start"
| proxy_next: "proxy_reach cfg w \<Longrightarrow> proxy_step cfg w w' \<Longrightarrow> proxy_reach cfg w'"

inductive_cases proxy_stepE: "proxy_step cfg w w'"

section \<open>The limiter is the one of the race\<close>

definition same_limiter :: "socks_state \<Rightarrow> socks_state \<Rightarrow> bool" where
  "same_limiter s t \<longleftrightarrow> limiter t = limiter s"

interpretation steady: state_order same_limiter
  by unfold_locales (simp_all add: same_limiter_def)

lemma steady_read: "keeps same_limiter (s_read n)"
  by (simp add: keeps_def same_limiter_def snd_s_read)

lemma steady_write: "keeps same_limiter (s_write bs)"
  by (simp add: keeps_def same_limiter_def s_write_frame)

lemma steady_dial: "keeps same_limiter (modifyM (\<lambda>s. s\<lparr>dialled := f s\<rparr>))"
  by (simp add: keeps_def same_limiter_def modifyM_def)

lemmas steady_intros =
  steady.keeps_ret steady.keeps_bail steady.keeps_getM steady.keeps_bindM steady.keeps_seqM
  steady.keeps_ignoreM steady_read steady_write steady_dial keeps_if

lemma steady_read1: "keeps same_limiter s_read1"
  unfolding s_read1_def by (intro steady_intros)

lemma steady_greet: "keeps same_limiter (greet cfg ip t)"
  unfolding greet_def by (intro steady_intros)

lemma steady_request: "keeps same_limiter negotiate_request"
  unfolding negotiate_request_def read_port_def Let_def by (intro steady_intros steady_read1)

lemma steady_serve: "keeps same_limiter (serve connect relay)"
  unfolding serve_def by (cases relay) (auto intro!: steady_intros steady_request)

lemma greet_limiter: "greet cfg ip t s = (r, s') \<Longrightarrow> limiter s' = limiter s"
  using steady_greet unfolding keeps_def same_limiter_def by (metis snd_conv)

lemma serve_limiter: "serve connect relay s = (r, s') \<Longrightarrow> limiter s' = limiter s"
  using steady_serve unfolding keeps_def same_limiter_def by (metis snd_conv)

lemma io_limiter:
  "s_read n s = (r, s') \<Longrightarrow> limiter s' = limiter s"
  "s_read1 s = (r1, s') \<Longrightarrow> limiter s' = limiter s"
  "s_write bs s = (r2, s') \<Longrightarrow> limiter s' = limiter s"
  using steady_read steady_read1 steady_write unfolding keeps_def same_limiter_def by (metis snd_conv)+

lemma greet_True:
  assumes "greet cfg ip t s = (Inr True, s')"
  shows "\<not> is_rate_limited t (limiter s) ip"
  using assms
  by (auto simp: greet_def bindM_Inr_iff seqM_Inr_iff getM_def ret_def bail_def
      split: if_splits dest!: io_limiter(1))

text \<open>The verdict records at most one failure, and then the connection ends.\<close>

lemma user_pass_auth_limiter:
  assumes "user_pass_auth cfg ip t s = (r, s')"
  shows "limiter s' = limiter s \<or> (limiter s' = record_pairing_failure t (limiter s) ip \<and> (\<exists>e. r = Inl e))"
  using assms
  by (auto simp: user_pass_auth_def bindM_def seqM_def modifyM_def bail_def Let_def
      split: prod.splits sum.splits if_splits dest!: io_limiter)

text \<open>Who is told that the credentials are wrong was counted.\<close>

lemma io_error:
  "s_read n s = (r, s') \<Longrightarrow> r \<noteq> Inl AuthenticationFailed" "s_read1 s = (r1, s') \<Longrightarrow> r1 \<noteq> Inl AuthenticationFailed"
  "s_write bs s = (r2, s') \<Longrightarrow> r2 \<noteq> Inl AuthenticationFailed"
  by (auto simp: s_read_def s_read1_def s_write_def bindM_def ret_def split: prod.splits sum.splits)

lemma user_pass_auth_wrong:
  assumes "user_pass_auth cfg ip t s = (Inl AuthenticationFailed, s')"
  shows "limiter s' = record_pairing_failure t (limiter s) ip"
proof -
  note judged = user_pass_auth_def bindM_def seqM_def modifyM_def bail_def Let_def
  from assms show ?thesis
    by (auto simp: judged split: prod.splits sum.splits if_splits dest: io_error) (auto dest!: io_limiter)
qed

text \<open>
  The connections between the check and the verdict are the ones that wait for credentials.
\<close>

definition awaiting :: "proxy \<Rightarrow> nat \<Rightarrow> ip_addr option" where
  "awaiting w c =
     (case px_conns w c of
        None \<Rightarrow> None
      | Some pc \<Rightarrow> if px_phase pc = Authenticating then Some (px_ip pc) else None)"

definition proxy_race :: "proxy \<Rightarrow> guess_event list \<Rightarrow> bool" where
  "proxy_race w es \<longleftrightarrow>
     clocked 0 es \<and> clock_after 0 es \<le> px_clock w \<and>
     lim (race_run es race_start) = px_limiter w \<and>
     (\<forall>c. map_of (in_flight (race_run es race_start)) c = awaiting w c) \<and>
     distinct (map fst (in_flight (race_run es race_start)))"

text \<open>What a part of a handler does to the connections that wait.\<close>

lemma run_part_simps:
  assumes "m \<lparr>stream = px_stream pc, limiter = px_limiter w, dialled = px_dialled w\<rparr> = (r, s)"
    and "w' = run_part m next_phase c pc t w"
  shows "px_limiter w' = limiter s" "px_clock w' = t"
    "awaiting w' = (awaiting w)
       (c := if (case r of Inl e \<Rightarrow> Ended (Inl e) | Inr x \<Rightarrow> next_phase x) = Authenticating then Some (px_ip pc) else None)"
  using assms by (auto simp: run_part_def awaiting_def fun_eq_iff)

lemma proxy_race_idle:
  assumes "proxy_race w es" and "px_clock w \<le> px_clock w'" and "px_limiter w' = px_limiter w" and "awaiting w' = awaiting w"
  shows "proxy_race w' es"
  using assms by (simp add: proxy_race_def)

lemma proxy_race_event:
  assumes race: "proxy_race w es" and time: "clocked (clock_after 0 es) [e]" "clock_after (clock_after 0 es) [e] \<le> px_clock w'"
    and lim: "lim (race_step e (race_run es race_start)) = px_limiter w'"
    and fl: "map_of (in_flight (race_step e (race_run es race_start))) = awaiting w'"
    and d: "distinct (map fst (in_flight (race_step e (race_run es race_start))))"
  shows "proxy_race w' (es @ [e])"
  using assms by (simp add: proxy_race_def clocked_append clock_after_append race_run_append)

text \<open>A connection whose credentials are judged wrong in a step.\<close>

definition told_wrong :: "proxy \<Rightarrow> proxy \<Rightarrow> nat \<Rightarrow> ip_addr \<Rightarrow> bool" where
  "told_wrong w w' c ip \<longleftrightarrow> awaiting w c = Some ip \<and>
     (\<exists>pc. px_conns w' c = Some pc \<and> px_phase pc = Ended (Inl AuthenticationFailed))"

text \<open>What a step adds to the events: nothing, or one event, which is the failure when a connection is told so.\<close>

definition race_adds :: "proxy \<Rightarrow> proxy \<Rightarrow> guess_event list \<Rightarrow> guess_event list \<Rightarrow> bool" where
  "race_adds w w' es fs \<longleftrightarrow> proxy_race w' (es @ fs) \<and> length fs \<le> 1 \<and>
     (\<forall>c ip. told_wrong w w' c ip \<longrightarrow> fs = [Wrong (px_clock w') c])"

lemma told_wrong_other:
  assumes "\<And>c'. c' \<noteq> c \<Longrightarrow> px_conns w' c' = px_conns w c'" and "told_wrong w w' c' ip"
  shows "c' = c"
proof (rule ccontr)
  assume "c' \<noteq> c"
  from assms(1) [OF this] assms(2) show False by (auto simp: told_wrong_def awaiting_def split: if_splits)
qed

lemma run_part_other: "c' \<noteq> c \<Longrightarrow> px_conns (run_part m next_phase c pc t w) c' = px_conns w c'"
  by (simp add: run_part_def split: prod.split)

lemma race_adds_idle:
  assumes "proxy_race w es" and "px_clock w \<le> px_clock w'" and "px_limiter w' = px_limiter w" and "awaiting w' = awaiting w"
  shows "race_adds w w' es []"
proof -
  have "\<not> told_wrong w w' c ip" for c ip
  proof
    assume "told_wrong w w' c ip"
    then have "awaiting w c = Some ip" "awaiting w' c = None" by (auto simp: told_wrong_def awaiting_def)
    with assms(4) have "Some ip = None" by simp
    then show False by simp
  qed
  with proxy_race_idle [OF assms] show ?thesis by (simp add: race_adds_def)
qed

lemma greeted_race:
  assumes race: "proxy_race w es" and c: "px_conns w c = Some pc" "px_phase pc = Greeting" "px_clock w \<le> t"
    and w': "w' = run_part (greet cfg (px_ip pc) t) (\<lambda>auth. if auth then Authenticating else Serving) c pc t w"
  shows "\<exists>fs. race_adds w w' es fs"
proof -
  obtain r s where m: "greet cfg (px_ip pc) t \<lparr>stream = px_stream pc, limiter = px_limiter w, dialled = px_dialled w\<rparr> = (r, s)"
    by fastforce
  note after = run_part_simps [OF m w']
  have none: "awaiting w c = None" using c by (simp add: awaiting_def)
  have lims: "limiter s = px_limiter w" using greet_limiter [OF m] by simp
  show ?thesis
  proof (cases "r = Inr True")
    case True
    have free: "\<not> is_rate_limited t (px_limiter w) (px_ip pc)" using greet_True m True by fastforce
    let ?s = "race_run es race_start"
    have new: "map_of (in_flight ?s) c = None" using race none by (simp add: proxy_race_def)
    then have "map_of (in_flight ?s @ [(c, px_ip pc)]) = (map_of (in_flight ?s))(c \<mapsto> px_ip pc)"
      by (auto simp: fun_eq_iff map_add_def split: option.split)
    moreover have "c \<notin> fst ` set (in_flight ?s)" using new by (simp add: map_of_eq_None_iff)
    moreover have "map_of (in_flight ?s) = awaiting w" using race by (auto simp: proxy_race_def)
    ultimately have "proxy_race w' (es @ [Check t c (px_ip pc)])"
      using race free True after lims c(3)
      by (intro proxy_race_event [OF race]) (auto simp: proxy_race_def)
    moreover have "\<not> told_wrong w w' c' ip" for c' ip
      using told_wrong_other [of c w' w c' ip] w' none by (auto simp: run_part_other) (auto simp: told_wrong_def)
    ultimately show ?thesis by (intro exI [of _ "[Check t c (px_ip pc)]"]) (simp add: race_adds_def)
  next
    case False
    then have "awaiting w' = awaiting w"
      using after(3) none by (cases r) (auto simp: fun_eq_iff)
    with after lims c(3) show ?thesis using race_adds_idle [OF race] by auto
  qed
qed

lemma authenticated_race:
  assumes race: "proxy_race w es" and c: "px_conns w c = Some pc" "px_phase pc = Authenticating" "px_clock w \<le> t"
    and w': "w' = run_part (user_pass_auth cfg (px_ip pc) t) (\<lambda>_. Serving) c pc t w"
  shows "\<exists>fs. race_adds w w' es fs"
proof -
  obtain r s where m: "user_pass_auth cfg (px_ip pc) t \<lparr>stream = px_stream pc, limiter = px_limiter w, dialled = px_dialled w\<rparr> = (r, s)"
    by fastforce
  note after = run_part_simps [OF m w']
  let ?s = "race_run es race_start"
  have some: "awaiting w c = Some (px_ip pc)" using c by (simp add: awaiting_def)
  have w: "map_of (in_flight ?s) = awaiting w" "lim ?s = px_limiter w" "distinct (map fst (in_flight ?s))"
    using race by (auto simp: proxy_race_def)
  have gone: "awaiting w' = (awaiting w)(c := None)" using after(3) by (cases r) simp_all
  have only: "c' = c \<and> r = Inl AuthenticationFailed" if "told_wrong w w' c' ip" for c' ip
  proof
    show "c' = c" using told_wrong_other [OF _ that, of c] w' by (simp add: run_part_other)
    with that w' m show "r = Inl AuthenticationFailed"
      by (auto simp: told_wrong_def run_part_def split: sum.splits)
  qed
  show ?thesis
  proof (cases "limiter s = record_pairing_failure t (px_limiter w) (px_ip pc)")
    case True
    then have "proxy_race w' (es @ [Wrong t c])"
      using race w gone some after(1,2) c(3)
      by (intro proxy_race_event [OF race]) (auto simp: proxy_race_def map_of_leave distinct_leave)
    with only after(2) show ?thesis by (intro exI [of _ "[Wrong t c]"]) (auto simp: race_adds_def)
  next
    case False
    then have "limiter s = px_limiter w" using user_pass_auth_limiter [OF m] by auto
    then have "proxy_race w' (es @ [Leave c])"
      using race w gone after(1,2) c(3)
      by (intro proxy_race_event [OF race]) (auto simp: proxy_race_def map_of_leave distinct_leave)
    moreover have "\<not> told_wrong w w' c' ip" for c' ip
      using only False user_pass_auth_wrong m by fastforce
    ultimately show ?thesis by (intro exI [of _ "[Leave c]"]) (simp add: race_adds_def)
  qed
qed

lemma proxy_race_step:
  assumes step: "proxy_step cfg w w'" and race: "proxy_race w es"
  shows "\<exists>fs. race_adds w w' es fs"
  using step
proof cases
  case (accepted c ip str)
  have "awaiting w' = awaiting w" using accepted by (auto simp: awaiting_def fun_eq_iff)
  with accepted have "race_adds w w' es []" by (intro race_adds_idle [OF race]) simp_all
  then show ?thesis ..
next
  case (greeted c pc t)
  then show ?thesis using greeted_race [OF race] by blast
next
  case (authenticated c pc t)
  then show ?thesis using authenticated_race [OF race] by blast
next
  case (served c pc t reachable relay)
  obtain r s where m: "serve reachable relay \<lparr>stream = px_stream pc, limiter = px_limiter w, dialled = px_dialled w\<rparr> = (r, s)"
    by fastforce
  note after = run_part_simps [OF m served(1)]
  have "awaiting w' = awaiting w"
    using after(3) served by (cases r) (auto simp: fun_eq_iff awaiting_def)
  with after serve_limiter [OF m] served(4) show ?thesis using race_adds_idle [OF race] by auto
qed

section \<open>The log of wrong passwords\<close>

text \<open>
  Runs of the proxy in which at most \<open>k\<close> connections wait for credentials at a time, with the log of the connections
  that were told that theirs are wrong. The log is read off the replies, not off the limiter.
\<close>

inductive proxy_log :: "socks5_config \<Rightarrow> nat \<Rightarrow> (millis \<times> ip_addr) list \<Rightarrow> proxy \<Rightarrow> bool" for cfg k where
  log_start: "proxy_log cfg k [] proxy_start"
| log_same: "proxy_log cfg k gs w \<Longrightarrow> proxy_step cfg w w' \<Longrightarrow> card (dom (awaiting w')) \<le> k \<Longrightarrow>
    \<forall>c ip. \<not> told_wrong w w' c ip \<Longrightarrow> proxy_log cfg k gs w'"
| log_wrong: "proxy_log cfg k gs w \<Longrightarrow> proxy_step cfg w w' \<Longrightarrow> card (dom (awaiting w')) \<le> k \<Longrightarrow>
    told_wrong w w' c ip \<Longrightarrow> proxy_log cfg k (gs @ [(px_clock w', ip)]) w'"

lemma in_flight_card:
  assumes "proxy_race w es"
  shows "length (in_flight (race_run es race_start)) = card (dom (awaiting w))"
proof -
  let ?xs = "in_flight (race_run es race_start)"
  have "map_of ?xs = awaiting w" using assms by (auto simp: proxy_race_def)
  then have "dom (awaiting w) = set (map fst ?xs)" by (metis dom_map_of_conv_image_fst set_map)
  moreover have "distinct (map fst ?xs)" using assms by (simp add: proxy_race_def)
  ultimately show ?thesis using distinct_card by fastforce
qed

lemma capped_adds:
  assumes "capped k es race_start" and "race_adds w w' es fs" and "card (dom (awaiting w')) \<le> k"
  shows "capped k (es @ fs) race_start"
proof -
  have "length (in_flight (race_run fs (race_run es race_start))) \<le> k"
    using assms(2,3) in_flight_card [of w' "es @ fs"] by (simp add: race_adds_def race_run_append)
  moreover have "fs = [] \<or> (\<exists>e. fs = [e])" using assms(2) by (cases fs) (auto simp: race_adds_def)
  ultimately show ?thesis using assms(1) capped_end [OF assms(1)] by (auto simp: capped_append)
qed

lemma missed_adds: "subseq (missed ip s) (missed ip (race_run fs s))"
proof (induction fs arbitrary: s)
  case (Cons e fs)
  have "subseq (missed ip s) (missed ip (race_step e s))"
    by (cases e) (auto simp: missed_def times_of_def leave_def split: option.split)
  with Cons show ?case by (simp add: subseq_order.order_trans)
qed simp

lemma proxy_log_race:
  assumes "proxy_log cfg k gs w"
  shows "\<exists>es. proxy_race w es \<and> capped k es race_start \<and>
    (\<forall>ip. subseq (times_of ip gs) (missed ip (race_run es race_start)))"
  using assms
proof (induction rule: proxy_log.induct)
  case log_start
  show ?case
    by (rule exI [of _ "[]"])
      (simp add: proxy_race_def proxy_start_def race_start_def awaiting_def times_of_def)
next
  case (log_same gs w w')
  then obtain es where es: "proxy_race w es" "capped k es race_start"
    "\<forall>ip. subseq (times_of ip gs) (missed ip (race_run es race_start))" by blast
  obtain fs where fs: "race_adds w w' es fs" using proxy_race_step [OF log_same(2) es(1)] by blast
  have "subseq (times_of ip gs) (missed ip (race_run (es @ fs) race_start))" for ip
    using es(3) missed_adds subseq_order.order_trans by (metis race_run_append)
  with fs capped_adds [OF es(2) fs log_same(3)] show ?case by (auto simp: race_adds_def)
next
  case (log_wrong gs w w' c ip)
  then obtain es where es: "proxy_race w es" "capped k es race_start"
    "\<forall>ip. subseq (times_of ip gs) (missed ip (race_run es race_start))" by blast
  obtain fs where fs: "race_adds w w' es fs" using proxy_race_step [OF log_wrong(2) es(1)] by blast
  let ?s = "race_run es race_start"
  have f: "fs = [Wrong (px_clock w') c]" using fs log_wrong(4) by (auto simp: race_adds_def)
  have "map_of (in_flight ?s) c = Some ip" using es(1) log_wrong(4) by (simp add: proxy_race_def told_wrong_def)
  then have "missed i (race_run (es @ fs) race_start) = missed i ?s @ times_of i [(px_clock w', ip)]" for i
    by (simp add: f race_run_append missed_def times_of_def leave_def)
  moreover have "times_of i (gs @ [(px_clock w', ip)]) = times_of i gs @ times_of i [(px_clock w', ip)]" for i
    by (simp add: times_of_def)
  ultimately have "subseq (times_of i (gs @ [(px_clock w', ip)])) (missed i (race_run (es @ fs) race_start))" for i
    using es(3) by (simp add: list_emb_append_mono)
  with fs capped_adds [OF es(2) fs log_wrong(3)] show ?case by (auto simp: race_adds_def)
qed

section \<open>Properties\<close>

text \<open>
  C33: how fast the password of the proxy can be guessed. In every run of the accept loop and its handlers in which at most
  \<open>k\<close> connections wait for credentials at a time, a peer is told at most \<open>k + 4\<close> times in any ten minutes that
  its credentials are wrong. The code has no such \<open>k\<close>: \<open>proxy_parallel_guesses\<close>.
\<close>

theorem proxy_guesses_limited:
  assumes "proxy_log cfg k gs w"
  shows "length (filter (\<lambda>u. t \<le> u \<and> u < t + RATE_LIMIT_WINDOW) (times_of ip gs)) \<le> k + 4"
proof -
  obtain es where es: "proxy_race w es" "capped k es race_start"
    "subseq (times_of ip gs) (missed ip (race_run es race_start))"
    using proxy_log_race [OF assms] by blast
  then have "race_inv k (clock_after 0 es) ip (race_run es race_start)"
    by (intro race_inv_run [OF race_inv_start]) (simp_all add: proxy_race_def)
  then have "length (filter (\<lambda>u. t \<le> u \<and> u < t + RATE_LIMIT_WINDOW) (missed ip (race_run es race_start))) \<le> k + 4"
    by (intro window_count) (auto simp: race_inv_def Let_def add.assoc)
  moreover have "length (filter (\<lambda>u. t \<le> u \<and> u < t + RATE_LIMIT_WINDOW) (times_of ip gs)) \<le>
      length (filter (\<lambda>u. t \<le> u \<and> u < t + RATE_LIMIT_WINDOW) (missed ip (race_run es race_start)))"
    using es(3) by (meson list_emb_length subseq_filter)
  ultimately show ?thesis by linarith
qed

text \<open>One connection that offers a password and will send an empty user name and password.\<close>

definition guess_wire :: "wire" where
  "guess_wire = \<lparr>rx = greeting [AUTH_USER_PASS] @ auth_bytes [] [], tx = [], tx_room = None\<rparr>"

definition waiting_conn :: "ip_addr \<Rightarrow> proxy_conn" where
  "waiting_conn ip = \<lparr>px_ip = ip,
     px_stream = \<lparr>rx = auth_bytes [] [], tx = [SOCKS5_VERSION, AUTH_USER_PASS], tx_room = None\<rparr>, px_phase = Authenticating\<rparr>"

lemma greet_guess:
  assumes "\<not> sc_allow_anonymous cfg" "sc_username cfg = Some cu" "sc_password cfg = Some cp"
  shows "greet cfg ip t \<lparr>stream = guess_wire, limiter = Map.empty, dialled = d\<rparr> =
    (Inr True, \<lparr>stream = px_stream (waiting_conn ip), limiter = Map.empty, dialled = d\<rparr>)"
  using assms
  by (simp add: greet_def guess_wire_def greeting_def socks_run is_rate_limited_def waiting_conn_def
      s_read_append [where bs = "[5, 1]"] s_read_append [where bs = "[2]"] socks_consts)

lemma guess_greeted:
  assumes cfg: "\<not> sc_allow_anonymous cfg" "sc_username cfg = Some cu" "sc_password cfg = Some cp"
    and w: "px_conns w c = Some \<lparr>px_ip = ip, px_stream = guess_wire, px_phase = Greeting\<rparr>" "px_limiter w = Map.empty" "px_clock w = 0"
  shows "proxy_step cfg w (w\<lparr>px_conns := (px_conns w)(c \<mapsto> waiting_conn ip)\<rparr>)"
proof -
  let ?pc = "\<lparr>px_ip = ip, px_stream = guess_wire, px_phase = Greeting\<rparr>"
  have "run_part (greet cfg (px_ip ?pc) 0) (\<lambda>auth. if auth then Authenticating else Serving) c ?pc 0 w =
      w\<lparr>px_conns := (px_conns w)(c \<mapsto> waiting_conn ip)\<rparr>"
    using greet_guess [OF cfg, of ip 0 "px_dialled w"] w(2,3)
    by (intro proxy.equality) (simp_all add: run_part_def waiting_conn_def)
  then show ?thesis using greeted [of w c ?pc 0 cfg] w by simp
qed

definition judged_conn :: "ip_addr \<Rightarrow> proxy_conn" where
  "judged_conn ip = \<lparr>px_ip = ip, px_stream = \<lparr>rx = [], tx = [SOCKS5_VERSION, AUTH_USER_PASS, 1, 1], tx_room = None\<rparr>,
     px_phase = Ended (Inl AuthenticationFailed)\<rparr>"

lemma guess_judged:
  assumes cfg: "sc_username cfg = Some cu" "sc_password cfg = Some cp" "cu \<noteq> []"
    and w: "px_conns w c = Some (waiting_conn ip)" "px_clock w = 0"
  shows "proxy_step cfg w (w\<lparr>px_limiter := record_pairing_failure 0 (px_limiter w) ip,
    px_conns := (px_conns w)(c \<mapsto> judged_conn ip)\<rparr>)"
proof -
  have "as_bytes cu \<noteq> []" using cfg(3) by (cases cu) (simp_all add: as_bytes_def)
  then have "user_pass_auth cfg ip 0 \<lparr>stream = px_stream (waiting_conn ip), limiter = px_limiter w, dialled = px_dialled w\<rparr> =
      (Inl AuthenticationFailed, \<lparr>stream = px_stream (judged_conn ip),
         limiter = record_pairing_failure 0 (px_limiter w) ip, dialled = px_dialled w\<rparr>)"
    by (subst user_pass_auth_run [where u = "[]" and p = "[]" and rest = "[]" and cu = cu and cp = cp])
      (use cfg in \<open>simp_all add: waiting_conn_def judged_conn_def\<close>)
  then have "run_part (user_pass_auth cfg (px_ip (waiting_conn ip)) 0) (\<lambda>_. Serving) c (waiting_conn ip) 0 w =
      w\<lparr>px_limiter := record_pairing_failure 0 (px_limiter w) ip, px_conns := (px_conns w)(c \<mapsto> judged_conn ip)\<rparr>"
    using w(2) by (intro proxy.equality) (simp_all add: run_part_def waiting_conn_def judged_conn_def)
  then show ?thesis
    using authenticated [of w c "waiting_conn ip" 0 cfg] w by (simp add: waiting_conn_def)
qed

text \<open>Many connections greet before any of them is judged; none is refused.\<close>

lemma flood_greets:
  assumes "\<not> sc_allow_anonymous cfg" "sc_username cfg = Some cu" "sc_password cfg = Some cp"
  shows "proxy_reach cfg (proxy_start\<lparr>px_conns := (\<lambda>c. if c < n then Some (waiting_conn ip) else None)\<rparr>)"
proof (induction n)
  case 0
  show ?case using proxy_begin [of cfg] by (simp add: proxy_start_def)
next
  case (Suc n)
  let ?w = "proxy_start\<lparr>px_conns := (\<lambda>c. if c < n then Some (waiting_conn ip) else None)\<rparr>"
  let ?w1 = "?w\<lparr>px_conns := (px_conns ?w)(n \<mapsto> \<lparr>px_ip = ip, px_stream = guess_wire, px_phase = Greeting\<rparr>)\<rparr>"
  have "proxy_reach cfg ?w1" by (rule proxy_next [OF Suc accepted]) simp
  moreover have "proxy_step cfg ?w1 (?w1\<lparr>px_conns := (px_conns ?w1)(n \<mapsto> waiting_conn ip)\<rparr>)"
    by (rule guess_greeted [OF assms]) (simp_all add: proxy_start_def)
  moreover have "?w1\<lparr>px_conns := (px_conns ?w1)(n \<mapsto> waiting_conn ip)\<rparr> =
      proxy_start\<lparr>px_conns := (\<lambda>c. if c < Suc n then Some (waiting_conn ip) else None)\<rparr>"
    by (auto simp: proxy_start_def fun_eq_iff less_Suc_eq)
  ultimately show ?case using proxy_next by metis
qed

lemma flood_judged:
  assumes cfg: "\<not> sc_allow_anonymous cfg" "sc_username cfg = Some cu" "sc_password cfg = Some cp" "cu \<noteq> []"
    and "m \<le> n"
  shows "\<exists>w. proxy_reach cfg w \<and> px_clock w = 0 \<and> (\<forall>c < m. px_conns w c = Some (judged_conn ip)) \<and>
    (\<forall>c. m \<le> c \<and> c < n \<longrightarrow> px_conns w c = Some (waiting_conn ip))"
  using assms(5)
proof (induction m)
  case 0
  show ?case using flood_greets [OF cfg(1-3), of n ip] by (intro exI conjI) (assumption, simp_all add: proxy_start_def)
next
  case (Suc m)
  then obtain w where w: "proxy_reach cfg w" "px_clock w = 0" "\<forall>c < m. px_conns w c = Some (judged_conn ip)"
    "\<forall>c. m \<le> c \<and> c < n \<longrightarrow> px_conns w c = Some (waiting_conn ip)" by auto
  let ?w' = "w\<lparr>px_limiter := record_pairing_failure 0 (px_limiter w) ip, px_conns := (px_conns w)(m \<mapsto> judged_conn ip)\<rparr>"
  have "proxy_step cfg w ?w'" using w Suc.prems by (intro guess_judged [OF cfg(2-4)]) simp_all
  then have r: "proxy_reach cfg ?w'" by (rule proxy_next [OF w(1)])
  with w show ?case by (intro exI [of _ ?w'] conjI) (auto simp: less_Suc_eq)
qed

text \<open>One connection that guesses wrong.\<close>

lemma one_guess_logged:
  assumes cfg: "\<not> sc_allow_anonymous cfg" "sc_username cfg = Some cu" "sc_password cfg = Some cp" "cu \<noteq> []"
  shows "\<exists>w. proxy_log cfg 1 [(0, ip)] w"
proof -
  let ?pc = "\<lparr>px_ip = ip, px_stream = guess_wire, px_phase = Greeting\<rparr>"
  define w1 where "w1 = proxy_start\<lparr>px_conns := [0 \<mapsto> ?pc]\<rparr>"
  define w2 where "w2 = w1\<lparr>px_conns := (px_conns w1)(0 \<mapsto> waiting_conn ip)\<rparr>"
  define w3 where "w3 = w2\<lparr>px_limiter := record_pairing_failure 0 (px_limiter w2) ip, px_conns := (px_conns w2)(0 \<mapsto> judged_conn ip)\<rparr>"
  have aw: "awaiting proxy_start = Map.empty" "awaiting w1 = Map.empty" "awaiting w2 = [0 \<mapsto> ip]" "awaiting w3 = Map.empty"
    by (auto simp: awaiting_def w1_def w2_def w3_def proxy_start_def waiting_conn_def judged_conn_def fun_eq_iff)
  have "proxy_step cfg proxy_start w1"
    unfolding w1_def using accepted [of proxy_start 0 cfg ip guess_wire] by (simp add: proxy_start_def)
  then have 1: "proxy_log cfg 1 [] w1"
    by (rule log_same [OF log_start]) (simp_all add: aw told_wrong_def)
  have "proxy_step cfg w1 w2"
    unfolding w2_def by (rule guess_greeted [OF cfg(1-3)]) (simp_all add: w1_def proxy_start_def)
  then have 2: "proxy_log cfg 1 [] w2"
    by (rule log_same [OF 1]) (simp_all add: aw told_wrong_def)
  have "proxy_step cfg w2 w3"
    unfolding w3_def by (rule guess_judged [OF cfg(2-4)]) (simp_all add: w2_def w1_def proxy_start_def)
  then have "proxy_log cfg 1 ([] @ [(px_clock w3, ip)]) w3"
    by (rule log_wrong [OF 2, where c = 0]) (simp_all add: aw told_wrong_def, simp add: w3_def judged_conn_def)
  then show ?thesis by (auto simp: w3_def w2_def w1_def proxy_start_def)
qed

theorem proxy_guesses_limited_witness:
  "\<exists>w. proxy_log socks_example_cfg 1 [(0, IPv4 [10, 0, 0, 9])] w \<and>
     length (filter (\<lambda>u. 0 \<le> u \<and> u < 0 + RATE_LIMIT_WINDOW) (times_of (IPv4 [10, 0, 0, 9]) [(0, IPv4 [10, 0, 0, 9])])) \<le> 1 + 4"
proof -
  obtain w where w: "proxy_log socks_example_cfg 1 [(0, IPv4 [10, 0, 0, 9])] w"
    using one_guess_logged [of socks_example_cfg "''u''" "''pw''"]
    by (auto simp: socks_example_cfg_def socks5_config_default_def)
  from proxy_guesses_limited [OF w, of 0 "IPv4 [10, 0, 0, 9]"] w show ?thesis by blast
qed

text \<open>
  The proxy's lockout does not hold against parallel guesses. The limiter is asked when a
  connection greets, before it sends its password, and nothing bounds the connections in between:
  for every \<open>n\<close> there is a run in which \<open>n\<close> connections of one peer are all told that their password is
  wrong, and none is refused, at one and the same time.
\<close>

theorem proxy_parallel_guesses:
  assumes "\<not> sc_allow_anonymous cfg" and "sc_username cfg = Some cu" and "sc_password cfg = Some cp" and "cu \<noteq> []"
  shows "\<exists>w. proxy_reach cfg w \<and> px_clock w = 0 \<and>
    (\<forall>c < n. \<exists>pc. px_conns w c = Some pc \<and> px_ip pc = ip \<and> px_phase pc = Ended (Inl AuthenticationFailed))"
  using flood_judged [OF assms order.refl, of n ip] by (auto simp: judged_conn_def)

theorem proxy_parallel_guesses_witness:
  "\<exists>w. proxy_reach socks_example_cfg w \<and> px_clock w = 0 \<and>
    list_all (\<lambda>c. \<exists>pc. px_conns w c = Some pc \<and> px_ip pc = IPv4 [10, 0, 0, 9] \<and>
       px_phase pc = Ended (Inl AuthenticationFailed)) [0..<1000]"
  using proxy_parallel_guesses [of socks_example_cfg "''u''" "''pw''" 1000 "IPv4 [10, 0, 0, 9]"]
  by (simp add: list_all_iff atLeastLessThan_def lessThan_def socks_example_cfg_def socks5_config_default_def del: upt_rec_numeral)

end
