(* ===== verification/FilePort.thy ===== *)
theory FilePort
  imports FileTransfer
begin

text \<open>
  \<open>FileTransferServer::run\<close> of \<^verbatim>\<open>server/src/file_transfer.rs\<close>: the accept loop of the file port and the
  handlers it spawns, which work side by side on one transfer directory. A step is one operation on
  the directory or on an open file. A file has an identity of its own (\<open>inode\<close>), since a handler goes
  on writing to the file it opened when another one renames or removes the path. The directory itself
  is there; whatever can go wrong in a step is the step \<open>Fail\<close>, which ends the handler.
\<close>

section \<open>The transfer directory\<close>

type_synonym inode = nat

record fsys =
  dir :: "string \<rightharpoonup> inode"
  data :: "inode \<Rightarrow> bytes"
  fresh :: inode

definition view :: "fsys \<Rightarrow> string \<rightharpoonup> bytes" where
  "view fs n = map_option (data fs) (dir fs n)"

definition exists_in :: "fsys \<Rightarrow> string \<Rightarrow> bool" where
  "exists_in fs n \<longleftrightarrow> dir fs n \<noteq> None"

text \<open>\<open>File::create\<close>: an existing file is truncated, a missing one made.\<close>

definition create_file :: "string \<Rightarrow> fsys \<Rightarrow> inode \<times> fsys" where
  "create_file n fs =
     (case dir fs n of
        Some i \<Rightarrow> (i, fs\<lparr>data := (data fs)(i := [])\<rparr>)
      | None \<Rightarrow> (fresh fs, fs\<lparr>dir := (dir fs)(n \<mapsto> fresh fs), data := (data fs)(fresh fs := []), fresh := fresh fs + 1\<rparr>))"

text \<open>An open file: appending, or writing at a position of its own.\<close>

record handle =
  h_inode :: inode
  h_append :: bool
  h_pos :: nat

definition write_at :: "nat \<Rightarrow> bytes \<Rightarrow> bytes \<Rightarrow> bytes" where
  "write_at pos chunk content =
     take pos (content @ replicate (pos - length content) 0) @ chunk @ drop (pos + length chunk) content"

definition write_chunk :: "handle \<Rightarrow> bytes \<Rightarrow> fsys \<Rightarrow> handle \<times> fsys" where
  "write_chunk h chunk fs =
     (let old = data fs (h_inode h);
          new = (if h_append h then old @ chunk else write_at (h_pos h) chunk old)
      in (h\<lparr>h_pos := h_pos h + length chunk\<rparr>, fs\<lparr>data := (data fs)(h_inode h := new)\<rparr>))"

section \<open>Handlers\<close>

record upload =
  up_name :: string
  up_size :: nat
  up_sha :: bytes

datatype upload_phase =
    Unconnected
  | Refused
  | Pairing
  | Offered upload
  | Sized upload "nat option"
  | Receiving upload handle nat
  | Discarding upload
  | Verifying upload
  | Verified upload
  | Named upload string
  | Over

fun upload_of :: "upload_phase \<Rightarrow> upload option" where
  "upload_of (Offered u) = Some u"
| "upload_of (Sized u n) = Some u"
| "upload_of (Receiving u h n) = Some u"
| "upload_of (Discarding u) = Some u"
| "upload_of (Verifying u) = Some u"
| "upload_of (Verified u) = Some u"
| "upload_of (Named u f) = Some u"
| "upload_of _ = None"

definition busy :: "upload_phase \<Rightarrow> bool" where
  "busy p \<longleftrightarrow> p \<noteq> Unconnected \<and> p \<noteq> Refused \<and> p \<noteq> Over"

text \<open>
  \<open>stored\<close> is a history: the name, the content at the time of the rename and the digest of the offer
  of every upload that was confirmed.
\<close>

record port =
  fs :: fsys
  phase :: "nat \<Rightarrow> upload_phase"
  permits :: nat
  stored :: "(string \<times> bytes \<times> bytes) list"

record port_env =
  pe_sha :: "bytes \<Rightarrow> bytes"
  pe_config :: server_config

definition MAX_PENDING_CONNECTIONS :: nat where
  "MAX_PENDING_CONNECTIONS = 256"

datatype port_action =
    Accept nat
  | Fail nat
  | Offer nat string string u64 bytes
  | Stat nat
  | Open nat
  | Write nat bytes
  | EndOfData nat
  | Discard nat
  | Verify nat
  | Choose nat
  | Rename nat

definition enter :: "nat \<Rightarrow> upload_phase \<Rightarrow> port \<Rightarrow> port" where
  "enter c p w = w\<lparr>phase := (phase w)(c := p)\<rparr>"

text \<open>The end of a handler's task gives its permit back.\<close>

definition finish :: "nat \<Rightarrow> port \<Rightarrow> port" where
  "finish c w = (enter c Over w)\<lparr>permits := permits w - 1\<rparr>"

text \<open>The accept loop: a connection gets a permit and a handler, or is dropped.\<close>

definition accept_connection :: "nat \<Rightarrow> port \<Rightarrow> port" where
  "accept_connection c w =
     (if permits w < MAX_PENDING_CONNECTIONS then (enter c Pairing w)\<lparr>permits := permits w + 1\<rparr>
      else enter c Refused w)"

declare accept_connection_def [simp]

fun port_step :: "port_env \<Rightarrow> port_action \<Rightarrow> port \<Rightarrow> port option" where
  "port_step env (Accept c) w = (if phase w c \<noteq> Unconnected then None else Some (accept_connection c w))"
| "port_step env (Fail c) w = (if busy (phase w c) then Some (finish c w) else None)"
| "port_step env (Offer c fingerprint name fsize sha256) w =
     (if phase w c = Pairing \<and> is_paired (pe_config env) fingerprint \<and>
         \<not> (max_file_size (pe_config env) \<noteq> 0 \<and> fsize > max_file_size (pe_config env))
      then Some (enter c (Offered \<lparr>up_name = sanitize_file_name name, up_size = unat fsize, up_sha = sha256\<rparr>) w)
      else None)"
| "port_step env (Stat c) w =
     (case phase w c of
        Offered u \<Rightarrow> Some (enter c (Sized u (map_option length (view (fs w) (part_name (up_name u))))) w)
      | _ \<Rightarrow> None)"
| "port_step env (Open c) w =
     (case phase w c of
        Sized u found \<Rightarrow>
          (case found of
             Some existing \<Rightarrow>
               if existing < up_size u then
                 (case dir (fs w) (part_name (up_name u)) of
                    None \<Rightarrow> None
                  | Some i \<Rightarrow>
                      Some (enter c (Receiving u \<lparr>h_inode = i, h_append = True, h_pos = existing\<rparr> existing) w))
               else
                 (case create_file (part_name (up_name u)) (fs w) of
                    (i, fs') \<Rightarrow> Some ((enter c (Receiving u \<lparr>h_inode = i, h_append = False, h_pos = 0\<rparr> 0) w)\<lparr>fs := fs'\<rparr>))
           | None \<Rightarrow>
               (case create_file (part_name (up_name u)) (fs w) of
                  (i, fs') \<Rightarrow> Some ((enter c (Receiving u \<lparr>h_inode = i, h_append = False, h_pos = 0\<rparr> 0) w)\<lparr>fs := fs'\<rparr>)))
      | _ \<Rightarrow> None)"
| "port_step env (Write c chunk) w =
     (case phase w c of
        Receiving u h received \<Rightarrow>
          if chunk \<noteq> [] \<and> length chunk \<le> 65536 \<and> received + length chunk \<le> up_size u then
            (case write_chunk h chunk (fs w) of
               (h', fs') \<Rightarrow> Some ((enter c (Receiving u h' (received + length chunk)) w)\<lparr>fs := fs'\<rparr>))
          else None
      | _ \<Rightarrow> None)"
| "port_step env (EndOfData c) w =
     (case phase w c of
        Receiving u h received \<Rightarrow> Some (enter c (if received \<noteq> up_size u then Discarding u else Verifying u) w)
      | _ \<Rightarrow> None)"
| "port_step env (Discard c) w =
     (case phase w c of
        Discarding u \<Rightarrow> Some ((finish c w)\<lparr>fs := (fs w)\<lparr>dir := (dir (fs w))(part_name (up_name u) := None)\<rparr>\<rparr>)
      | _ \<Rightarrow> None)"
| "port_step env (Verify c) w =
     (case phase w c of
        Verifying u \<Rightarrow>
          (case view (fs w) (part_name (up_name u)) of
             None \<Rightarrow> None
           | Some content \<Rightarrow> Some (enter c (if pe_sha env content = up_sha u then Verified u else Discarding u) w))
      | _ \<Rightarrow> None)"
| "port_step env (Choose c) w =
     (case phase w c of
        Verified u \<Rightarrow>
          (case unique_dest_path (exists_in (fs w)) (up_name u) of
             None \<Rightarrow> None
           | Some final \<Rightarrow> Some (enter c (Named u final) w))
      | _ \<Rightarrow> None)"
| "port_step env (Rename c) w =
     (case phase w c of
        Named u final \<Rightarrow>
          (case dir (fs w) (part_name (up_name u)) of
             None \<Rightarrow> None
           | Some i \<Rightarrow>
               Some ((finish c w)
                 \<lparr>fs := (fs w)\<lparr>dir := (dir (fs w))(part_name (up_name u) := None, final \<mapsto> i)\<rparr>,
                  stored := stored w @ [(final, data (fs w) i, up_sha u)]\<rparr>))
      | _ \<Rightarrow> None)"

definition port_start :: "fsys \<Rightarrow> port" where
  "port_start fs0 = \<lparr>fs = fs0, phase = (\<lambda>_. Unconnected), permits = 0, stored = []\<rparr>"

fun port_run :: "port_env \<Rightarrow> port_action list \<Rightarrow> port \<Rightarrow> port option" where
  "port_run env [] w = Some w"
| "port_run env (a # as) w = (case port_step env a w of None \<Rightarrow> None | Some w' \<Rightarrow> port_run env as w')"

text \<open>Devices may be paired and revoked on the control port while the file port runs.\<close>

definition paired_as :: "(string \<rightharpoonup> paired_device) \<Rightarrow> port_env \<Rightarrow> port_env" where
  "paired_as ds env = env\<lparr>pe_config := (pe_config env)\<lparr>paired_devices := ds\<rparr>\<rparr>"

lemma paired_as_simps [simp]:
  "pe_sha (paired_as ds env) = pe_sha env" "max_file_size (pe_config (paired_as ds env)) = max_file_size (pe_config env)"
  "paired_as (paired_devices (pe_config env)) env = env"
  by (simp_all add: paired_as_def)

inductive port_reach :: "port_env \<Rightarrow> fsys \<Rightarrow> port \<Rightarrow> bool" for env fs0 where
  port_begin: "port_reach env fs0 (port_start fs0)"
| port_next: "port_reach env fs0 w \<Longrightarrow> port_step (paired_as ds env) a w = Some w' \<Longrightarrow> port_reach env fs0 w'"

lemma port_next_same: "port_reach env fs0 w \<Longrightarrow> port_step env a w = Some w' \<Longrightarrow> port_reach env fs0 w'"
  using port_next [of env fs0 w "paired_devices (pe_config env)" a w'] by simp

lemma port_run_reach: "port_reach env fs0 w \<Longrightarrow> port_run env as w = Some w' \<Longrightarrow> port_reach env fs0 w'"
  by (induction "as" arbitrary: w) (auto split: option.splits intro: port_next_same)

lemma port_run_append:
  "port_run env (as @ bs) w = (case port_run env as w of None \<Rightarrow> None | Some w' \<Rightarrow> port_run env bs w')"
  by (induction "as" arbitrary: w) (auto split: option.split)

section \<open>One handler moves at a time\<close>

lemma enter_simps [simp]:
  "fs (enter c p w) = fs w" "phase (enter c p w) = (phase w)(c := p)" "permits (enter c p w) = permits w"
  "stored (enter c p w) = stored w"
  by (simp_all add: enter_def)

lemma finish_simps [simp]:
  "fs (finish c w) = fs w" "phase (finish c w) = (phase w)(c := Over)" "permits (finish c w) = permits w - 1"
  "stored (finish c w) = stored w"
  by (simp_all add: finish_def)

lemma busy_simps [simp]:
  "\<not> busy Unconnected" "\<not> busy Refused" "\<not> busy Over" "busy Pairing" "busy (Offered u)" "busy (Sized u n)"
  "busy (Receiving u h r)" "busy (Discarding u)" "busy (Verifying u)" "busy (Verified u)" "busy (Named u f)"
  by (simp_all add: busy_def)

definition busy_set :: "port \<Rightarrow> nat set" where
  "busy_set w = {c. busy (phase w c)}"

lemma busy_set_enter [simp]:
  "busy_set (enter c p w) = (if busy p then insert c (busy_set w) else busy_set w - {c})"
  by (auto simp: busy_set_def)

lemma busy_set_finish [simp]: "busy_set (finish c w) = busy_set w - {c}"
  by (auto simp: busy_set_def)

lemma busy_set_update [simp]:
  "busy_set (w\<lparr>fs := f\<rparr>) = busy_set w" "busy_set (w\<lparr>permits := n\<rparr>) = busy_set w"
  "busy_set (w\<lparr>stored := s\<rparr>) = busy_set w"
  by (simp_all add: busy_set_def)

lemma in_busy_set: "c \<in> busy_set w \<longleftrightarrow> busy (phase w c)"
  by (simp add: busy_set_def)

definition counted :: "port \<Rightarrow> bool" where
  "counted w \<longleftrightarrow> finite (busy_set w) \<and> card (busy_set w) = permits w \<and> permits w \<le> MAX_PENDING_CONNECTIONS"

lemma counted_update [simp]: "counted (w\<lparr>fs := f\<rparr>) = counted w" "counted (w\<lparr>stored := s\<rparr>) = counted w"
  by (simp_all add: counted_def)

lemma counted_enter: "counted w \<Longrightarrow> busy (phase w c) \<Longrightarrow> busy p \<Longrightarrow> counted (enter c p w)"
  by (simp add: counted_def in_busy_set insert_absorb)

lemma counted_finish: "counted w \<Longrightarrow> busy (phase w c) \<Longrightarrow> counted (finish c w)"
  by (auto simp: counted_def in_busy_set card_Diff_singleton)

lemma counted_accept:
  "counted w \<Longrightarrow> phase w c = Unconnected \<Longrightarrow> permits w < MAX_PENDING_CONNECTIONS \<Longrightarrow>
   counted ((enter c Pairing w)\<lparr>permits := permits w + 1\<rparr>)"
  by (simp add: counted_def in_busy_set)

lemma counted_refuse: "counted w \<Longrightarrow> phase w c = Unconnected \<Longrightarrow> counted (enter c Refused w)"
  by (simp add: counted_def in_busy_set)

lemmas counted_moves = counted_enter counted_finish counted_accept counted_refuse

lemma port_step_counted: "port_step env a w = Some w' \<Longrightarrow> counted w \<Longrightarrow> counted w'"
  by (cases a)
    (auto intro!: counted_moves [simplified] split: if_splits upload_phase.splits option.splits prod.splits)

lemma port_reach_counted: "port_reach env fs0 w \<Longrightarrow> counted w"
proof (induction rule: port_reach.induct)
  case port_begin
  show ?case by (simp add: port_start_def counted_def busy_set_def)
qed (rule port_step_counted)

section \<open>Uploads that keep apart\<close>

fun agent :: "port_action \<Rightarrow> nat" where
  "agent (Accept c) = c"
| "agent (Fail c) = c"
| "agent (Offer c _ _ _ _) = c"
| "agent (Stat c) = c"
| "agent (Open c) = c"
| "agent (Write c _) = c"
| "agent (EndOfData c) = c"
| "agent (Discard c) = c"
| "agent (Verify c) = c"
| "agent (Choose c) = c"
| "agent (Rename c) = c"

lemma port_step_others: "port_step env a w = Some w' \<Longrightarrow> d \<noteq> agent a \<Longrightarrow> phase w' d = phase w d"
  by (cases a) (auto split: if_splits upload_phase.splits option.splits prod.splits)

definition part_of :: "upload_phase \<Rightarrow> string set" where
  "part_of p = (case upload_of p of None \<Rightarrow> {} | Some u \<Rightarrow> {part_name (up_name u)})"

definition names_of :: "upload_phase \<Rightarrow> string set" where
  "names_of p = part_of p \<union> (case p of Named u final \<Rightarrow> {final} | _ \<Rightarrow> {})"

text \<open>
  No two handlers work on the same path, and no partial path is one of the protected names \<open>keep\<close> or
  the name of a finished upload.
\<close>

definition isolated :: "string set \<Rightarrow> port \<Rightarrow> bool" where
  "isolated keep w \<longleftrightarrow>
     (\<forall>c d. c \<noteq> d \<longrightarrow> names_of (phase w c) \<inter> names_of (phase w d) = {}) \<and>
     (\<forall>c. part_of (phase w c) \<inter> (keep \<union> fst ` set (stored w)) = {})"

definition fs_ok :: "fsys \<Rightarrow> bool" where
  "fs_ok f \<longleftrightarrow> inj_on (dir f) (dom (dir f)) \<and> (\<forall>n i. dir f n = Some i \<longrightarrow> i < fresh f)"

inductive iso_reach :: "port_env \<Rightarrow> fsys \<Rightarrow> string set \<Rightarrow> port \<Rightarrow> bool" for env fs0 keep where
  iso_begin: "fs_ok fs0 \<Longrightarrow> iso_reach env fs0 keep (port_start fs0)"
| iso_next: "iso_reach env fs0 keep w \<Longrightarrow> port_step (paired_as ds env) a w = Some w' \<Longrightarrow> isolated keep w' \<Longrightarrow>
    iso_reach env fs0 keep w'"

definition digest_ok :: "port_env \<Rightarrow> fsys \<Rightarrow> upload \<Rightarrow> bool" where
  "digest_ok env f u \<longleftrightarrow> (\<exists>c. view f (part_name (up_name u)) = Some c \<and> pe_sha env c = up_sha u)"

fun phase_ok :: "port_env \<Rightarrow> fsys \<Rightarrow> upload_phase \<Rightarrow> bool" where
  "phase_ok env f (Receiving u h r) \<longleftrightarrow> dir f (part_name (up_name u)) = Some (h_inode h)"
| "phase_ok env f (Verified u) \<longleftrightarrow> digest_ok env f u"
| "phase_ok env f (Named u final) \<longleftrightarrow> digest_ok env f u \<and> dir f final = None"
| "phase_ok env f _ \<longleftrightarrow> True"

definition same_at :: "fsys \<Rightarrow> fsys \<Rightarrow> string \<Rightarrow> bool" where
  "same_at f f' n \<longleftrightarrow> dir f' n = dir f n \<and> view f' n = view f n"

lemma fs_ok_inj: "fs_ok f \<Longrightarrow> dir f n = Some i \<Longrightarrow> dir f m = Some i \<Longrightarrow> n = m"
  by (auto simp: fs_ok_def inj_on_def dom_def)

lemma fs_ok_fresh: "fs_ok f \<Longrightarrow> dir f n \<noteq> Some (fresh f)"
  by (auto simp: fs_ok_def)

lemma fs_okI:
  "(\<And>n m i. dir f n = Some i \<Longrightarrow> dir f m = Some i \<Longrightarrow> n = m) \<Longrightarrow> (\<And>n i. dir f n = Some i \<Longrightarrow> i < fresh f) \<Longrightarrow> fs_ok f"
  by (auto simp: fs_ok_def inj_on_def dom_def)

lemma same_at_refl [simp]: "same_at f f n"
  by (simp add: same_at_def)

lemma map_option_fun_upd_other: "o' \<noteq> Some i \<Longrightarrow> map_option (g(i := x)) o' = map_option g o'"
  by (cases o') auto

lemma create_file_elsewhere: "create_file m f = (i, f') \<Longrightarrow> fs_ok f \<Longrightarrow> n \<noteq> m \<Longrightarrow> same_at f f' n"
  by (auto simp: create_file_def same_at_def view_def intro!: map_option_fun_upd_other
      dest: fs_ok_inj fs_ok_fresh split: option.splits)

lemma create_file_dir: "create_file m f = (i, f') \<Longrightarrow> dir f' m = Some i"
  by (auto simp: create_file_def split: option.splits)

lemma create_file_ok: "create_file m f = (i, f') \<Longrightarrow> fs_ok f \<Longrightarrow> fs_ok f'"
  by (auto simp: create_file_def less_Suc_eq split: option.splits if_splits intro!: fs_okI
      dest: fs_ok_inj fs_ok_fresh) (auto simp: fs_ok_def less_SucI)

lemma write_chunk_elsewhere:
  "write_chunk h ch f = (h', f') \<Longrightarrow> fs_ok f \<Longrightarrow> dir f m = Some (h_inode h) \<Longrightarrow> n \<noteq> m \<Longrightarrow> same_at f f' n"
  by (auto simp: write_chunk_def Let_def same_at_def view_def intro!: map_option_fun_upd_other dest: fs_ok_inj)

lemma write_chunk_dir: "write_chunk h ch f = (h', f') \<Longrightarrow> dir f' = dir f \<and> fresh f' = fresh f \<and> h_inode h' = h_inode h"
  by (auto simp: write_chunk_def Let_def)

lemma phase_ok_cong: "phase_ok env f p \<Longrightarrow> (\<And>n. n \<in> names_of p \<Longrightarrow> same_at f f' n) \<Longrightarrow> phase_ok env f' p"
  by (cases p) (auto simp: names_of_def part_of_def same_at_def digest_ok_def)

lemma same_at_dir_change:
  "g n = dir f n \<Longrightarrow> same_at f (f\<lparr>dir := g\<rparr>) n"
  by (simp add: same_at_def view_def)

lemma write_chunk_ok: "write_chunk h ch f = (h', f') \<Longrightarrow> fs_ok f \<Longrightarrow> fs_ok f'"
  by (auto simp: write_chunk_def Let_def fs_ok_def)

lemma fs_ok_remove: "fs_ok f \<Longrightarrow> fs_ok (f\<lparr>dir := (dir f)(n := None)\<rparr>)"
  by (auto simp: fs_ok_def inj_on_def dom_def split: if_splits)

lemma fs_ok_rename: "fs_ok f \<Longrightarrow> dir f n = Some i \<Longrightarrow> fs_ok (f\<lparr>dir := (dir f)(n := None, m \<mapsto> i)\<rparr>)"
  by (rule fs_okI) (auto split: if_splits dest: fs_ok_inj, simp_all add: fs_ok_def)

text \<open>A step touches the paths of its handler alone.\<close>

lemma port_step_footprint:
  assumes "port_step env a w = Some w'" and "fs_ok (fs w)" and "phase_ok env (fs w) (phase w (agent a))"
    and "n \<notin> names_of (phase w (agent a))"
  shows "same_at (fs w) (fs w') n"
  using assms
  by (cases a)
    (auto simp: names_of_def part_of_def split: if_splits upload_phase.splits option.splits prod.splits
      intro: create_file_elsewhere write_chunk_elsewhere intro!: same_at_dir_change)

lemma port_step_fs_ok: "port_step env a w = Some w' \<Longrightarrow> fs_ok (fs w) \<Longrightarrow> fs_ok (fs w')"
  by (cases a)
    (auto split: if_splits upload_phase.splits option.splits prod.splits
      intro: create_file_ok write_chunk_ok fs_ok_remove fs_ok_rename)

lemma port_step_own:
  "port_step env a w = Some w' \<Longrightarrow> fs_ok (fs w) \<Longrightarrow> phase_ok env (fs w) (phase w (agent a)) \<Longrightarrow>
   phase_ok env (fs w') (phase w' (agent a))"
  by (cases a)
    (auto simp: create_file_dir write_chunk_dir digest_ok_def exists_in_def
      split: if_splits upload_phase.splits option.splits prod.splits dest!: unique_dest_path_fresh)

lemma port_step_stored:
  assumes "port_step env a w = Some w'"
  shows "stored w' = stored w \<or>
    (\<exists>u f c. phase w (agent a) = Named u f \<and> view (fs w) (part_name (up_name u)) = Some c \<and>
       stored w' = stored w @ [(f, c, up_sha u)] \<and> view (fs w') f = Some c)"
  using assms by (cases a) (auto simp: view_def split: if_splits upload_phase.splits option.splits prod.splits)

text \<open>The invariant: finished uploads and protected files are still there, with their content.\<close>

definition kept :: "port_env \<Rightarrow> fsys \<Rightarrow> string set \<Rightarrow> port \<Rightarrow> bool" where
  "kept env fs0 keep w \<longleftrightarrow>
     (\<forall>n c d. (n, c, d) \<in> set (stored w) \<longrightarrow> view (fs w) n = Some c \<and> pe_sha env c = d) \<and>
     distinct (map fst (stored w)) \<and>
     (\<forall>n\<in>keep. view fs0 n \<noteq> None \<longrightarrow> view (fs w) n = view fs0 n)"

definition sound :: "port_env \<Rightarrow> fsys \<Rightarrow> string set \<Rightarrow> port \<Rightarrow> bool" where
  "sound env fs0 keep w \<longleftrightarrow>
     fs_ok (fs w) \<and> (\<forall>c. phase_ok env (fs w) (phase w c)) \<and> isolated keep w \<and> kept env fs0 keep w"

lemma sound_start: "fs_ok fs0 \<Longrightarrow> sound env fs0 keep (port_start fs0)"
  by (simp add: sound_def port_start_def isolated_def kept_def names_of_def part_of_def)

lemma sound_outside:
  assumes "sound env fs0 keep w" and "view (fs w) n \<noteq> None" and "n \<in> keep \<union> fst ` set (stored w)"
  shows "n \<notin> names_of (phase w c)"
proof -
  from assms(1) have "phase_ok env (fs w) (phase w c)" and "part_of (phase w c) \<inter> (keep \<union> fst ` set (stored w)) = {}"
    unfolding sound_def isolated_def by blast+
  moreover from this assms(3) have "n \<notin> part_of (phase w c)" by blast
  ultimately show ?thesis using assms(2)
    by (cases "phase w c") (auto simp: names_of_def part_of_def view_def)
qed

lemma sound_phases:
  assumes "sound env fs0 keep w" and "port_step env a w = Some w'"
  shows "phase_ok env (fs w') (phase w' d)"
proof (cases "d = agent a")
  case True
  with assms show ?thesis by (auto simp: sound_def intro: port_step_own)
next
  case False
  from assms False have "names_of (phase w (agent a)) \<inter> names_of (phase w d) = {}"
    unfolding sound_def isolated_def by metis
  with assms have "same_at (fs w) (fs w') n" if "n \<in> names_of (phase w d)" for n
    using that by (auto simp: sound_def intro!: port_step_footprint)
  with assms False show ?thesis
    by (auto simp: sound_def port_step_others intro: phase_ok_cong)
qed

lemma sound_kept:
  assumes "sound env fs0 keep w" and step: "port_step env a w = Some w'"
  shows "kept env fs0 keep w'"
proof -
  from assms have k: "kept env fs0 keep w" and ok: "fs_ok (fs w)" "\<And>c. phase_ok env (fs w) (phase w c)"
    by (simp_all add: sound_def)
  have same: "view (fs w') n = view (fs w) n"
    if "view (fs w) n \<noteq> None" "n \<in> keep \<union> fst ` set (stored w)" for n
    using port_step_footprint [OF step ok sound_outside [OF assms(1) that]] by (simp add: same_at_def)
  have old: "view (fs w') n = Some c \<and> pe_sha env c = d" if "(n, c, d) \<in> set (stored w)" for n c d
  proof -
    from k that have v: "view (fs w) n = Some c" "pe_sha env c = d" by (auto simp: kept_def)
    moreover from that have "n \<in> fst ` set (stored w)" by force
    ultimately show ?thesis using same [of n] by simp
  qed
  have keep: "view (fs w') n = view fs0 n" if "n \<in> keep" "view fs0 n \<noteq> None" for n
    using k that same [of n] by (simp add: kept_def)
  from port_step_stored [OF step] show ?thesis
  proof (elim disjE exE conjE)
    assume "stored w' = stored w"
    with k old keep show ?thesis by (simp add: kept_def)
  next
    fix u f c
    assume named: "phase w (agent a) = Named u f" and part: "view (fs w) (part_name (up_name u)) = Some c"
      and new: "stored w' = stored w @ [(f, c, up_sha u)]" "view (fs w') f = Some c"
    from ok(2) [of "agent a"] named part have digest: "pe_sha env c = up_sha u" and free: "dir (fs w) f = None"
      by (auto simp: digest_ok_def)
    from k free have "f \<notin> fst ` set (stored w)" by (fastforce simp: kept_def view_def)
    with k old keep new digest show ?thesis by (auto simp: kept_def)
  qed
qed

lemma phase_ok_paired: "phase_ok (paired_as ds env) f p = phase_ok env f p"
  by (cases p) (simp_all add: digest_ok_def)

lemma iso_reach_sound: "iso_reach env fs0 keep w \<Longrightarrow> sound env fs0 keep w"
proof (induction rule: iso_reach.induct)
  case iso_begin
  then show ?case by (rule sound_start)
next
  case (iso_next w ds a w')
  have same: "sound (paired_as ds env) fs0 keep v = sound env fs0 keep v" for v
    by (simp add: sound_def kept_def phase_ok_paired)
  from iso_next have "fs_ok (fs w')" by (auto simp: sound_def intro: port_step_fs_ok)
  moreover from iso_next have "sound (paired_as ds env) fs0 keep w" by (simp add: same)
  ultimately have "sound (paired_as ds env) fs0 keep w'"
    using iso_next sound_phases sound_kept unfolding sound_def by blast
  then show ?case by (simp add: same)
qed

section \<open>One handler on its own\<close>

text \<open>\<open>solo env c w m\<close>: by steps of handler \<open>c\<close> alone its task ends with the directory \<open>m\<close>.\<close>

definition solo :: "port_env \<Rightarrow> nat \<Rightarrow> port \<Rightarrow> (string \<rightharpoonup> bytes) \<Rightarrow> bool" where
  "solo env c w m \<longleftrightarrow> (\<exists>as w'. (\<forall>a\<in>set as. agent a = c) \<and> port_run env as w = Some w' \<and>
     view (fs w') = m \<and> phase w' c = Over)"

lemma solo_over: "phase w c = Over \<Longrightarrow> solo env c w (view (fs w))"
  unfolding solo_def by (rule exI [of _ "[]"]) simp

lemma solo_step:
  assumes "port_step env a w = Some w1" and "solo env c w1 m" and "agent a = c"
  shows "solo env c w m"
proof -
  from assms(2) obtain "as" w' where "\<forall>a\<in>set as. agent a = c" "port_run env as w1 = Some w'"
    "view (fs w') = m" "phase w' c = Over" unfolding solo_def by blast
  with assms(1,3) show ?thesis unfolding solo_def by (intro exI [of _ "a # as"] exI [of _ w']) simp
qed

lemma solo_step2:
  assumes "port_step env a w = Some w1" and "port_step env b w1 = Some w2" and "solo env c w2 m"
    and "agent a = c" and "agent b = c"
  shows "solo env c w m"
  using assms(1) solo_step [OF assms(2,3,5)] assms(4) by (rule solo_step)

lemma solo_fail: "busy (phase w c) \<Longrightarrow> view (fs w) = m \<Longrightarrow> solo env c w m"
  by (rule solo_step [of _ "Fail c"]) (auto intro!: solo_over [of "finish c w", simplified])

definition receiving_at :: "nat \<Rightarrow> upload \<Rightarrow> bytes \<Rightarrow> port \<Rightarrow> bool" where
  "receiving_at c u content w \<longleftrightarrow> (\<exists>h. phase w c = Receiving u h (length content) \<and> fs_ok (fs w) \<and>
     dir (fs w) (part_name (up_name u)) = Some (h_inode h) \<and> data (fs w) (h_inode h) = content \<and>
     (h_append h \<or> h_pos h = length content))"

lemma view_create_file:
  assumes "create_file n f = (i, f')" and "fs_ok f"
  shows "view f' = (view f)(n \<mapsto> [])"
proof
  fix m
  show "view f' m = ((view f)(n \<mapsto> [])) m"
    using create_file_elsewhere [OF assms, of m] assms(1)
    by (auto simp: same_at_def view_def create_file_def split: option.splits)
qed

lemma create_file_data: "create_file n f = (i, f') \<Longrightarrow> data f' i = []"
  by (auto simp: create_file_def split: option.splits)

lemma write_chunk_appends:
  assumes "write_chunk h ch f = (h', f')" and "data f (h_inode h) = content"
    and "h_append h \<or> h_pos h = length content"
  shows "data f' (h_inode h) = content @ ch \<and> (h_append h' \<or> h_pos h' = length (content @ ch))"
  using assms by (auto simp: write_chunk_def write_at_def Let_def)

lemma view_write_chunk:
  assumes "write_chunk h ch f = (h', f')" and "fs_ok f" and "dir f n = Some (h_inode h)"
    and "data f (h_inode h) = content" and "h_append h \<or> h_pos h = length content"
  shows "view f' = (view f)(n \<mapsto> content @ ch)"
proof
  fix m
  show "view f' m = ((view f)(n \<mapsto> content @ ch)) m"
    using write_chunk_elsewhere [OF assms(1-3), of m] write_chunk_appends [OF assms(1,4,5)]
      write_chunk_dir [OF assms(1)] assms(3)
    by (cases "m = n") (auto simp: same_at_def view_def)
qed

lemma solo_write:
  assumes "receiving_at c u content w" and "length content + length d \<le> up_size u"
    and "\<And>w'. receiving_at c u (content @ d) w' \<Longrightarrow>
       view (fs w') = (view (fs w))(part_name (up_name u) \<mapsto> content @ d) \<Longrightarrow> solo env c w' m"
  shows "solo env c w m"
  using assms
proof (induction d arbitrary: content w)
  case Nil
  then have "view (fs w) = (view (fs w))(part_name (up_name u) \<mapsto> content)"
    by (auto simp: receiving_at_def view_def fun_eq_iff)
  with Nil show ?case by simp
next
  case (Cons b d)
  from Cons.prems(1) obtain h where h: "phase w c = Receiving u h (length content)" "fs_ok (fs w)"
    "dir (fs w) (part_name (up_name u)) = Some (h_inode h)" "data (fs w) (h_inode h) = content"
    "h_append h \<or> h_pos h = length content"
    unfolding receiving_at_def by blast
  obtain h' f' where wr: "write_chunk h [b] (fs w) = (h', f')" by fastforce
  define w1 where "w1 = (enter c (Receiving u h' (length content + 1)) w)\<lparr>fs := f'\<rparr>"
  have step: "port_step env (Write c [b]) w = Some w1"
    using h(1) wr Cons.prems(2) by (simp add: w1_def)
  have at: "receiving_at c u (content @ [b]) w1"
    using write_chunk_dir [OF wr] write_chunk_appends [OF wr h(4,5)] write_chunk_ok [OF wr h(2)] h(3)
    by (auto simp: receiving_at_def w1_def)
  have v: "view (fs w1) = (view (fs w))(part_name (up_name u) \<mapsto> content @ [b])"
    using view_write_chunk [OF wr h(2-5)] by (simp add: w1_def)
  have "solo env c w1 m"
  proof (rule Cons.IH [OF at])
    show "length (content @ [b]) + length d \<le> up_size u" using Cons.prems(2) by simp
    fix w'
    assume "receiving_at c u ((content @ [b]) @ d) w'"
      and "view (fs w') = (view (fs w1))(part_name (up_name u) \<mapsto> (content @ [b]) @ d)"
    then show "solo env c w' m" by (intro Cons.prems(3)) (simp_all add: v)
  qed
  with step show ?case by (rule solo_step) simp
qed

lemma solo_open:
  assumes "phase w c = Offered u" and ok: "fs_ok (fs w)"
    and next': "\<And>w'. receiving_at c u content w' \<Longrightarrow>
       view (fs w') = (view (fs w))(part_name (up_name u) \<mapsto> content) \<Longrightarrow> solo env c w' m"
    and content: "content = resume_from (view (fs w) (part_name (up_name u))) (up_size u)"
  shows "solo env c w m"
proof -
  let ?part = "part_name (up_name u)"
  define w1 where "w1 = enter c (Sized u (map_option length (view (fs w) ?part))) w"
  have "port_step env (Stat c) w = Some w1" using assms(1) by (simp add: w1_def)
  moreover have "solo env c w1 m"
  proof (cases "\<exists>i. dir (fs w) ?part = Some i \<and> length (data (fs w) i) < up_size u")
    case True
    then obtain i where i: "dir (fs w) ?part = Some i" "length (data (fs w) i) < up_size u" by blast
    then have c: "content = data (fs w) i" by (simp add: content resume_from_def view_def)
    define w2 where "w2 = enter c (Receiving u \<lparr>h_inode = i, h_append = True, h_pos = length content\<rparr> (length content)) w1"
    from i c have "port_step env (Open c) w1 = Some w2" by (simp add: w1_def w2_def view_def)
    moreover have "solo env c w2 m"
      by (rule next') (use i c ok in \<open>auto simp: receiving_at_def w1_def w2_def view_def fun_eq_iff\<close>)
    ultimately show ?thesis by (rule solo_step) simp
  next
    case False
    then have c: "content = []" by (auto simp: content resume_from_def view_def split: option.splits)
    obtain i f' where cr: "create_file ?part (fs w) = (i, f')" by fastforce
    define w2 where "w2 = (enter c (Receiving u \<lparr>h_inode = i, h_append = False, h_pos = 0\<rparr> 0) w1)\<lparr>fs := f'\<rparr>"
    from False cr have "port_step env (Open c) w1 = Some w2"
      by (cases "dir (fs w) ?part") (auto simp: w1_def w2_def view_def)
    moreover have "solo env c w2 m"
      by (rule next')
        (use c create_file_dir [OF cr] create_file_data [OF cr] create_file_ok [OF cr ok] view_create_file [OF cr ok]
          in \<open>auto simp: receiving_at_def w2_def\<close>)
    ultimately show ?thesis by (rule solo_step) simp
  qed
  ultimately show ?thesis by (rule solo_step) simp
qed

lemma view_remove: "view (f\<lparr>dir := (dir f)(n := None)\<rparr>) = (view f)(n := None)"
  by (auto simp: view_def)

lemma view_rename:
  "dir f n = Some i \<Longrightarrow> view (f\<lparr>dir := (dir f)(n := None, m \<mapsto> i)\<rparr>) = (view f)(n := None, m \<mapsto> data f i)"
  by (auto simp: view_def)

lemma receiving_busy: "receiving_at c u content w \<Longrightarrow> busy (phase w c)"
  by (auto simp: receiving_at_def)

lemma solo_discard:
  "phase w c = Discarding u \<Longrightarrow> m = (view (fs w))(part_name (up_name u) := None) \<Longrightarrow> solo env c w m"
  using solo_over [of "(finish c w)\<lparr>fs := (fs w)\<lparr>dir := (dir (fs w))(part_name (up_name u) := None)\<rparr>\<rparr>" c env]
  by (rule_tac solo_step [of env "Discard c" w "(finish c w)\<lparr>fs := (fs w)\<lparr>dir := (dir (fs w))(part_name (up_name u) := None)\<rparr>\<rparr>"])
    (simp_all add: view_remove)

lemma solo_incomplete:
  assumes "receiving_at c u content w" and "length content \<noteq> up_size u"
  shows "solo env c w ((view (fs w))(part_name (up_name u) := None))"
proof -
  from assms(1) obtain h where "phase w c = Receiving u h (length content)"
    unfolding receiving_at_def by blast
  with assms(2) have "port_step env (EndOfData c) w = Some (enter c (Discarding u) w)" by simp
  then show ?thesis by (rule solo_step) (auto intro: solo_discard)
qed

lemma solo_verify:
  assumes "receiving_at c u content w" and "length content = up_size u"
    and "solo env c (enter c (if pe_sha env content = up_sha u then Verified u else Discarding u)
       (enter c (Verifying u) w)) m"
  shows "solo env c w m"
proof -
  from assms(1) obtain h where h: "phase w c = Receiving u h (length content)"
    "dir (fs w) (part_name (up_name u)) = Some (h_inode h)" "data (fs w) (h_inode h) = content"
    unfolding receiving_at_def by blast
  with assms(2) have "port_step env (EndOfData c) w = Some (enter c (Verifying u) w)" by simp
  moreover from h have "port_step env (Verify c) (enter c (Verifying u) w) =
      Some (enter c (if pe_sha env content = up_sha u then Verified u else Discarding u) (enter c (Verifying u) w))"
    by (simp add: view_def)
  ultimately show ?thesis using assms(3) by (rule solo_step2) simp_all
qed

lemma solo_promote:
  assumes "phase w c = Verified u" and part: "view (fs w) (part_name (up_name u)) = Some content"
    and final: "unique_dest_path (\<lambda>n. view (fs w) n \<noteq> None) (up_name u) = Some final"
  shows "solo env c w ((view (fs w))(part_name (up_name u) := None, final \<mapsto> content))"
proof -
  let ?part = "part_name (up_name u)"
  have taken: "exists_in (fs w) = (\<lambda>n. view (fs w) n \<noteq> None)" by (simp add: fun_eq_iff exists_in_def view_def)
  from part obtain i where i: "dir (fs w) ?part = Some i" "data (fs w) i = content" by (auto simp: view_def)
  define w1 where "w1 = enter c (Named u final) w"
  define w2 where "w2 = (finish c w1)\<lparr>fs := (fs w)\<lparr>dir := (dir (fs w))(?part := None, final \<mapsto> i)\<rparr>,
    stored := stored w @ [(final, content, up_sha u)]\<rparr>"
  have "port_step env (Choose c) w = Some w1" using assms(1) final by (simp add: w1_def taken)
  moreover have "port_step env (Rename c) w1 = Some w2" using i by (simp add: w1_def w2_def)
  moreover have "solo env c w2 (view (fs w2))" by (rule solo_over) (simp add: w2_def)
  ultimately have "solo env c w (view (fs w2))" by (rule solo_step2) simp_all
  then show ?thesis by (simp add: w2_def view_rename [OF i(1)] i(2))
qed

lemma finish_transfer_choices:
  assumes "files s (part_name nm) = Some c"
  shows "files (snd (finish_transfer env fid nm sha256 s)) = files s \<or>
    (te_sha env c \<noteq> sha256 \<and> files (snd (finish_transfer env fid nm sha256 s)) = (files s)(part_name nm := None)) \<or>
    (te_sha env c = sha256 \<and> (\<exists>n. unique_dest_path (\<lambda>n. files s n \<noteq> None) nm = Some n \<and>
      files (snd (finish_transfer env fid nm sha256 s)) = (files s)(part_name nm := None, n \<mapsto> c)))"
  using assms
  by (auto simp: finish_transfer_def require_def remove_part_def io_simps Let_def
      split: option.splits if_splits prod.splits sum.splits)

lemma solo_finish:
  assumes "receiving_at c u content w" and "length content = up_size u"
    and "view (fs w) = files s" and "pe_sha penv = te_sha env"
  shows "solo penv c w (files (snd (finish_transfer env fid (up_name u) (up_sha u) s)))"
proof -
  from assms(1,3) have part: "files s (part_name (up_name u)) = Some content"
    by (auto simp: receiving_at_def view_def simp flip: assms(3))
  from finish_transfer_choices [OF part, of env fid "up_sha u"] show ?thesis
  proof (elim disjE conjE exE)
    assume "files (snd (finish_transfer env fid (up_name u) (up_sha u) s)) = files s"
    then show ?thesis using solo_fail [OF receiving_busy [OF assms(1)]] assms(3) by simp
  next
    assume "te_sha env content \<noteq> up_sha u"
      and "files (snd (finish_transfer env fid (up_name u) (up_sha u) s)) = (files s)(part_name (up_name u) := None)"
    then show ?thesis using assms(3,4)
      by (intro solo_verify [OF assms(1,2)]) (auto intro: solo_discard)
  next
    fix n
    assume sha: "te_sha env content = up_sha u" and n: "unique_dest_path (\<lambda>n. files s n \<noteq> None) (up_name u) = Some n"
      and res: "files (snd (finish_transfer env fid (up_name u) (up_sha u) s)) =
        (files s)(part_name (up_name u) := None, n \<mapsto> content)"
    have "solo penv c (enter c (Verified u) (enter c (Verifying u) w)) ((files s)(part_name (up_name u) := None, n \<mapsto> content))"
      using solo_promote [of "enter c (Verified u) (enter c (Verifying u) w)" c u content n penv] part n assms(3)
      by simp
    then show ?thesis unfolding res using sha assms(4)
      by (intro solo_verify [OF assms(1,2)]) simp
  qed
qed

lemma solo_receive:
  assumes "receiving_at c u content w" and "length content \<le> up_size u"
    and "view (fs w) = files s" and "pe_sha penv = te_sha env"
  shows "solo penv c w (files (snd (after_accept env fid (up_name u) (up_size u) (up_sha u) (length content) s)))"
    (is "solo _ _ _ ?m")
proof -
  let ?part = "part_name (up_name u)"
  from assms(1) have part: "files s ?part = Some content"
    by (auto simp: receiving_at_def view_def simp flip: assms(3))
  define d where "d = take (up_size u - length content) (rx (t_stream s))"
  define s1 where "s1 = s\<lparr>t_stream := (t_stream s)\<lparr>rx := drop (up_size u - length content) (rx (t_stream s))\<rparr>,
                files := (files s)(?part \<mapsto> content @ take (te_quota env) d)\<rparr>"
  define r where "r = fst (receive_data env ?part (up_size u) (length content) s)"
  note data = receive_data_eq [OF part assms(2), of env, unfolded Let_def, folded d_def, folded s1_def]
  have r: "receive_data env ?part (up_size u) (length content) s = (r, s1)"
    by (simp add: r_def data)
  have received: "n = length (content @ d) \<and> length d \<le> te_quota env" if "r = Inr n" for n
    using that by (simp add: r_def data split: if_splits)
  have fits: "length content + length (take (te_quota env) d) \<le> up_size u"
    using assms(2) by (simp add: d_def)
  show ?thesis
  proof (rule solo_write [OF assms(1) fits])
    fix w'
    assume w': "receiving_at c u (content @ take (te_quota env) d) w'"
      and "view (fs w') = (view (fs w))(?part \<mapsto> content @ take (te_quota env) d)"
    then have v: "view (fs w') = files s1" by (simp add: s1_def assms(3))
    show "solo penv c w' ?m"
    proof (cases r)
      case (Inl e)
      then have "?m = files s1" using r by (simp add: after_accept_def io_simps)
      then show ?thesis using solo_fail [OF receiving_busy [OF w']] v by simp
    next
      case (Inr n)
      from received [OF Inr] have n: "n = length (content @ d)" and q: "take (te_quota env) d = d" by auto
      show ?thesis
      proof (cases "n = up_size u")
        case True
        then have "?m = files (snd (finish_transfer env fid (up_name u) (up_sha u) s1))"
          using r Inr by (simp add: after_accept_def io_simps)
        then show ?thesis using solo_finish [OF w' _ v assms(4)] True n q by simp
      next
        case False
        then have "?m = files s1 \<or> ?m = (files s1)(?part := None)"
          using r Inr by (auto simp: after_accept_def io_simps remove_part_def)
        then show ?thesis
          using solo_fail [OF receiving_busy [OF w']] solo_incomplete [OF w'] False n q v by auto
      qed
    qed
  qed
qed

lemma solo_accept:
  assumes "receiving_at c u content w" and "length content \<le> up_size u"
    and "view (fs w) = files s" and "pe_sha penv = te_sha env"
  shows "solo penv c w (files (snd (seqM (t_send env (FileAccept fid off))
    (after_accept env fid (up_name u) (up_size u) (up_sha u) (length content)) s)))" (is "solo _ _ _ ?m")
proof -
  obtain r s2 where snd: "t_send env (FileAccept fid off) s = (r, s2)" by fastforce
  then have s2: "files s2 = files s" by (metis snd_conv t_send_files(1))
  show ?thesis
  proof (cases r)
    case (Inl e)
    then have "?m = files s" using snd s2 by (simp add: seqM_apply)
    with assms(3) show ?thesis by (intro solo_fail receiving_busy [OF assms(1)]) simp
  next
    case (Inr x)
    then have "?m = files (snd (after_accept env fid (up_name u) (up_size u) (up_sha u) (length content) s2))"
      using snd by (simp add: seqM_apply)
    with solo_receive [OF assms(1,2), of s2 penv env fid] s2 assms(3,4) show ?thesis by simp
  qed
qed

lemma solo_offer:
  assumes "phase w c = Pairing" and "fs_ok (fs w)" and "view (fs w) = files s" and "pe_sha penv = te_sha env"
    and "pe_config penv = t_config s" and "is_paired (t_config s) fp"
  shows "solo penv c w (files (snd (receive_offer env fid name fsize sha256 s)))" (is "solo _ _ _ ?m")
proof (cases "max_file_size (t_config s) \<noteq> 0 \<and> fsize > max_file_size (t_config s) \<or> \<not> te_dir_ok env \<or> \<not> te_open_ok env")
  case True
  then have "?m = files s" by (auto simp: receive_offer_eq Let_def)
  with assms(1,3) show ?thesis by (auto intro: solo_fail)
next
  case False
  define u where "u = \<lparr>up_name = sanitize_file_name name, up_size = unat fsize, up_sha = sha256\<rparr>"
  define content where "content = resume_from (files s (part_name (up_name u))) (up_size u)"
  define s1 where "s1 = s\<lparr>files := (files s)(part_name (up_name u) \<mapsto> content)\<rparr>"
  have m: "receive_offer env fid name fsize sha256 s =
      seqM (t_send env (FileAccept fid (word_of_nat (length content))))
        (after_accept env fid (up_name u) (up_size u) (up_sha u) (length content)) s1"
    using False by (auto simp: receive_offer_eq Let_def u_def s1_def content_def)
  have le: "length content \<le> up_size u" by (simp add: content_def length_resume_from)
  have "port_step penv (Offer c fp name fsize sha256) w = Some (enter c (Offered u) w)"
    using assms False by (auto simp: u_def)
  moreover have "solo penv c (enter c (Offered u) w) ?m"
  proof (rule solo_open [where u = u and content = content])
    show "phase (enter c (Offered u) w) c = Offered u" by simp
    show "fs_ok (fs (enter c (Offered u) w))" using assms(2) by simp
    show "content = resume_from (view (fs (enter c (Offered u) w)) (part_name (up_name u))) (up_size u)"
      by (simp add: content_def assms(3))
    fix w'
    assume "receiving_at c u content w'"
      and "view (fs w') = (view (fs (enter c (Offered u) w)))(part_name (up_name u) \<mapsto> content)"
    then show "solo penv c w' ?m"
      unfolding m using le assms(3,4) by (intro solo_accept) (simp_all add: s1_def)
  qed
  ultimately show ?thesis by (rule solo_step) simp
qed

lemma solo_handler:
  assumes "phase w c = Unconnected" and "permits w < MAX_PENDING_CONNECTIONS"
    and "fs_ok (fs w)" and "view (fs w) = files s" and "pe_sha penv = te_sha env" and "pe_config penv = t_config s"
  shows "solo penv c w (files (snd (handle_transfer env s)))"
proof -
  define w1 where "w1 = (enter c Pairing w)\<lparr>permits := permits w + 1\<rparr>"
  have w1: "phase w1 c = Pairing" "fs w1 = fs w" by (simp_all add: w1_def)
  have "port_step penv (Accept c) w = Some w1" using assms(1,2) by (simp add: w1_def)
  moreover have "solo penv c w1 (files (snd (handle_transfer env s)))"
  proof (cases "files (snd (handle_transfer env s)) = files s")
    case True
    with w1 assms(4) show ?thesis by (simp add: solo_fail)
  next
    case False
    then obtain nonce fp pf v s1 fid name fsize sha256 v' where
      paired: "is_paired (t_config s) fp" and sent: "t_send env PairAccept (s\<lparr>t_stream := v\<rparr>) = (Inr (), s1)"
      and h: "handle_transfer env s = receive_offer env fid name fsize sha256 (s1\<lparr>t_stream := v'\<rparr>)"
      by (rule handle_transfer_outcome)
    from sent have s1: "files s1 = files s" "t_config s1 = t_config s" by (auto simp: t_send_Inr)
    show ?thesis unfolding h
      by (rule solo_offer [where fp = fp]) (use w1 s1 assms paired in simp_all)
  qed
  ultimately show ?thesis by (rule solo_step) simp
qed

section \<open>The states are well formed\<close>

definition upload_ok :: "port_env \<Rightarrow> upload \<Rightarrow> bool" where
  "upload_ok env u \<longleftrightarrow> (\<exists>name. up_name u = sanitize_file_name name) \<and> up_size u < 2 ^ 64 \<and>
     (max_file_size (pe_config env) \<noteq> 0 \<longrightarrow> up_size u \<le> unat (max_file_size (pe_config env)))"

definition phase_typed :: "port_env \<Rightarrow> fsys \<Rightarrow> upload_phase \<Rightarrow> bool" where
  "phase_typed env f p \<longleftrightarrow>
     (\<forall>u. upload_of p = Some u \<longrightarrow> upload_ok env u) \<and>
     (\<forall>u h r. p = Receiving u h r \<longrightarrow> h_inode h < fresh f \<and> r \<le> up_size u)"

lemma port_step_fresh: "port_step env a w = Some w' \<Longrightarrow> fresh (fs w) \<le> fresh (fs w')"
  by (cases a) (auto simp: create_file_def write_chunk_def Let_def
      split: if_splits upload_phase.splits option.splits prod.splits)

lemma create_file_inode: "create_file n f = (i, f') \<Longrightarrow> fs_ok f \<Longrightarrow> i < fresh f'"
  by (auto simp: create_file_def fs_ok_def split: option.splits)

lemma dir_inode: "fs_ok f \<Longrightarrow> dir f n = Some i \<Longrightarrow> i < fresh f"
  by (auto simp: fs_ok_def)

lemma unat_u64_less: "unat (x :: u64) < 2 ^ 64"
  by (rule order_less_le_trans [OF unsigned_less]) simp

lemma offered_ok:
  "\<not> (max_file_size (pe_config env) \<noteq> 0 \<and> fsize > max_file_size (pe_config env)) \<Longrightarrow>
   upload_ok env \<lparr>up_name = sanitize_file_name name, up_size = unat fsize, up_sha = sha256\<rparr>"
  using unat_u64_less [of fsize] by (auto simp: upload_ok_def word_le_nat_alt not_less)

lemma port_step_typed_own:
  assumes "port_step env a w = Some w'" and "fs_ok (fs w)" and "phase_typed env (fs w) (phase w (agent a))"
  shows "phase_typed env (fs w') (phase w' (agent a))"
  using assms
  by (cases a)
    (auto simp: phase_typed_def write_chunk_dir create_file_inode dir_inode intro: offered_ok
      split: if_splits upload_phase.splits option.splits prod.splits)

lemma port_step_typed:
  assumes "port_step env a w = Some w'" and "fs_ok (fs w)" and "\<And>c. phase_typed env (fs w) (phase w c)"
  shows "phase_typed env (fs w') (phase w' d)"
proof (cases "d = agent a")
  case True
  with port_step_typed_own [OF assms] show ?thesis by simp
next
  case False
  from port_step_fresh [OF assms(1)] assms(3) [of d] show ?thesis
    unfolding port_step_others [OF assms(1) False] phase_typed_def by fastforce
qed

lemma port_reach_typed:
  "port_reach env fs0 w \<Longrightarrow> fs_ok fs0 \<Longrightarrow> fs_ok (fs w) \<and> (\<forall>c. phase_typed env (fs w) (phase w c))"
proof (induction rule: port_reach.induct)
  case port_begin
  then show ?case by (simp add: port_start_def phase_typed_def)
next
  case (port_next w ds a w')
  have "phase_typed (paired_as ds env) f p = phase_typed env f p" for f p
    by (simp add: phase_typed_def upload_ok_def)
  with port_next port_step_typed [OF port_next(2)] port_step_fs_ok [OF port_next(2)] show ?case by simp
qed

section \<open>The first free name\<close>

lemma unique_from_first:
  assumes "unique_from taken name i = Some p"
  shows "\<exists>k\<ge>i. p = numbered_name name k \<and> (\<forall>j. i \<le> j \<and> j < k \<longrightarrow> taken (numbered_name name j))"
proof (rule unique_from.raw_induct [where P = "\<lambda>tk nm i p. \<exists>k\<ge>i. p = numbered_name nm k \<and>
      (\<forall>j. i \<le> j \<and> j < k \<longrightarrow> tk (numbered_name nm j))", OF _ assms])
  fix f :: "(string \<Rightarrow> bool) \<Rightarrow> string \<Rightarrow> nat \<Rightarrow> string option" and tk nm i y
  assume ih: "\<And>tk nm i y. f tk nm i = Some y \<Longrightarrow> \<exists>k\<ge>i. y = numbered_name nm k \<and>
      (\<forall>j. i \<le> j \<and> j < k \<longrightarrow> tk (numbered_name nm j))"
    and y: "(if \<not> tk (numbered_name nm i) then Some (numbered_name nm i) else f tk nm (Suc i)) = Some y"
  show "\<exists>k\<ge>i. y = numbered_name nm k \<and> (\<forall>j. i \<le> j \<and> j < k \<longrightarrow> tk (numbered_name nm j))"
  proof (cases "tk (numbered_name nm i)")
    case True
    with y ih obtain k where k: "k \<ge> Suc i" "y = numbered_name nm k"
      "\<forall>j. Suc i \<le> j \<and> j < k \<longrightarrow> tk (numbered_name nm j)" by fastforce
    with True have "tk (numbered_name nm j)" if "i \<le> j" "j < k" for j
      using that by (cases "j = i") auto
    with k show ?thesis by (intro exI [of _ k]) auto
  next
    case False
    with y show ?thesis by (intro exI [of _ i]) auto
  qed
qed

section \<open>Names and earlier files\<close>

text \<open>Every name that a handler uses is safe.\<close>

lemma names_safe:
  assumes "port_step env a w = Some w'" and "\<And>n. n \<in> names_of (phase w (agent a)) \<Longrightarrow> safe_file_name n"
    and "\<And>u. upload_of (phase w (agent a)) = Some u \<Longrightarrow> safe_file_name (up_name u)"
  shows "(n \<in> names_of (phase w' (agent a)) \<longrightarrow> safe_file_name n) \<and>
    (upload_of (phase w' (agent a)) = Some u \<longrightarrow> safe_file_name (up_name u))"
proof -
  have dest: "safe_file_name p" if "unique_dest_path taken name = Some p" "safe_file_name name" for taken name p
    using that numbered_safe by (auto simp: unique_dest_path_def dest: unique_from_first split: if_splits)
  show ?thesis
    using assms
    by (cases a)
      (auto simp: names_of_def part_of_def sanitize_safe part_safe intro: dest
        split: if_splits upload_phase.splits option.splits prod.splits)
qed

text \<open>Only these names of the directory change, and only they are recorded as stored.\<close>

definition safe_changes :: "fsys \<Rightarrow> port \<Rightarrow> bool" where
  "safe_changes fs0 w \<longleftrightarrow>
     (\<forall>n. dir (fs w) n \<noteq> dir fs0 n \<or> n \<in> fst ` set (stored w) \<longrightarrow> safe_file_name n) \<and>
     (\<forall>c n. n \<in> names_of (phase w c) \<longrightarrow> safe_file_name n) \<and>
     (\<forall>c u. upload_of (phase w c) = Some u \<longrightarrow> safe_file_name (up_name u))"

lemma port_step_dir:
  assumes "port_step env a w = Some w'" and "n \<notin> names_of (phase w (agent a))"
  shows "dir (fs w') n = dir (fs w) n" "n \<in> fst ` set (stored w') \<longleftrightarrow> n \<in> fst ` set (stored w)"
  using assms
  by (cases a; auto simp: names_of_def part_of_def create_file_def write_chunk_def Let_def
      split: if_splits upload_phase.splits option.splits prod.splits)+

lemma safe_changes_step:
  assumes step: "port_step env a w = Some w'" and safe: "safe_changes fs0 w"
  shows "safe_changes fs0 w'"
proof -
  have own: "\<And>n. n \<in> names_of (phase w (agent a)) \<Longrightarrow> safe_file_name n"
    "\<And>u. upload_of (phase w (agent a)) = Some u \<Longrightarrow> safe_file_name (up_name u)"
    using safe by (auto simp: safe_changes_def)
  note after = names_safe [OF step own]
  have "safe_file_name n" if "dir (fs w') n \<noteq> dir fs0 n \<or> n \<in> fst ` set (stored w')" for n
    using that own(1) [of n] port_step_dir [OF step, of n] safe unfolding safe_changes_def by metis
  moreover have "(n \<in> names_of (phase w' c) \<longrightarrow> safe_file_name n) \<and>
      (upload_of (phase w' c) = Some u \<longrightarrow> safe_file_name (up_name u))" for c n u
  proof (cases "c = agent a")
    case True
    with after [of n u] show ?thesis by simp
  next
    case False
    with safe port_step_others [OF step False] show ?thesis by (auto simp: safe_changes_def)
  qed
  ultimately show ?thesis unfolding safe_changes_def by blast
qed

lemma port_reach_safe: "port_reach env fs0 w \<Longrightarrow> safe_changes fs0 w"
proof (induction rule: port_reach.induct)
  case port_begin
  show ?case by (simp add: safe_changes_def port_start_def names_of_def part_of_def)
qed (rule safe_changes_step)

text \<open>
  A file that no handler can reach: none has it open, has chosen its name, or has a partial file of that name.
\<close>

definition out_of_reach :: "string \<Rightarrow> inode \<Rightarrow> bytes \<Rightarrow> port \<Rightarrow> bool" where
  "out_of_reach n i c w \<longleftrightarrow> fs_ok (fs w) \<and> dir (fs w) n = Some i \<and> data (fs w) i = c \<and>
     (\<forall>d u h r. phase w d = Receiving u h r \<longrightarrow> h_inode h \<noteq> i) \<and>
     (\<forall>d u f. phase w d = Named u f \<longrightarrow> f \<noteq> n)"

lemma create_file_reach:
  assumes "create_file m f = (j, f')" and "fs_ok f" and "dir f n = Some i" and "m \<noteq> n"
  shows "j \<noteq> i" "dir f' n = Some i" "data f' i = data f i"
  using assms fs_ok_inj [OF assms(2), of m j n] fs_ok_fresh [OF assms(2), of n]
  by (auto simp: create_file_def split: option.splits)

lemma out_of_reach_step:
  assumes step: "port_step env a w = Some w'" and out: "out_of_reach n i c w" and n: "\<not> is_part n"
  shows "out_of_reach n i c w'"
proof -
  have ok: "fs_ok (fs w)" and i: "dir (fs w) n = Some i" and c: "data (fs w) i = c"
    and held: "\<And>d u h r. phase w d = Receiving u h r \<Longrightarrow> h_inode h \<noteq> i"
    and name: "\<And>d u f. phase w d = Named u f \<Longrightarrow> f \<noteq> n"
    using out by (auto simp: out_of_reach_def)
  have part: "part_name m \<noteq> n" for m using n by auto
  have chosen: "f \<noteq> n" if "unique_dest_path (exists_in (fs w)) m = Some f" for m f
    using unique_dest_path_fresh [OF that] i by (auto simp: exists_in_def)
  have created: "create_file (part_name m) (fs w) \<noteq> (i, f)" for m f
    using create_file_reach(1) [OF _ ok i part] by blast
  have other: "dir (fs w) (part_name m) \<noteq> Some i" for m using fs_ok_inj [OF ok i] part by metis
  have files: "dir (fs w') n = Some i \<and> data (fs w') i = c"
    using step i c
    by (cases a) (auto simp: write_chunk_def Let_def create_file_reach [OF _ ok i part] part part [symmetric]
        split: if_splits upload_phase.splits option.splits prod.splits dest!: held name)
  have own: "(phase w' (agent a) = Receiving u h r \<longrightarrow> h_inode h \<noteq> i) \<and> (phase w' (agent a) = Named u f \<longrightarrow> f \<noteq> n)" for u h r f
    using step
    by (cases a) (auto simp: other created write_chunk_dir
        split: if_splits upload_phase.splits option.splits prod.splits
        dest!: held name dest: chosen)
  show ?thesis
    unfolding out_of_reach_def
  proof (intro conjI allI impI)
    show "fs_ok (fs w')" using port_step_fs_ok [OF step ok] .
    show "dir (fs w') n = Some i" "data (fs w') i = c" using files by simp_all
  next
    fix d u h r assume "phase w' d = Receiving u h r"
    then show "h_inode h \<noteq> i" using own held port_step_others [OF step] by (cases "d = agent a") auto
  next
    fix d u f assume "phase w' d = Named u f"
    then show "f \<noteq> n" using own name port_step_others [OF step] by (cases "d = agent a") auto
  qed
qed

lemma port_reach_kept:
  assumes "port_reach env fs0 w" and "fs_ok fs0" and "dir fs0 n = Some i" and "\<not> is_part n"
  shows "out_of_reach n i (data fs0 i) w"
  using assms(1)
proof (induction rule: port_reach.induct)
  case port_begin
  show ?case using assms by (simp add: out_of_reach_def port_start_def)
qed (rule out_of_reach_step [OF _ _ assms(4)])

section \<open>Uploads that meet\<close>

definition empty_dir :: fsys where
  "empty_dir = \<lparr>dir = Map.empty, data = (\<lambda>_. []), fresh = 0\<rparr>"

text \<open>A paired device offers a file and sends all of it; the handler has compared the digest.\<close>

definition send_verified :: "nat \<Rightarrow> string \<Rightarrow> string \<Rightarrow> u8 \<Rightarrow> bytes \<Rightarrow> port_action list" where
  "send_verified c fp name b sha256 =
     [Accept c, Offer c fp name 1 sha256, Stat c, Open c, Write c [b], EndOfData c, Verify c]"


lemma sanitize_a: "sanitize_file_name ''a'' = ''a''"
  by code_simp

lemma path_file_name_a1: "path_file_name ''a (1)'' = Some ''a (1)''"
  by code_simp

lemma trim_a1: "trim ''a (1)'' = ''a (1)''"
  by code_simp

lemma sanitize_a1: "sanitize_file_name ''a (1)'' = ''a (1)''"
  by (simp add: sanitize_file_name_def path_file_name_a1 trim_a1)

lemma numbered_a1: "numbered_name ''a'' 1 = ''a (1)''"
  by code_simp

definition one_file :: fsys where
  "one_file = \<lparr>dir = [''a'' \<mapsto> 0], data = (\<lambda>_. [7]), fresh = 1\<rparr>"

lemma choose_free: "\<not> taken n \<Longrightarrow> unique_dest_path taken n = Some n"
  by (simp add: unique_dest_path_def)

lemma choose_a1: "taken ''a'' \<Longrightarrow> \<not> taken ''a (1)'' \<Longrightarrow> unique_dest_path taken ''a'' = Some ''a (1)''"
  using numbered_a1 by (simp add: unique_dest_path_def unique_from.simps [of taken "''a''"])

lemmas port_eval = port_start_def send_verified_def enter_def finish_def view_def create_file_def write_chunk_def
  write_at_def exists_in_def choose_free choose_a1 part_name_def Let_def MAX_PENDING_CONNECTIONS_def sanitize_a sanitize_a1

definition overlap :: "string \<Rightarrow> bytes \<Rightarrow> bytes \<Rightarrow> port_action list" where
  "overlap fp sha1 sha2 =
     send_verified 0 fp ''a'' 1 sha1 @
     [Accept 1, Offer 1 fp ''a'' 2 sha2, Stat 1, Open 1, Write 1 [9], Choose 0, Rename 0]"

definition same_choice :: "string \<Rightarrow> bytes \<Rightarrow> bytes \<Rightarrow> port_action list" where
  "same_choice fp sha1 sha2 =
     send_verified 0 fp ''a'' 1 sha1 @ send_verified 1 fp ''a (1)'' 2 sha2 @
     [Choose 0, Choose 1, Rename 0, Rename 1]"

lemma overlap_run:
  assumes "is_paired (pe_config env) fp" and "max_file_size (pe_config env) = 0"
  shows "\<exists>w. port_run env (overlap fp (pe_sha env [1]) sha2) (port_start empty_dir) = Some w \<and>
    stored w = [(''a'', [1, 9], pe_sha env [1])] \<and> view (fs w) ''a'' = Some [1, 9]"
  using assms by (simp add: overlap_def empty_dir_def port_eval)

lemma same_choice_run:
  assumes "is_paired (pe_config env) fp" and "max_file_size (pe_config env) = 0"
  shows "\<exists>w. port_run env (same_choice fp (pe_sha env [1]) (pe_sha env [2])) (port_start one_file) = Some w \<and>
    stored w = [(''a (1)'', [1], pe_sha env [1]), (''a (1)'', [2], pe_sha env [2])] \<and> view (fs w) ''a (1)'' = Some [2]"
  using assms by (simp add: same_choice_def one_file_def port_eval)

section \<open>Properties\<close>

definition ex_port_env :: port_env where
  "ex_port_env = \<lparr>pe_sha = pad32, pe_config = t_config (ex_transfer_state [])\<rparr>"

lemma ex_port_paired: "is_paired (pe_config ex_port_env) ''fp''" "max_file_size (pe_config ex_port_env) = 0"
  "pe_sha ex_port_env = pad32"
  using ex_hyps(5) by (simp_all add: ex_port_env_def ex_transfer_state_def is_paired_def server_config_default_def
      add_paired_device_def)

definition two_files :: fsys where
  "two_files = \<lparr>dir = [''a.txt.part'' \<mapsto> 0, ''b.txt'' \<mapsto> 1], data = (\<lambda>i. if i = 0 then [1] else [9]), fresh = 2\<rparr>"

text \<open>Two uploads side by side, of different files.\<close>

definition side_by_side :: "port_action list" where
  "side_by_side =
     [Accept 0, Offer 0 ''fp'' ''a'' 1 (pad32 [1]), Accept 1, Offer 1 ''fp'' ''a (1)'' 1 (pad32 [2]), Stat 0, Stat 1,
      Open 0, Open 1, Write 0 [1], Write 1 [2], EndOfData 0, EndOfData 1, Verify 0, Verify 1, Choose 0, Choose 1,
      Rename 1, Rename 0]"

fun iso_run :: "port_env \<Rightarrow> string set \<Rightarrow> port_action list \<Rightarrow> port \<Rightarrow> port option" where
  "iso_run env keep [] w = Some w"
| "iso_run env keep (a # as) w =
     (case port_step env a w of None \<Rightarrow> None | Some w' \<Rightarrow> if isolated keep w' then iso_run env keep as w' else None)"

lemma iso_next_same:
  "iso_reach env fs0 keep w \<Longrightarrow> port_step env a w = Some w' \<Longrightarrow> isolated keep w' \<Longrightarrow> iso_reach env fs0 keep w'"
  using iso_next [of env fs0 keep w "paired_devices (pe_config env)" a w'] by simp

lemma iso_run_reach: "iso_reach env fs0 keep w \<Longrightarrow> iso_run env keep as w = Some w' \<Longrightarrow> iso_reach env fs0 keep w'"
  by (induction "as" arbitrary: w) (auto split: option.splits if_splits intro: iso_next_same)

lemma isolated_two:
  assumes "\<And>d. d \<noteq> c \<Longrightarrow> d \<noteq> c' \<Longrightarrow> phase w d = Unconnected" and "c \<noteq> c'"
  shows "isolated keep w \<longleftrightarrow> names_of (phase w c) \<inter> names_of (phase w c') = {} \<and>
    (part_of (phase w c) \<union> part_of (phase w c')) \<inter> (keep \<union> fst ` set (stored w)) = {}"
    (is "_ \<longleftrightarrow> ?R")
proof
  assume "isolated keep w"
  with assms(2) show ?R unfolding isolated_def by blast
next
  have none: "names_of Unconnected = {}" "part_of Unconnected = {}" by (simp_all add: names_of_def part_of_def)
  assume R: ?R
  then have R1: "names_of (phase w c') \<inter> names_of (phase w c) = {}" by blast
  have "names_of (phase w d) \<inter> names_of (phase w e) = {}" if "d \<noteq> e" for d e
    using R R1 assms(1) [of d] assms(1) [of e] none that
    by (cases "d = c"; cases "d = c'"; cases "e = c"; cases "e = c'") simp_all
  moreover have "part_of (phase w d) \<inter> (keep \<union> fst ` set (stored w)) = {}" for d
    using R assms(1) [of d] none(2) by (cases "d = c"; cases "d = c'") auto
  ultimately show "isolated keep w" unfolding isolated_def by blast
qed

lemma side_by_side_run:
  "\<exists>w. iso_run ex_port_env {} side_by_side (port_start empty_dir) = Some w \<and>
    stored w = [(''a (1)'', [2], pad32 [2]), (''a'', [1], pad32 [1])]"
  by (simp add: side_by_side_def empty_dir_def port_eval ex_port_paired isolated_two [of 0 1] names_of_def part_of_def)

text \<open>
  The file port never has more than 256 connections, whatever the devices do. In every reachable
  state the handlers that are working are finitely many, one for each permit that is taken.
\<close>

theorem file_port_bounded:
  assumes "port_reach env fs0 w"
  shows "finite {c. busy (phase w c)} \<and> card {c. busy (phase w c)} = permits w \<and> permits w \<le> 256"
  using port_reach_counted [OF assms] by (simp add: counted_def busy_set_def MAX_PENDING_CONNECTIONS_def)

theorem file_port_bounded_witness:
  "\<exists>w. port_run ex_port_env [Accept 4, Accept 7] (port_start empty_dir) = Some w \<and> permits w = 2 \<and> card {c. busy (phase w c)} = 2"
proof -
  obtain w where w: "port_run ex_port_env [Accept 4, Accept 7] (port_start empty_dir) = Some w" "permits w = 2"
    by (simp add: port_eval)
  with file_port_bounded [OF port_run_reach [OF port_begin w(1)]] show ?thesis by simp
qed

text \<open>
  C13: uploads that keep apart are all stored, and stay. As long as no two handlers work on the same
  path and no partial path is a protected name, every confirmed upload is in the directory under a
  name of its own, with the content that had the offered digest, and the protected files are as they
  were at the start, however the handlers interleave.
\<close>

theorem isolated_uploads_kept:
  assumes "iso_reach env fs0 keep w"
  shows "(\<forall>n c d. (n, c, d) \<in> set (stored w) \<longrightarrow> view (fs w) n = Some c \<and> pe_sha env c = d) \<and>
    distinct (map fst (stored w)) \<and>
    (\<forall>n\<in>keep. view fs0 n \<noteq> None \<longrightarrow> view (fs w) n = view fs0 n)"
  using iso_reach_sound [OF assms] by (simp add: sound_def kept_def)

theorem isolated_uploads_kept_witness:
  "\<exists>w. iso_reach ex_port_env empty_dir {} w \<and> view (fs w) ''a'' = Some [1] \<and> view (fs w) ''a (1)'' = Some [2]"
proof -
  obtain w where w: "iso_run ex_port_env {} side_by_side (port_start empty_dir) = Some w"
    "stored w = [(''a (1)'', [2], pad32 [2]), (''a'', [1], pad32 [1])]"
    using side_by_side_run by blast
  have "iso_reach ex_port_env empty_dir {} w"
    by (rule iso_run_reach [OF iso_begin w(1)]) (simp add: fs_ok_def empty_dir_def)
  with isolated_uploads_kept [OF this] w(2) show ?thesis by auto
qed

text \<open>
  C32: the handler on its own is a run of the port. Whatever the stream holds and whatever fails, the
  directory that the sequential handler leaves behind is the one that some sequence of steps of one
  handler leaves behind, from any state of the port with the same directory and a free permit.
\<close>

theorem handler_is_port_run:
  assumes "phase w c = Unconnected" and "permits w < MAX_PENDING_CONNECTIONS"
    and "fs_ok (fs w)" and "view (fs w) = files s" and "pe_sha penv = te_sha env" and "pe_config penv = t_config s"
  shows "\<exists>as w'. (\<forall>a\<in>set as. agent a = c) \<and> port_run penv as w = Some w' \<and> phase w' c = Over \<and>
    view (fs w') = files (snd (handle_transfer env s))"
  using solo_handler [OF assms] unfolding solo_def by blast

theorem handler_is_port_run_witness:
  "\<exists>as w'. port_run \<lparr>pe_sha = te_sha ex_transfer_env, pe_config = t_config (ex_transfer_state [2, 3])\<rparr> as
     (port_start two_files) = Some w' \<and>
     view (fs w') ''a.txt'' = Some [1, 2, 3]"
proof -
  let ?w = "port_start two_files"
  have "view (fs ?w) = files (ex_transfer_state [2, 3])"
    by (simp add: port_start_def two_files_def view_def ex_transfer_state_def fun_eq_iff)
  moreover have "phase ?w 0 = Unconnected" "permits ?w < MAX_PENDING_CONNECTIONS" "fs_ok (fs ?w)"
    by (auto simp: port_start_def two_files_def fs_ok_def inj_on_def MAX_PENDING_CONNECTIONS_def split: if_splits)
  ultimately obtain "as" w' where
    run: "port_run \<lparr>pe_sha = te_sha ex_transfer_env, pe_config = t_config (ex_transfer_state [2, 3])\<rparr> as ?w = Some w'"
    and v: "view (fs w') = files (snd (handle_transfer ex_transfer_env (ex_transfer_state [2, 3])))"
    using handler_is_port_run [of ?w 0 "ex_transfer_state [2, 3]"
      "\<lparr>pe_sha = te_sha ex_transfer_env, pe_config = t_config (ex_transfer_state [2, 3])\<rparr>" ex_transfer_env] by auto
  from ex_upload v have "view (fs w') ''a.txt'' = Some [1, 2, 3]" by auto
  with run show ?thesis by blast
qed

text \<open>
  Two uploads of one name share their partial file. When the first has been verified and the
  second device opens the partial file and writes before the rename, the first upload is confirmed
  with a content whose digest was never compared: the check and the rename are not one step, and
  nothing keeps a second handler from the path.
\<close>

theorem same_name_upload_unverified:
  assumes "is_paired (pe_config env) fp" and "max_file_size (pe_config env) = 0"
    and "pe_sha env [1, 9] \<noteq> pe_sha env [1]"
  shows "\<exists>as w n c d. port_run env as (port_start empty_dir) = Some w \<and> (n, c, d) \<in> set (stored w) \<and>
    view (fs w) n = Some c \<and> pe_sha env c \<noteq> d"
proof -
  from overlap_run [OF assms(1,2)] obtain w where
    w: "port_run env (overlap fp (pe_sha env [1]) []) (port_start empty_dir) = Some w"
    "stored w = [(''a'', [1, 9], pe_sha env [1])]" "view (fs w) ''a'' = Some [1, 9]" by blast
  then have "(''a'', [1, 9], pe_sha env [1]) \<in> set (stored w)" by simp
  with w(1,3) assms(3) show ?thesis by blast
qed

theorem same_name_upload_unverified_witness:
  "\<exists>as w n c d. port_run ex_port_env as (port_start empty_dir) = Some w \<and> (n, c, d) \<in> set (stored w) \<and>
    view (fs w) n = Some c \<and> pad32 c \<noteq> d"
proof -
  have "pad32 [1, 9] ! 1 \<noteq> pad32 [1] ! 1" by (simp add: pad32_def)
  then have "pe_sha ex_port_env [1, 9] \<noteq> pe_sha ex_port_env [1]" unfolding ex_port_paired(3) by metis
  from same_name_upload_unverified [OF ex_port_paired(1,2) this] show ?thesis by (simp add: ex_port_paired(3))
qed

text \<open>
  A confirmed upload can be overwritten. \<open>unique_dest_path\<close> looks for a free name, and the rename
  comes later: two uploads of different names can choose the same one, and the second rename replaces
  the file of the first, although both devices are told that theirs is complete.
\<close>

theorem confirmed_upload_overwritten:
  assumes "is_paired (pe_config env) fp" and "max_file_size (pe_config env) = 0"
  shows "\<exists>as w n c c' d d'. port_run env as (port_start one_file) = Some w \<and>
    stored w = [(n, c, d), (n, c', d')] \<and> c \<noteq> c' \<and> view (fs w) n = Some c'"
proof -
  from same_choice_run [OF assms] obtain w where
    "port_run env (same_choice fp (pe_sha env [1]) (pe_sha env [2])) (port_start one_file) = Some w"
    "stored w = [(''a (1)'', [1], pe_sha env [1]), (''a (1)'', [2], pe_sha env [2])]"
    "view (fs w) ''a (1)'' = Some [2]" by blast
  moreover have "[1 :: u8] \<noteq> [2]" by simp
  ultimately show ?thesis by blast
qed

theorem confirmed_upload_overwritten_witness:
  "\<exists>as w n c c' d d'. port_run ex_port_env as (port_start one_file) = Some w \<and>
    stored w = [(n, c, d), (n, c', d')] \<and> c \<noteq> c' \<and> view (fs w) n = Some c'"
  using confirmed_upload_overwritten [OF ex_port_paired(1,2)] .

text \<open>
  C34: the states of the port are well formed, in every interleaving. Each upload has a sanitized name and
  a size within the limit, no handler has received more bytes than were announced, and an open file is
  one that was made; two names of the directory never share a file.
\<close>

theorem file_port_well_formed:
  assumes "port_reach env fs0 w" and "fs_ok fs0"
  shows "inj_on (dir (fs w)) (dom (dir (fs w))) \<and>
    (\<forall>c u. upload_of (phase w c) = Some u \<longrightarrow>
       (\<exists>name. up_name u = sanitize_file_name name) \<and> up_size u < 2 ^ 64 \<and>
       (max_file_size (pe_config env) \<noteq> 0 \<longrightarrow> up_size u \<le> unat (max_file_size (pe_config env)))) \<and>
    (\<forall>c u h r. phase w c = Receiving u h r \<longrightarrow> r \<le> up_size u \<and> h_inode h < fresh (fs w))"
  using port_reach_typed [OF assms] by (auto simp: fs_ok_def phase_typed_def upload_ok_def)

theorem file_port_well_formed_witness:
  "\<exists>w u h. port_run ex_port_env [Accept 0, Offer 0 ''fp'' ''a'' 1 [], Stat 0, Open 0, Write 0 [7]] (port_start empty_dir) = Some w \<and>
     phase w 0 = Receiving u h 1 \<and> 1 \<le> up_size u \<and> h_inode h < fresh (fs w)"
proof -
  obtain w u h where w: "port_run ex_port_env [Accept 0, Offer 0 ''fp'' ''a'' 1 [], Stat 0, Open 0, Write 0 [7]] (port_start empty_dir) = Some w"
    "phase w 0 = Receiving u h 1"
    by (simp add: port_eval empty_dir_def ex_port_paired)
  have "fs_ok empty_dir" by (simp add: fs_ok_def empty_dir_def)
  with file_port_well_formed [OF port_run_reach [OF port_begin w(1)]] w show ?thesis by blast
qed

text \<open>
  C35: the search for a free name ends. For a directory with finitely many files \<open>unique_dest_path\<close> returns
  the offered name if it is free, and else the first free one of the numbered names.
\<close>

theorem free_name_found:
  assumes "finite {n. taken n}"
  shows "\<exists>p. unique_dest_path taken name = Some p \<and> \<not> taken p \<and>
    (if taken name then \<exists>i\<ge>1. p = numbered_name name i \<and> (\<forall>j. 1 \<le> j \<and> j < i \<longrightarrow> taken (numbered_name name j))
     else p = name)"
proof (cases "taken name")
  case True
  from unique_from_returns [OF assms] obtain p where p: "unique_from taken name 1 = Some p" by blast
  with True unique_from_fresh [OF p] unique_from_first [OF p] show ?thesis by (auto simp: unique_dest_path_def)
next
  case False
  then show ?thesis by (simp add: unique_dest_path_def)
qed

theorem free_name_found_witness:
  "\<exists>p. unique_dest_path (\<lambda>n. n \<in> {''a'', ''a (1)''}) ''a'' = Some p \<and> p \<noteq> ''a'' \<and> p \<noteq> ''a (1)''"
  using free_name_found [of "\<lambda>n. n \<in> {''a'', ''a (1)''}" "''a''"] by auto

text \<open>
  C23: uploads never damage a file that was there before. Whatever the devices send, however many handlers work side by
  side and whatever fails, a file that was in the transfer directory when the port was opened and whose name
  does not end in \<open>.part\<close> keeps its content. (Of two uploads that run at the same time, one can replace
  the other: \<open>confirmed_upload_overwritten\<close>.)
\<close>

theorem earlier_files_kept:
  assumes "port_reach env fs0 w" and "fs_ok fs0" and "view fs0 n = Some c" and "\<not> is_part n"
  shows "view (fs w) n = Some c"
proof -
  from assms(3) obtain i where "dir fs0 n = Some i" "data fs0 i = c" by (auto simp: view_def)
  with port_reach_kept [OF assms(1,2)] assms(4) show ?thesis by (auto simp: out_of_reach_def view_def)
qed

text \<open>An upload of a name that is taken.\<close>

lemma taken_name_run:
  "\<exists>w. port_run ex_port_env (send_verified 0 ''fp'' ''a'' 5 (pad32 [5]) @ [Choose 0, Rename 0]) (port_start one_file) = Some w \<and>
     stored w = [(''a (1)'', [5], pad32 [5])]"
  by (simp add: port_eval one_file_def ex_port_paired)

theorem earlier_files_kept_witness:
  "\<exists>w. port_run ex_port_env (send_verified 0 ''fp'' ''a'' 5 (pad32 [5]) @ [Choose 0, Rename 0]) (port_start one_file) = Some w \<and>
     view (fs w) ''a'' = Some [7]"
proof -
  obtain w where w: "port_run ex_port_env (send_verified 0 ''fp'' ''a'' 5 (pad32 [5]) @ [Choose 0, Rename 0]) (port_start one_file) = Some w"
    using taken_name_run by blast
  have "view (fs w) ''a'' = Some [7]"
    by (rule earlier_files_kept [OF port_run_reach [OF port_begin w]])
      (simp_all add: fs_ok_def one_file_def view_def is_part_def)
  with w show ?thesis by blast
qed

text \<open>
  C30: names from the network stay in the transfer directory. In every interleaving, each name of the directory
  that is not as it was when the port was opened, and each name under which an upload was confirmed, is not empty, has no
  directory separator (of Unix), is neither \<open>.\<close> nor \<open>..\<close>, and contains no control character: partial files and
  numbered names included.
\<close>

theorem stored_names_safe:
  assumes "port_reach env fs0 w" and "dir (fs w) n \<noteq> dir fs0 n \<or> n \<in> fst ` set (stored w)"
  shows "n \<noteq> [] \<and> CHR ''/'' \<notin> set n \<and> n \<noteq> ''.'' \<and> n \<noteq> ''..'' \<and> \<not> has_control n"
  using port_reach_safe [OF assms(1)] assms(2) by (simp add: safe_changes_def safe_file_name_def)

theorem stored_names_safe_witness:
  "\<exists>w. port_run ex_port_env (send_verified 0 ''fp'' ''a'' 5 (pad32 [5]) @ [Choose 0, Rename 0]) (port_start one_file) = Some w \<and>
     ''a (1)'' \<in> fst ` set (stored w) \<and> CHR ''/'' \<notin> set ''a (1)''"
proof -
  obtain w where w: "port_run ex_port_env (send_verified 0 ''fp'' ''a'' 5 (pad32 [5]) @ [Choose 0, Rename 0]) (port_start one_file) = Some w"
    "stored w = [(''a (1)'', [5], pad32 [5])]"
    using taken_name_run by blast
  with stored_names_safe [OF port_run_reach [OF port_begin w(1)], of "''a (1)''"] show ?thesis by simp
qed

end
