(* ===== verification/ClipboardSync.thy ===== *)
theory ClipboardSync
  imports Server Session "HOL-Library.Sublist"
begin

text \<open>
  The clipboard thread of the client (\<^verbatim>\<open>client/src/clipboard.rs\<close>, \<open>spawn_with\<close>) and the two threads
  together: the watcher of \<^verbatim>\<open>server/src/server.rs\<close>, the queue of one client, the session loop that
  delivers to the client's thread, and the way back. What the users copy is an event of the model.
\<close>

section \<open>The client's thread\<close>

datatype clip_thread = Watching "string option" | Stopped

text \<open>The thread and what is reported to the session: whether the clipboard could be opened.\<close>

definition spawn_with :: "bool \<Rightarrow> clip_thread \<times> bool" where
  "spawn_with opened = (if opened then (Watching None, True) else (Stopped, False))"

text \<open>
  One turn of the loop. \<open>sender_gone\<close>: the session has dropped its end of \<open>incoming\<close>, which shows after
  the texts in it; \<open>receiver_gone\<close>: it has dropped the other end of \<open>outgoing\<close>.
\<close>

fun clip_thread_round ::
    "(string \<Rightarrow> bool) \<Rightarrow> bool \<Rightarrow> bool \<Rightarrow> string list \<Rightarrow> clip_thread \<Rightarrow> string option \<Rightarrow>
     clip_thread \<times> string option \<times> string list" where
  "clip_thread_round set_ok sender_gone receiver_gone incoming Stopped board = (Stopped, board, [])"
| "clip_thread_round set_ok sender_gone receiver_gone incoming (Watching last_seen0) board0 =
     (case apply_incoming set_ok incoming last_seen0 board0 of
        (last_seen, board) \<Rightarrow>
          if sender_gone then (Stopped, board, [])
          else
            (case board of
               None \<Rightarrow> (Watching last_seen, board, [])
             | Some text \<Rightarrow>
                 if text \<noteq> [] \<and> length text \<le> CLIENT_MAX_CLIPBOARD_BYTES \<and> last_seen \<noteq> Some text
                 then (if receiver_gone then (Stopped, board, []) else (Watching (Some text), board, [text]))
                 else (Watching last_seen, board, [])))"

section \<open>Both sides\<close>

record mirror_env =
  me_cid :: u64
  me_platform :: platform
  me_ser :: "envelope \<Rightarrow> bytes option"
  me_now :: u64
  me_server_set :: "string \<Rightarrow> bool"
  me_client_set :: "string \<Rightarrow> bool"

record mirror =
  mi_server :: server_state
  mi_watcher :: "string \<times> string option"
  mi_session :: session_state
  mi_thread :: clip_thread
  mi_board :: "string option"
  mi_out :: "string list"

datatype mirror_event =
    ServerCopies string
  | ClientCopies string
  | ServerPoll
  | ClientPoll
  | Deliver
  | Upload

fun mirror_step :: "mirror_env \<Rightarrow> mirror_event \<Rightarrow> mirror \<Rightarrow> mirror" where
  "mirror_step env (ServerCopies text) w = w\<lparr>mi_watcher := (fst (mi_watcher w), Some text)\<rparr>"
| "mirror_step env (ClientCopies text) w = w\<lparr>mi_board := Some text\<rparr>"
| "mirror_step env ServerPoll w =
     (case clipboard_round (me_server_set env) (mi_watcher w) (mi_server w) of
        (wb, s) \<Rightarrow> w\<lparr>mi_watcher := wb, mi_server := s\<rparr>)"
| "mirror_step env ClientPoll w =
     (let gone = ss_end (mi_session w) \<noteq> Running in
      case clip_thread_round (me_client_set env) gone gone (clip_in (mi_session w)) (mi_thread w) (mi_board w) of
        (th, board, sent) \<Rightarrow>
          w\<lparr>mi_thread := th, mi_board := board, mi_out := mi_out w @ sent,
            mi_session := (mi_session w)\<lparr>clip_in := []\<rparr>\<rparr>)"
| "mirror_step env Deliver w =
     (case outbox (mi_server w) (me_cid env) of
        [] \<Rightarrow> w
      | e # es \<Rightarrow>
          if ss_end (mi_session w) \<noteq> Running then w
          else w\<lparr>mi_server := (mi_server w)\<lparr>outbox := (outbox (mi_server w))(me_cid env := es)\<rparr>,
                 mi_session := server_message (me_platform env) (me_ser env) (me_now env) e (mi_session w)\<rparr>)"
| "mirror_step env Upload w =
     (case mi_out w of
        [] \<Rightarrow> w
      | text # rest \<Rightarrow>
          w\<lparr>mi_out := rest, mi_server := snd (client_message (me_cid env) (ClipboardSet text) (mi_server w))\<rparr>)"

definition mirror_run :: "mirror_env \<Rightarrow> mirror_event list \<Rightarrow> mirror \<Rightarrow> mirror" where
  "mirror_run env es w = fold (mirror_step env) es w"

text \<open>
  The state in full: what the server's watcher last saw and what is on its clipboard, the texts on
  the way to it and in the client's queue, and the same of the client.
\<close>

definition holds ::
    "mirror_env \<Rightarrow> string \<Rightarrow> string \<Rightarrow> string list \<Rightarrow> string list \<Rightarrow> string option \<Rightarrow> string \<Rightarrow> string list \<Rightarrow> string list \<Rightarrow>
     mirror \<Rightarrow> bool" where
  "holds env s_seen s_board to_server queued c_seen c_board to_client sent w \<longleftrightarrow>
     mi_watcher w = (s_seen, Some s_board) \<and> clipboard_tx (mi_server w) = Some to_server \<and>
     outbox (mi_server w) (me_cid env) = map ClipboardSet queued \<and>
     mi_thread w = Watching c_seen \<and> mi_board w = Some c_board \<and> clip_in (mi_session w) = to_client \<and> mi_out w = sent \<and>
     clipboard_sync (config (mi_server w)) \<and> me_cid env \<in> set (registry (mi_server w)) \<and>
     ss_end (mi_session w) = Running"

definition in_step :: "mirror_env \<Rightarrow> string \<Rightarrow> mirror \<Rightarrow> bool" where
  "in_step env cur w \<longleftrightarrow> holds env cur cur [] [] (Some cur) cur [] [] w"

definition idle_events :: "mirror_event set" where
  "idle_events = {ServerPoll, ClientPoll, Deliver, Upload}"

section \<open>A message passed on in turns\<close>

text \<open>
  A state that goes through stages: in stage \<open>i\<close> the event \<open>turn i\<close> moves it on, every other event
  of \<open>events\<close> leaves it, and the last stage stays.
\<close>

locale relay =
  fixes step :: "'e \<Rightarrow> 's \<Rightarrow> 's" and events :: "'e set" and stage :: "nat \<Rightarrow> 's \<Rightarrow> bool"
    and turn :: "nat \<Rightarrow> 'e" and n :: nat
  assumes advance: "i < n \<Longrightarrow> stage i s \<Longrightarrow> stage (Suc i) (step (turn i) s)"
    and wait: "i < n \<Longrightarrow> stage i s \<Longrightarrow> e \<in> events \<Longrightarrow> e \<noteq> turn i \<Longrightarrow> stage i (step e s)"
    and settled: "stage n s \<Longrightarrow> e \<in> events \<Longrightarrow> stage n (step e s)"
begin

lemma stays: "set es \<subseteq> events \<Longrightarrow> stage n s \<Longrightarrow> stage n (fold step es s)"
  by (induction es arbitrary: s) (auto intro: settled)

lemma arrives:
  "set es \<subseteq> events \<Longrightarrow> i \<le> n \<Longrightarrow> stage i s \<Longrightarrow> subseq (map turn [i..<n]) es \<Longrightarrow> stage n (fold step es s)"
proof (induction es arbitrary: i s)
  case Nil
  then show ?case by (cases "i = n") auto
next
  case (Cons e es)
  show ?case
  proof (cases "i < n")
    case False
    with Cons.prems show ?thesis by (intro stays) auto
  next
    case True
    then have list: "map turn [i..<n] = turn i # map turn [Suc i..<n]" by (simp add: upt_conv_Cons)
    show ?thesis
    proof (cases "e = turn i")
      case e: True
      with Cons.prems(4) list have "subseq (map turn [Suc i..<n]) es" by simp
      with Cons.IH [of "Suc i" "step e s"] Cons.prems True e advance show ?thesis by simp
    next
      case e: False
      with Cons.prems(4) list have "subseq (map turn [i..<n]) es" by simp
      with Cons.IH [of i "step e s"] Cons.prems True e wait show ?thesis by simp
    qed
  qed
qed

end

section \<open>The steps of a copy\<close>

definition settable :: "mirror_env \<Rightarrow> bool" where
  "settable env \<longleftrightarrow> (\<forall>t. me_server_set env t) \<and> (\<forall>t. me_client_set env t)"

definition fits :: "string \<Rightarrow> bool" where
  "fits text \<longleftrightarrow> text \<noteq> [] \<and> length text \<le> 1024 * 1024"

lemmas mirror_eval = holds_def idle_events_def settable_def fits_def clipboard_round_def broadcast_def emit_def
  MAX_CLIPBOARD_BYTES_def CLIENT_MAX_CLIPBOARD_BYTES_def Let_def

definition client_stage :: "mirror_env \<Rightarrow> string \<Rightarrow> string \<Rightarrow> nat \<Rightarrow> mirror \<Rightarrow> bool" where
  "client_stage env cur text i w \<longleftrightarrow> settable env \<and> fits text \<and>
     (if i = 0 then cur \<noteq> text \<and> holds env cur cur [] [] (Some cur) text [] [] w
      else if i = 1 then cur \<noteq> text \<and> holds env cur cur [] [] (Some text) text [] [text] w
      else if i = 2 then cur \<noteq> text \<and> holds env cur cur [text] [] (Some text) text [] [] w
      else in_step env text w)"

definition client_turn :: "nat \<Rightarrow> mirror_event" where
  "client_turn i = [ClientPoll, Upload, ServerPoll] ! i"

definition server_stage :: "mirror_env \<Rightarrow> string \<Rightarrow> string \<Rightarrow> nat \<Rightarrow> mirror \<Rightarrow> bool" where
  "server_stage env cur text i w \<longleftrightarrow> settable env \<and> fits text \<and>
     (if i = 0 then cur \<noteq> text \<and> holds env cur text [] [] (Some cur) cur [] [] w
      else if i = 1 then cur \<noteq> text \<and> holds env text text [] [text] (Some cur) cur [] [] w
      else if i = 2 then cur \<noteq> text \<and> holds env text text [] [] (Some cur) cur [text] [] w
      else in_step env text w)"

definition server_turn :: "nat \<Rightarrow> mirror_event" where
  "server_turn i = [ServerPoll, Deliver, ClientPoll] ! i"

lemma less_3: "i < 3 \<longleftrightarrow> i = 0 \<or> i = 1 \<or> i = (2 :: nat)"
  by auto

interpretation client_copy: relay "mirror_step env" idle_events "client_stage env cur t" client_turn 3
  for env cur t
proof (unfold_locales, goal_cases)
  case (1 i s)
  then show ?case
    by (auto simp: less_3 client_stage_def client_turn_def in_step_def mirror_eval)
next
  case (2 i s e)
  then show ?case
    by (auto simp: less_3 client_stage_def client_turn_def in_step_def mirror_eval)
next
  case (3 s e)
  then show ?case
    by (auto simp: client_stage_def in_step_def mirror_eval)
qed

interpretation server_copy: relay "mirror_step env" idle_events "server_stage env cur t" server_turn 3
  for env cur t
proof (unfold_locales, goal_cases)
  case (1 i s)
  then show ?case
    by (auto simp: less_3 server_stage_def server_turn_def in_step_def mirror_eval)
next
  case (2 i s e)
  then show ?case
    by (auto simp: less_3 server_stage_def server_turn_def in_step_def mirror_eval)
next
  case (3 s e)
  then show ?case
    by (auto simp: server_stage_def in_step_def mirror_eval)
qed

text \<open>With nothing on the way, whatever the two sides hold stays, also when it is not the same.\<close>

definition swapped :: "mirror_env \<Rightarrow> string \<Rightarrow> string \<Rightarrow> mirror \<Rightarrow> bool" where
  "swapped env a b w \<longleftrightarrow> holds env a a [] [] (Some b) b [] [] w"

lemma swapped_stays:
  assumes "swapped env a b w" and "settable env" and "set es \<subseteq> idle_events"
  shows "swapped env a b (mirror_run env es w)"
  using assms(3,1) unfolding mirror_run_def
proof (induction es arbitrary: w)
  case (Cons e es)
  then have "swapped env a b (mirror_step env e w)"
    using assms(2) by (auto simp: swapped_def mirror_eval)
  with Cons show ?case by simp
qed simp

lemma in_step_stays:
  "in_step env cur w \<Longrightarrow> settable env \<Longrightarrow> set es \<subseteq> idle_events \<Longrightarrow> in_step env cur (mirror_run env es w)"
  using swapped_stays [of env cur cur w es] by (simp add: swapped_def in_step_def)

lemma client_copy_arrives:
  assumes "in_step env cur w" and "settable env" and "fits text" and "set es \<subseteq> idle_events"
    and "subseq [ClientPoll, Upload, ServerPoll] es"
  shows "in_step env text (mirror_run env es (mirror_step env (ClientCopies text) w))"
proof (cases "cur = text")
  case True
  with assms(1) have "in_step env text (mirror_step env (ClientCopies text) w)" by (simp add: in_step_def holds_def)
  then show ?thesis using assms(2,4) by (rule in_step_stays)
next
  case False
  with assms have "client_stage env cur text 0 (mirror_step env (ClientCopies text) w)"
    by (simp add: client_stage_def in_step_def holds_def)
  moreover have "map client_turn [0..<3] = [ClientPoll, Upload, ServerPoll]"
    by (simp add: upt_rec client_turn_def)
  ultimately have "client_stage env cur text 3 (fold (mirror_step env) es (mirror_step env (ClientCopies text) w))"
    using assms(4,5) by (intro client_copy.arrives [of es 0]) simp_all
  then show ?thesis by (simp add: client_stage_def mirror_run_def)
qed

lemma server_copy_arrives:
  assumes "in_step env cur w" and "settable env" and "fits text" and "set es \<subseteq> idle_events"
    and "subseq [ServerPoll, Deliver, ClientPoll] es"
  shows "in_step env text (mirror_run env es (mirror_step env (ServerCopies text) w))"
proof (cases "cur = text")
  case True
  with assms(1) have "in_step env text (mirror_step env (ServerCopies text) w)" by (simp add: in_step_def holds_def)
  then show ?thesis using assms(2,4) by (rule in_step_stays)
next
  case False
  with assms have "server_stage env cur text 0 (mirror_step env (ServerCopies text) w)"
    by (simp add: server_stage_def in_step_def holds_def)
  moreover have "map server_turn [0..<3] = [ServerPoll, Deliver, ClientPoll]"
    by (simp add: upt_rec server_turn_def)
  ultimately have "server_stage env cur text 3 (fold (mirror_step env) es (mirror_step env (ServerCopies text) w))"
    using assms(4,5) by (intro server_copy.arrives [of es 0]) simp_all
  then show ?thesis by (simp add: server_stage_def mirror_run_def)
qed

text \<open>Copies that cross: each side ends up with the text of the other.\<close>

definition crossing :: "string \<Rightarrow> string \<Rightarrow> mirror_event list" where
  "crossing a b = [ServerCopies a, ClientCopies b, ServerPoll, ClientPoll, Deliver, Upload, ServerPoll, ClientPoll]"

lemma crossing_swaps:
  assumes "in_step env cur w" and "settable env" and "fits a" and "fits b" and "a \<noteq> cur" and "b \<noteq> cur" and "a \<noteq> b"
  shows "swapped env b a (mirror_run env (crossing a b) w)"
  using assms by (simp add: crossing_def mirror_run_def in_step_def swapped_def mirror_eval)

text \<open>A thread that could not open the clipboard, or that has stopped, never sends or sets anything.\<close>

lemma stopped_thread_silent:
  "clip_thread_round set_ok sg rg incoming (fst (spawn_with False)) board = (Stopped, board, [])"
  by (simp add: spawn_with_def)

section \<open>Properties\<close>

definition ex_mirror_env :: mirror_env where
  "ex_mirror_env = \<lparr>me_cid = 1, me_platform = Linux, me_ser = bincode_ser, me_now = 0,
     me_server_set = (\<lambda>_. True), me_client_set = (\<lambda>_. True)\<rparr>"

definition ex_mirror :: "clip_thread \<Rightarrow> string \<Rightarrow> mirror" where
  "ex_mirror th board =
     \<lparr>mi_server = ex_server\<lparr>registry := [1], clipboard_tx := Some []\<rparr>, mi_watcher = (''old'', Some ''old''),
      mi_session = session_start \<lparr>si_host = [], si_server_name = [], si_fingerprint = [], si_file_port = 1,
        si_stream = \<lparr>rx = [], tx = [], tx_room = None\<rparr>\<rparr> 0 \<lparr>rx = [], tx = [], tx_room = None\<rparr>,
      mi_thread = th, mi_board = Some board, mi_out = []\<rparr>"

lemma ex_mirror_holds: "holds ex_mirror_env ''old'' ''old'' [] [] seen board [] [] (ex_mirror (Watching seen) board)"
  by (simp add: holds_def ex_mirror_def ex_mirror_env_def session_start_def ex_server_def server_config_default_def Let_def)

lemma ex_mirror_ok: "settable ex_mirror_env" "in_step ex_mirror_env ''old'' (ex_mirror (Watching (Some ''old'')) ''old'')"
  by (simp_all add: settable_def ex_mirror_env_def in_step_def ex_mirror_holds [unfolded ex_mirror_env_def])

text \<open>
  C14: the two clipboards come together. When both sides agree and nothing is under way, a text of at
  most 1 MiB that is copied on one side is on both after a poll of that side, the delivery and a poll
  of the other, with anything else the threads do in between, and then nothing more is sent.
\<close>

theorem clipboards_converge:
  assumes "in_step env cur w" and "settable env" and "fits t" and "set es \<subseteq> idle_events"
  shows "(subseq [ClientPoll, Upload, ServerPoll] es \<longrightarrow>
      in_step env t (mirror_run env es (mirror_step env (ClientCopies t) w))) \<and>
    (subseq [ServerPoll, Deliver, ClientPoll] es \<longrightarrow>
      in_step env t (mirror_run env es (mirror_step env (ServerCopies t) w)))"
  using client_copy_arrives [OF assms] server_copy_arrives [OF assms] by blast

theorem clipboards_converge_witness:
  "in_step ex_mirror_env ''new'' (mirror_run ex_mirror_env [Deliver, ClientPoll, ServerPoll, Upload, ClientPoll, ServerPoll]
     (mirror_step ex_mirror_env (ClientCopies ''new'') (ex_mirror (Watching (Some ''old'')) ''old'')))"
  using clipboards_converge [OF ex_mirror_ok(2,1), of "''new''" "[Deliver, ClientPoll, ServerPoll, Upload, ClientPoll, ServerPoll]"]
  by (simp add: fits_def idle_events_def)

text \<open>
  Copies that cross are swapped for good. When both users copy before either text has arrived,
  each side takes over the text of the other and marks it as seen: the clipboards differ, and no
  later poll or delivery brings them together.
\<close>

theorem crossed_copies_never_meet:
  assumes "in_step env cur w" and "settable env" and "fits a" and "fits b" and "a \<noteq> cur" and "b \<noteq> cur" and "a \<noteq> b"
    and "set es \<subseteq> idle_events"
  shows "snd (mi_watcher (mirror_run env (crossing a b @ es) w)) = Some b \<and>
    mi_board (mirror_run env (crossing a b @ es) w) = Some a"
proof -
  have "swapped env b a (mirror_run env es (mirror_run env (crossing a b) w))"
    using crossing_swaps [OF assms(1-7)] assms(2,8) by (rule swapped_stays)
  then show ?thesis by (simp add: swapped_def holds_def mirror_run_def)
qed

theorem crossed_copies_never_meet_witness:
  "mi_board (mirror_run ex_mirror_env (crossing ''a'' ''b'' @ replicate 9 ServerPoll)
     (ex_mirror (Watching (Some ''old'')) ''old'')) = Some ''a''"
  using crossed_copies_never_meet [OF ex_mirror_ok(2,1), of "''a''" "''b''" "replicate 9 ServerPoll"]
  by (simp add: fits_def idle_events_def)

text \<open>
  A new session replaces the clipboard of the server. The client's thread starts without a text
  last seen, so its first poll takes what has long been on the clipboard for a change and sends it.
\<close>

theorem connecting_sends_clipboard:
  assumes "holds env cur cur [] [] None old [] [] w" and "fst (spawn_with True) = mi_thread w"
    and "settable env" and "fits old" and "old \<noteq> cur"
  shows "in_step env old (mirror_run env [ClientPoll, Upload, ServerPoll] w)"
  using assms by (simp add: in_step_def mirror_run_def mirror_eval)

theorem connecting_sends_clipboard_witness:
  "in_step ex_mirror_env ''secret'' (mirror_run ex_mirror_env [ClientPoll, Upload, ServerPoll] (ex_mirror (Watching None) ''secret''))"
  by (rule connecting_sends_clipboard [OF ex_mirror_holds]) (simp_all add: spawn_with_def ex_mirror_def ex_mirror_ok fits_def)

end
