(* ===== verification/Tasks.thy ===== *)
theory Tasks
  imports Server "HOL-Library.While_Combinator"
begin

text \<open>
  The tasks of the server at the granularity at which they share state. In \<open>Server\<close> a task handles a
  message, registers or leaves in one step. In \<^verbatim>\<open>server/src/server.rs\<close> it takes the lock of the registry, the
  lock of the configuration or the atomic flag once per statement and lets go of it before the next,
  so that other tasks run in between. Here a task is the list of the accesses it still has to make;
  \<open>exec\<close> makes one and says which follow, and \<open>task_step\<close> interleaves the tasks access by access.

  \<open>uninterrupted\<close>: a task that runs on its own (\<open>run_alone\<close>) ends and does exactly what \<open>Server\<close> does in one step.
  \<open>Interleaving\<close> shows what holds under every interleaving, and what does not.
\<close>

section \<open>Accesses\<close>

datatype task = Conn u64 | Relay | Callback | Watcher | Acceptor

text \<open>
  The accesses in the order of the source: pairing, registration, the messages of a client,
  disconnection, the relay of captured events, the capture callback, the clipboard watcher.
\<close>

datatype access =
    AskLimiter handshake_env u64 ip_addr string bytes string bytes
  | AskPaired handshake_env u64 ip_addr string bytes string bytes
  | AddDevice handshake_env string string
  | CountFailure handshake_env ip_addr
  | Refuse u64
  | Join u64 string
  | AutoOn u64
  | SwapOn u64
  | DropPermit u64
  | LoadFlag bool
  | StoreFlag bool
  | Announce envelope
  | QueueOwn u64 envelope
  | AskSync string
  | PassClipboard string
  | Leave u64 string
  | AutoOff
  | SwapOff
  | CapLoad capture_env event_type
  | CapSend capture_event
  | ClipDrain "string \<Rightarrow> bool"
  | ClipRead

datatype conn = NoConn | Unpaired | Joined string | Refused | Left string

record tasks =
  shared :: server_state
  conn :: "u64 \<Rightarrow> conn"
  todo :: "task \<Rightarrow> access list"
  callback :: capture_state
  captured_q :: "capture_event list"
  board :: "string \<times> string option"
  permits :: nat
  clock :: millis

abbreviation on_shared :: "(server_state \<Rightarrow> server_state) \<Rightarrow> tasks \<Rightarrow> tasks" where
  "on_shared f w \<equiv> w\<lparr>shared := f (shared w)\<rparr>"

text \<open>One access, and the accesses its result leads to.\<close>

fun exec :: "access \<Rightarrow> tasks \<Rightarrow> tasks \<times> access list" where
  "exec (AskLimiter env cid ip name nonce fp pf) w =
     (w, if is_rate_limited (clock w) (rate_limiter (shared w)) ip then [Refuse cid]
         else [AskPaired env cid ip name nonce fp pf])"
| "exec (AskPaired env cid ip name nonce fp pf) w =
     (w, if is_paired (config (shared w)) fp then [Join cid fp]
         else if proof_matches (pairing_proof (he_sha env) (pin (shared w)) nonce fp) pf
         then [AddDevice env name fp, Join cid fp]
         else [CountFailure env ip, Refuse cid])"
| "exec (AddDevice env name fp) w = (on_shared (accept_new_device env fp name) w, [])"
| "exec (CountFailure env ip) w =
     (on_shared (\<lambda>s. s\<lparr>rate_limiter := record_pairing_failure (clock w) (rate_limiter s) ip\<rparr>) w, [])"
| "exec (Refuse cid) w = (w\<lparr>conn := (conn w)(cid := Refused), permits := permits w - 1\<rparr>, [])"
| "exec (Join cid fp) w =
     (let map = List.insert cid (registry (shared w))
      in (on_shared (\<lambda>s. s\<lparr>registry := map\<rparr>) (w\<lparr>conn := (conn w)(cid := Joined fp)\<rparr>),
          (if length map = 1 then [AutoOn cid] else []) @ [DropPermit cid]))"
| "exec (AutoOn cid) w = (w, if auto_forward (config (shared w)) then [SwapOn cid] else [])"
| "exec (SwapOn cid) w =
     (on_shared (\<lambda>s. s\<lparr>forwarding_enabled := True\<rparr>) w,
      if \<not> forwarding_enabled (shared w) then [QueueOwn cid (ToggleForward True)] else [])"
| "exec (DropPermit cid) w = (w\<lparr>permits := permits w - 1\<rparr>, [])"
| "exec (LoadFlag desired) w =
     (w, if desired \<noteq> forwarding_enabled (shared w)
         then [StoreFlag desired] @ (if \<not> desired then [Announce (Input ReleaseAll)] else []) @
           [Announce (ToggleForward desired)]
         else [])"
| "exec (StoreFlag b) w = (on_shared (\<lambda>s. s\<lparr>forwarding_enabled := b\<rparr>) w, [])"
| "exec (Announce e) w = (on_shared (broadcast e) w, [])"
| "exec (QueueOwn cid e) w = (on_shared (queue_to cid e) w, [])"
| "exec (AskSync text) w =
     (w, if clipboard_sync (config (shared w)) \<and> length text \<le> MAX_CLIPBOARD_BYTES
         then [PassClipboard text] else [])"
| "exec (PassClipboard text) w =
     (on_shared (\<lambda>s. case clipboard_tx s of None \<Rightarrow> s | Some q \<Rightarrow> s\<lparr>clipboard_tx := Some (q @ [text])\<rparr>) w, [])"
| "exec (Leave cid fp) w =
     (let map = removeAll cid (registry (shared w))
      in (on_shared (\<lambda>s. s\<lparr>registry := map\<rparr>) (w\<lparr>conn := (conn w)(cid := Left fp)\<rparr>),
          (if map = [] then [AutoOff] else []) @ [QueueOwn cid Goodbye]))"
| "exec AutoOff w = (w, if auto_forward (config (shared w)) then [SwapOff] else [])"
| "exec SwapOff w = (on_shared (\<lambda>s. s\<lparr>forwarding_enabled := False\<rparr>) w, [])"
| "exec (CapLoad env ev) w =
     (case process_event env ev (set_enabled (forwarding_enabled (shared w)) (callback w)) of
        (oc, cs) \<Rightarrow>
          (w\<lparr>callback := cs\<rparr>,
           (case toggled oc of None \<Rightarrow> [] | Some t \<Rightarrow> [StoreFlag t]) @ map CapSend (dispatch oc)))"
| "exec (CapSend m) w = (w\<lparr>captured_q := captured_q w @ [m]\<rparr>, [])"
| "exec (ClipDrain set_ok) w =
     (case clipboard_tx (shared w) of
        Some (text # q) \<Rightarrow>
          (on_shared (\<lambda>s. s\<lparr>clipboard_tx := Some q\<rparr>)
            (w\<lparr>board := apply_clipboard set_ok [text] (fst (board w)) (snd (board w))\<rparr>), [ClipDrain set_ok])
      | _ \<Rightarrow> (w, [ClipRead]))"
| "exec ClipRead w =
     (case board w of (last_seen, Some current) \<Rightarrow>
          if current \<noteq> last_seen \<and> current \<noteq> [] \<and> length current \<le> MAX_CLIPBOARD_BYTES
          then (w\<lparr>board := (current, Some current)\<rparr>, [Announce (ClipboardSet current)]) else (w, [])
      | _ \<Rightarrow> (w, []))"

section \<open>What the tasks do\<close>

fun message_accesses :: "u64 \<Rightarrow> string \<Rightarrow> envelope \<Rightarrow> access list" where
  "message_accesses cid fp Goodbye = [Leave cid fp]"
| "message_accesses cid fp (Ping ts) = [QueueOwn cid (Pong ts)]"
| "message_accesses cid fp (ToggleForward desired) = [LoadFlag desired]"
| "message_accesses cid fp (ClipboardSet text) = [AskSync text]"
| "message_accesses cid fp _ = []"

fun relay_accesses :: "capture_event \<Rightarrow> access list" where
  "relay_accesses (CapInput ev) = [Announce (Input ev)]"
| "relay_accesses (ForwardingToggled new_state) =
     (if \<not> new_state then [Announce (Input ReleaseAll)] else []) @ [Announce (ToggleForward new_state)]"

definition run_task :: "task \<Rightarrow> tasks \<Rightarrow> tasks" where
  "run_task t w =
     (case todo w t of
        [] \<Rightarrow> w
      | a # rest \<Rightarrow> (case exec a w of (w', next) \<Rightarrow> w'\<lparr>todo := (todo w)(t := next @ rest)\<rparr>))"

definition begin_task :: "task \<Rightarrow> access list \<Rightarrow> tasks \<Rightarrow> tasks" where
  "begin_task t as w = w\<lparr>todo := (todo w)(t := as)\<rparr>"

text \<open>
  A task that has nothing left to do waits for its next event. The permit of the semaphore that \<open>accepted\<close> takes is
  returned when the connection is refused or given up, or by \<open>DropPermit\<close> after it was registered. The
  limiter is asked and told at the time on the clock; where it matters that the clock does not go back, this is said. A connection is given up before it
  is paired when a read fails or runs into its deadline, or when \<open>PairAccept\<close> cannot be written.
\<close>

inductive task_step :: "tasks \<Rightarrow> tasks \<Rightarrow> bool" where
  accepted:
    "conn w cid = NoConn \<Longrightarrow> permits w < MAX_PENDING_CONNECTIONS \<Longrightarrow>
     task_step w (w\<lparr>conn := (conn w)(cid := Unpaired), permits := permits w + 1\<rparr>)"
| pair_request:
    "conn w cid = Unpaired \<Longrightarrow> todo w (Conn cid) = [] \<Longrightarrow>
     task_step w (begin_task (Conn cid) [AskLimiter env cid ip name nonce fp pf] w)"
| given_up:
    "conn w cid = Unpaired \<Longrightarrow> todo w (Conn cid) = [] \<or> (\<exists>fp. todo w (Conn cid) = [Join cid fp]) \<Longrightarrow>
     task_step w (begin_task (Conn cid) [] (w\<lparr>conn := (conn w)(cid := Refused), permits := permits w - 1\<rparr>))"
| received:
    "conn w cid = Joined fp \<Longrightarrow> todo w (Conn cid) = [] \<Longrightarrow>
     task_step w (begin_task (Conn cid) (message_accesses cid fp e) w)"
| ping_due:
    "conn w cid = Joined fp \<Longrightarrow> todo w (Conn cid) = [] \<Longrightarrow>
     task_step w (begin_task (Conn cid) [QueueOwn cid (Ping ts)] w)"
| hung_up:
    "conn w cid = Joined fp \<Longrightarrow> todo w (Conn cid) = [] \<Longrightarrow>
     task_step w (begin_task (Conn cid) [Leave cid fp] w)"
| relayed:
    "captured_q w = m # ms \<Longrightarrow> todo w Relay = [] \<Longrightarrow>
     task_step w (begin_task Relay (relay_accesses m) (w\<lparr>captured_q := ms\<rparr>))"
| input_event:
    "todo w Callback = [] \<Longrightarrow> task_step w (begin_task Callback [CapLoad env ev] w)"
| poll_due:
    "clipboard_tx (shared w) \<noteq> None \<Longrightarrow> todo w Watcher = [] \<Longrightarrow>
     task_step w (begin_task Watcher [ClipDrain set_ok] w)"
| copied:
    "task_step w (w\<lparr>board := (fst (board w), text)\<rparr>)"
| time_passes:
    "task_step w (w\<lparr>clock := now\<rparr>)"
| interrupted:
    "todo w Acceptor = [] \<Longrightarrow> task_step w (begin_task Acceptor [Announce Goodbye] w)"
| access:
    "todo w t \<noteq> [] \<Longrightarrow> task_step w (run_task t w)"

inductive task_reach :: "tasks \<Rightarrow> tasks \<Rightarrow> bool" for w0 where
  start: "task_reach w0 w0"
| step: "task_reach w0 w \<Longrightarrow> task_step w w' \<Longrightarrow> task_reach w0 w'"

inductive_cases task_stepE: "task_step w w'"

fun conn_of :: "conn_phase \<Rightarrow> conn" where
  "conn_of Unused = NoConn"
| "conn_of Pending = Unpaired"
| "conn_of (Active name fp seen) = Joined fp"
| "conn_of Rejected = Refused"
| "conn_of (Gone fp) = Left fp"

text \<open>A state of \<open>Server\<close>, in which no task is in the middle of anything.\<close>

definition at_rest :: "world \<Rightarrow> tasks" where
  "at_rest w =
     \<lparr>shared = sst w, conn = (\<lambda>cid. conn_of (phase w cid)), todo = (\<lambda>_. []), callback = capture w,
      captured_q = capture_q w, board = watcher w, permits = permits_used w, clock = 0\<rparr>"

abbreviation tasks_init :: "server_config \<Rightarrow> file_state \<Rightarrow> u16 \<Rightarrow> string \<Rightarrow> string option option \<Rightarrow> tasks" where
  "tasks_init cfg file port p text \<equiv> at_rest (world_init cfg file port p text)"

section \<open>Uninterrupted tasks\<close>

lemma task_reach_trans: "task_reach w v \<Longrightarrow> task_reach u w \<Longrightarrow> task_reach u v"
  by (induction rule: task_reach.induct) (auto intro: task_reach.step)

lemma task_reach_step: "task_step w v \<Longrightarrow> task_reach v u \<Longrightarrow> task_reach w u"
  by (rule task_reach_trans) (auto intro: task_reach.intros)

lemma task_reach_run: "task_reach w (run_task t w)"
proof (cases "todo w t = []")
  case True
  then show ?thesis by (simp add: run_task_def task_reach.start)
next
  case False
  then show ?thesis by (meson task_reach.intros task_step.access)
qed

lemma task_reach_runs: "task_reach w ((run_task t ^^ n) w)"
  by (induction n) (auto intro: task_reach.intros task_reach_run task_reach_trans)

lemma begin_then_runs:
  "task_step w (begin_task t as v) \<Longrightarrow> (run_task t ^^ n) (begin_task t as v) = u \<Longrightarrow> task_reach w u"
  using task_reach_step task_reach_runs by blast

lemma run_task_simps [simp]:
  "todo w t = [] \<Longrightarrow> run_task t w = w"
  "todo w t = a # rest \<Longrightarrow> run_task t w = (fst (exec a w))\<lparr>todo := (todo w)(t := snd (exec a w) @ rest)\<rparr>"
  by (simp_all add: run_task_def split: prod.split)

lemma begin_task_simps [simp]:
  "todo (begin_task t as w) = (todo w)(t := as)" "shared (begin_task t as w) = shared w"
  "conn (begin_task t as w) = conn w" "captured_q (begin_task t as w) = captured_q w"
  "callback (begin_task t as w) = callback w" "board (begin_task t as w) = board w"
  "permits (begin_task t as w) = permits w" "clock (begin_task t as w) = clock w"
  by (simp_all add: begin_task_def)

lemma at_rest_simps [simp]:
  "shared (at_rest w) = sst w" "conn (at_rest w) cid = conn_of (phase w cid)" "todo (at_rest w) t = []"
  "callback (at_rest w) = capture w" "captured_q (at_rest w) = capture_q w" "board (at_rest w) = watcher w"
  "permits (at_rest w) = permits_used w" "clock (at_rest w) = 0"
  by (simp_all add: at_rest_def)

text \<open>The watcher takes one text after the other from its channel.\<close>

lemma drain_runs:
  "clipboard_tx (shared w) = Some q \<Longrightarrow> todo w Watcher = [ClipDrain ok] \<Longrightarrow>
   \<exists>n. (run_task Watcher ^^ n) w = w\<lparr>shared := (shared w)\<lparr>clipboard_tx := Some []\<rparr>,
     board := apply_clipboard ok q (fst (board w)) (snd (board w)),
     todo := (todo w)(Watcher := [ClipRead])\<rparr>"
proof (induction q arbitrary: w)
  case Nil
  then have "(shared w)\<lparr>clipboard_tx := Some []\<rparr> = shared w" by (cases "shared w") simp
  with Nil show ?case by (intro exI [of _ 1] tasks.equality) (simp_all add: fun_eq_iff)
next
  case (Cons x q)
  define v where "v = run_task Watcher w"
  have v: "shared v = (shared w)\<lparr>clipboard_tx := Some q\<rparr>" "todo v = (todo w)(Watcher := [ClipDrain ok])"
    "board v = apply_clipboard ok [x] (fst (board w)) (snd (board w))"
    "conn v = conn w" "callback v = callback w" "captured_q v = captured_q w" "permits v = permits w" "clock v = clock w"
    using Cons.prems by (simp_all add: v_def)
  then have "apply_clipboard ok q (fst (board v)) (snd (board v)) =
      apply_clipboard ok (x # q) (fst (board w)) (snd (board w))"
    by simp
  then have eq: "v\<lparr>shared := (shared v)\<lparr>clipboard_tx := Some []\<rparr>,
     board := apply_clipboard ok q (fst (board v)) (snd (board v)),
     todo := (todo v)(Watcher := [ClipRead])\<rparr> =
   w\<lparr>shared := (shared w)\<lparr>clipboard_tx := Some []\<rparr>,
     board := apply_clipboard ok (x # q) (fst (board w)) (snd (board w)),
     todo := (todo w)(Watcher := [ClipRead])\<rparr>"
    by (intro tasks.equality) (simp_all add: v(1,2,4-))
  have "clipboard_tx (shared v) = Some q" "todo v Watcher = [ClipDrain ok]" by (simp_all add: v(1,2))
  from Cons.IH [OF this, unfolded eq] obtain n where "(run_task Watcher ^^ n) v = w\<lparr>shared := (shared w)\<lparr>clipboard_tx := Some []\<rparr>,
     board := apply_clipboard ok (x # q) (fst (board w)) (snd (board w)),
     todo := (todo w)(Watcher := [ClipRead])\<rparr>" ..
  then show ?case by (intro exI [of _ "Suc n"]) (simp only: v_def funpow_Suc_right comp_apply)
qed

lemma clip_read_runs:
  assumes "todo w Watcher = [ClipRead]"
  shows "(run_task Watcher ^^ 2) w = w\<lparr>todo := (todo w)(Watcher := []),
    board := (case board w of (l, Some c) \<Rightarrow>
        if c \<noteq> l \<and> c \<noteq> [] \<and> length c \<le> MAX_CLIPBOARD_BYTES then (c, Some c) else (l, Some c)
      | b \<Rightarrow> b),
    shared := (case board w of (l, Some c) \<Rightarrow>
        if c \<noteq> l \<and> c \<noteq> [] \<and> length c \<le> MAX_CLIPBOARD_BYTES then broadcast (ClipboardSet c) (shared w) else shared w
      | b \<Rightarrow> shared w)\<rparr>"
  using assms by (auto simp: numeral_2_eq_2 split: prod.splits option.splits)

lemma poll_runs:
  assumes "todo w Watcher = [ClipDrain ok]"
  shows "\<exists>n. (run_task Watcher ^^ n) w = (case clipboard_round ok (board w) (shared w) of (wb, s) \<Rightarrow>
    w\<lparr>board := wb, shared := s, todo := (todo w)(Watcher := [])\<rparr>)"
proof -
  let ?q = "case clipboard_tx (shared w) of None \<Rightarrow> [] | Some q \<Rightarrow> q"
  let ?u = "w\<lparr>shared := (shared w)\<lparr>clipboard_tx := map_option (\<lambda>_. []) (clipboard_tx (shared w))\<rparr>,
     board := apply_clipboard ok ?q (fst (board w)) (snd (board w)), todo := (todo w)(Watcher := [ClipRead])\<rparr>"
  have "\<exists>n. (run_task Watcher ^^ n) w = ?u"
  proof (cases "clipboard_tx (shared w)")
    case None
    then have "(shared w)\<lparr>clipboard_tx := None\<rparr> = shared w" by (cases "shared w") simp
    with None assms show ?thesis by (intro exI [of _ 1] tasks.equality) simp_all
  next
    case (Some q)
    with drain_runs [OF Some assms] show ?thesis by simp
  qed
  then obtain n where n: "(run_task Watcher ^^ n) w = ?u" ..
  have "(run_task Watcher ^^ 2) ?u = (case clipboard_round ok (board w) (shared w) of (wb, s) \<Rightarrow>
      w\<lparr>board := wb, shared := s, todo := (todo w)(Watcher := [])\<rparr>)"
    by (subst clip_read_runs) (auto simp: clipboard_round_def Let_def split: prod.splits option.splits)
  with n have "(run_task Watcher ^^ (2 + n)) w = (case clipboard_round ok (board w) (shared w) of (wb, s) \<Rightarrow>
      w\<lparr>board := wb, shared := s, todo := (todo w)(Watcher := [])\<rparr>)"
    by (simp add: funpow_add del: add_2_eq_Suc)
  then show ?thesis ..
qed

lemma poll_reach:
  assumes "clipboard_round ok (watcher w) (sst w) = (wb, s)" and "clipboard_tx (sst w) \<noteq> None"
  shows "task_reach (at_rest w) (at_rest (w\<lparr>watcher := wb, sst := s\<rparr>))"
proof -
  let ?v = "begin_task Watcher [ClipDrain ok] (at_rest w)"
  obtain n where "(run_task Watcher ^^ n) ?v = at_rest (w\<lparr>watcher := wb, sst := s\<rparr>)"
    using poll_runs [of ?v ok] assms(1) by (auto simp: begin_task_def at_rest_def fun_upd_idem)
  moreover have "task_step (at_rest w) ?v" using assms(2) by (intro task_step.poll_due) simp_all
  ultimately show ?thesis using begin_then_runs by blast
qed

lemma four_times: "(f ^^ 4) x = f (f (f (f x)))"
  by (simp add: eval_nat_numeral)

lemma five_times: "(f ^^ 5) x = f (f (f (f (f x))))"
  by (simp add: eval_nat_numeral)

lemma join_runs:
  assumes "todo w (Conn cid) = [Join cid fp]"
  shows "(run_task (Conn cid) ^^ 5) w = w\<lparr>shared := register_client cid (shared w),
    conn := (conn w)(cid := Joined fp), todo := (todo w)(Conn cid := []), permits := permits w - 1\<rparr>"
  using assms
  by (cases "length (List.insert cid (registry (shared w))) = 1"; cases "auto_forward (config (shared w))";
      cases "forwarding_enabled (shared w)")
    (simp_all add: five_times Let_def register_client_def)

lemma leave_runs:
  assumes "todo w (Conn cid) = [Leave cid fp]"
  shows "(run_task (Conn cid) ^^ 4) w = w\<lparr>shared := disconnect_client cid (shared w),
    conn := (conn w)(cid := Left fp), todo := (todo w)(Conn cid := [])\<rparr>"
  using assms
  by (cases "removeAll cid (registry (shared w)) = []"; cases "auto_forward (config (shared w))")
    (simp_all add: four_times Let_def disconnect_client_def)

lemma message_runs:
  assumes "todo w (Conn cid) = message_accesses cid fp e" and "client_message cid e (shared w) = (True, s)"
  shows "(run_task (Conn cid) ^^ 4) w = w\<lparr>shared := s, todo := (todo w)(Conn cid := [])\<rparr>"
  using assms
  by (cases e) (auto simp: four_times set_forwarding_def Let_def fun_upd_idem split: option.splits)

lemma relay_runs:
  assumes "todo w Relay = relay_accesses m"
  shows "(run_task Relay ^^ 2) w = w\<lparr>shared := forward_event m (shared w), todo := (todo w)(Relay := [])\<rparr>"
  using assms by (cases m) (auto simp: eval_nat_numeral)

lemma callback_runs:
  assumes "todo w Callback = [CapLoad env ev]"
    and "process_event env ev (set_enabled (forwarding_enabled (shared w)) (callback w)) = (oc, cs)"
  shows "(run_task Callback ^^ 4) w = w\<lparr>callback := cs, captured_q := captured_q w @ dispatch oc,
    shared := (shared w)\<lparr>forwarding_enabled := is_enabled cs\<rparr>, todo := (todo w)(Callback := [])\<rparr>"
proof -
  have flag: "is_enabled cs = (case toggled oc of None \<Rightarrow> forwarding_enabled (shared w) | Some t \<Rightarrow> t)"
    using process_event_enabled(1) [OF assms(2)]
    by (simp add: is_enabled_def set_enabled_def split: option.splits)
  show ?thesis
    using assms flag
    by (cases "toggled oc"; cases "process_outcome.forward oc") (simp_all add: four_times dispatch_def)
qed

lemma pairing_runs:
  assumes "todo w (Conn cid) = [AskLimiter env cid ip name nonce fp pf]"
    and "\<not> is_rate_limited (clock w) (rate_limiter (shared w)) ip"
  shows "is_paired (config (shared w)) fp \<Longrightarrow>
      (run_task (Conn cid) ^^ 2) w = w\<lparr>todo := (todo w)(Conn cid := [Join cid fp])\<rparr>"
    and "\<not> is_paired (config (shared w)) fp \<Longrightarrow>
      proof_matches (pairing_proof (he_sha env) (pin (shared w)) nonce fp) pf \<Longrightarrow>
      (run_task (Conn cid) ^^ 3) w =
        w\<lparr>shared := accept_new_device env fp name (shared w), todo := (todo w)(Conn cid := [Join cid fp])\<rparr>"
    and "\<not> is_paired (config (shared w)) fp \<Longrightarrow>
      \<not> proof_matches (pairing_proof (he_sha env) (pin (shared w)) nonce fp) pf \<Longrightarrow>
      (run_task (Conn cid) ^^ 4) w = w\<lparr>shared := (shared w)\<lparr>rate_limiter :=
          record_pairing_failure (clock w) (rate_limiter (shared w)) ip\<rparr>,
        conn := (conn w)(cid := Refused), todo := (todo w)(Conn cid := []), permits := permits w - 1\<rparr>"
  using assms by (simp_all add: eval_nat_numeral)

text \<open>A pairing at some time on the clock, from a state at rest to one.\<close>

lemma pairing_at_time:
  assumes "phase w cid = Pending"
    and "(run_task (Conn cid) ^^ n)
      (begin_task (Conn cid) [AskLimiter env cid ip name nonce fp pf] ((at_rest w)\<lparr>clock := now\<rparr>)) = v"
  shows "task_reach (at_rest w) (v\<lparr>clock := 0\<rparr>)"
proof -
  let ?u = "(at_rest w)\<lparr>clock := now\<rparr>"
  have "task_step (at_rest w) ?u" by (rule task_step.time_passes)
  moreover have "task_step ?u (begin_task (Conn cid) [AskLimiter env cid ip name nonce fp pf] ?u)"
    using assms(1) by (intro task_step.pair_request) simp_all
  then have "task_reach ?u v" using begin_then_runs assms(2) by blast
  then have "task_reach ?u (v\<lparr>clock := 0\<rparr>)" by (rule task_reach.step) (rule task_step.time_passes)
  ultimately show ?thesis by (rule task_reach_step)
qed

text \<open>Pairing from a state at rest, up to the point where the connection is registered or refused.\<close>

abbreviation about_to_join :: "u64 \<Rightarrow> string \<Rightarrow> server_state \<Rightarrow> world \<Rightarrow> tasks" where
  "about_to_join cid fp s w \<equiv> (at_rest w)\<lparr>shared := s, todo := (\<lambda>_. [])(Conn cid := [Join cid fp])\<rparr>"

abbreviation refused_at_rest :: "u64 \<Rightarrow> server_state \<Rightarrow> world \<Rightarrow> tasks" where
  "refused_at_rest cid s w \<equiv>
     at_rest (w\<lparr>sst := s, phase := (phase w)(cid := Rejected), permits_used := permits_used w - 1\<rparr>)"

lemma pairing_reach:
  assumes "phase w cid = Pending" and "\<not> is_rate_limited (he_now env) (rate_limiter (sst w)) ip"
  shows "is_paired (config (sst w)) fp \<Longrightarrow> task_reach (at_rest w) (about_to_join cid fp (sst w) w)"
    and "\<not> is_paired (config (sst w)) fp \<Longrightarrow>
      proof_matches (pairing_proof (he_sha env) (pin (sst w)) nonce fp) pf \<Longrightarrow>
      task_reach (at_rest w) (about_to_join cid fp (accept_new_device env fp name (sst w)) w)"
    and "\<not> is_paired (config (sst w)) fp \<Longrightarrow>
      \<not> proof_matches (pairing_proof (he_sha env) (pin (sst w)) nonce fp) pf \<Longrightarrow>
      task_reach (at_rest w) (refused_at_rest cid ((sst w)\<lparr>rate_limiter :=
        record_pairing_failure (he_now env) (rate_limiter (sst w)) ip\<rparr>) w)"
proof -
  let ?v = "begin_task (Conn cid) [AskLimiter env cid ip name nonce fp pf] ((at_rest w)\<lparr>clock := he_now env\<rparr>)"
  note runs = pairing_runs [where w = ?v and cid = cid and env = env and ip = ip and name = name
      and nonce = nonce and fp = fp and pf = pf, simplified, OF assms(2)]
  note reach = pairing_at_time [OF assms(1), where now = "he_now env" and env = env and ip = ip and name = name
      and nonce = nonce and fp = fp and pf = pf]
  show "is_paired (config (sst w)) fp \<Longrightarrow> task_reach (at_rest w) (about_to_join cid fp (sst w) w)"
    using reach [OF runs(1)] by (simp add: begin_task_def at_rest_def)
  show "\<not> is_paired (config (sst w)) fp \<Longrightarrow>
      proof_matches (pairing_proof (he_sha env) (pin (sst w)) nonce fp) pf \<Longrightarrow>
      task_reach (at_rest w) (about_to_join cid fp (accept_new_device env fp name (sst w)) w)"
    using reach [OF runs(2)] by (simp add: begin_task_def at_rest_def)
  have conns: "(\<lambda>c. conn_of (if c = cid then Rejected else phase w c)) = (\<lambda>c. conn_of (phase w c))(cid := Refused)"
    by (simp add: fun_eq_iff)
  show "\<not> is_paired (config (sst w)) fp \<Longrightarrow>
      \<not> proof_matches (pairing_proof (he_sha env) (pin (sst w)) nonce fp) pf \<Longrightarrow>
      task_reach (at_rest w) (refused_at_rest cid ((sst w)\<lparr>rate_limiter :=
        record_pairing_failure (he_now env) (rate_limiter (sst w)) ip\<rparr>) w)"
    using reach [OF runs(3)] by (simp add: begin_task_def at_rest_def fun_upd_idem conns)
qed

lemma joined_reach:
  "task_reach (about_to_join cid fp s w) (at_rest (w\<lparr>sst := register_client cid s,
    phase := (phase w)(cid := Active name fp now), permits_used := permits_used w - 1\<rparr>))"
proof -
  have "(run_task (Conn cid) ^^ 5) (about_to_join cid fp s w) = at_rest (w\<lparr>sst := register_client cid s,
    phase := (phase w)(cid := Active name fp now), permits_used := permits_used w - 1\<rparr>)"
    by (subst join_runs) (simp_all add: at_rest_def fun_eq_iff)
  then show ?thesis using task_reach_runs by metis
qed

lemma handshake_ok_reach:
  assumes "phase w cid = Pending"
    and "handshake env ip \<lparr>srv = sst w, stream = str, stalls = b\<rparr> = (Inr (name, fp), c)"
  shows "task_reach (at_rest w) (at_rest (w\<lparr>sst := register_client cid (srv c),
    phase := (phase w)(cid := Active name fp now), permits_used := permits_used w - 1\<rparr>))"
proof -
  obtain c1 where c1: "srv c1 = sst w" and p: "pair_device env ip name c1 = (Inr fp, c)"
    using handshake_Inr [OF assms(2)] by auto
  from p have "task_reach (at_rest w) (about_to_join cid fp (srv c) w)"
    using pairing_reach(1,2) [OF assms(1)] c1 by (cases rule: pair_device_outcome) auto
  then show ?thesis by (rule task_reach_trans [OF joined_reach])
qed

lemma refused_reach:
  assumes "phase w cid = Pending"
  shows "task_reach (at_rest w) (refused_at_rest cid (sst w) w)"
    and "task_step (about_to_join cid fp s w) (refused_at_rest cid s w)"
proof -
  have st: "task_step v (refused_at_rest cid s w)"
    if v: "v = (at_rest w)\<lparr>shared := s, todo := (\<lambda>_. [])(Conn cid := as)\<rparr>" and as: "as = [] \<or> as = [Join cid fp]"
    for v s as
  proof -
    have "task_step v (begin_task (Conn cid) [] (v\<lparr>conn := (conn v)(cid := Refused), permits := permits v - 1\<rparr>))"
      using assms v as by (intro task_step.given_up) auto
    also have "begin_task (Conn cid) [] (v\<lparr>conn := (conn v)(cid := Refused), permits := permits v - 1\<rparr>) =
        refused_at_rest cid s w"
      using v by (simp add: begin_task_def at_rest_def fun_eq_iff)
    finally show ?thesis .
  qed
  show "task_step (about_to_join cid fp s w) (refused_at_rest cid s w)"
    by (rule st [OF refl]) simp
  show "task_reach (at_rest w) (refused_at_rest cid (sst w) w)"
    by (rule task_reach_step [OF st [where as = "[]"] task_reach.start]) (auto simp: at_rest_def fun_upd_idem)
qed

lemma handshake_failed_reach:
  assumes "phase w cid = Pending"
    and "handshake env ip \<lparr>srv = sst w, stream = str, stalls = b\<rparr> = (Inl e, c)"
  shows "task_reach (at_rest w) (refused_at_rest cid (srv c) w)"
proof (cases "srv c = sst w")
  case True
  then show ?thesis using refused_reach(1) [OF assms(1)] by simp
next
  case False
  then obtain c1 r1 name where c1: "srv c1 = sst w" and p: "pair_device env ip name c1 = (r1, c)"
    using handshake_srv [OF assms(2)] by auto
  from p show ?thesis
  proof (cases rule: pair_device_outcome)
    case unchanged
    with False c1 show ?thesis by simp
  next
    case (added nonce fp pf)
    with c1 have "task_reach (at_rest w) (about_to_join cid fp (srv c) w)"
      using pairing_reach(2) [OF assms(1)] by auto
    then show ?thesis by (rule task_reach.step) (rule refused_reach(2) [OF assms(1)])
  next
    case (failed nonce fp pf)
    with c1 show ?thesis
      using pairing_reach(3) [OF assms(1), of env ip fp nonce pf] by simp
  qed
qed

lemma left_reach:
  assumes "phase w cid = Active name fp seen"
    and "task_step (at_rest w) (begin_task (Conn cid) [Leave cid fp] (at_rest w))"
  shows "task_reach (at_rest w) (at_rest (close_client cid fp (sst w) w))"
proof -
  have "(run_task (Conn cid) ^^ 4) (begin_task (Conn cid) [Leave cid fp] (at_rest w)) =
      at_rest (close_client cid fp (sst w) w)"
    by (subst leave_runs) (simp_all add: close_client_def begin_task_def at_rest_def fun_eq_iff)
  with assms(2) show ?thesis by (rule begin_then_runs)
qed

lemma accepted_reach:
  assumes "phase w cid = Unused" and "permits_used w < MAX_PENDING_CONNECTIONS"
  shows "task_reach (at_rest w) (at_rest (w\<lparr>phase := (phase w)(cid := Pending), permits_used := permits_used w + 1\<rparr>))"
proof -
  let ?v = "(at_rest w)\<lparr>conn := (conn (at_rest w))(cid := Unpaired), permits := permits (at_rest w) + 1\<rparr>"
  have "task_step (at_rest w) ?v" using assms by (intro task_step.accepted) simp_all
  moreover have "?v = at_rest (w\<lparr>phase := (phase w)(cid := Pending), permits_used := permits_used w + 1\<rparr>)"
    by (simp add: at_rest_def fun_eq_iff)
  ultimately show ?thesis by (metis task_reach.intros)
qed

lemma message_reach:
  assumes "phase w cid = Active name fp seen" and "client_message cid e (sst w) = (True, s)"
  shows "task_reach (at_rest w) (at_rest (w\<lparr>sst := s, phase := (phase w)(cid := Active name fp now)\<rparr>))"
proof -
  let ?v = "begin_task (Conn cid) (message_accesses cid fp e) (at_rest w)"
  have "task_step (at_rest w) ?v" using assms by (intro task_step.received) simp_all
  moreover have "(run_task (Conn cid) ^^ 4) ?v =
      at_rest (w\<lparr>sst := s, phase := (phase w)(cid := Active name fp now)\<rparr>)"
    using assms by (subst message_runs) (auto simp: begin_task_def at_rest_def fun_eq_iff)
  ultimately show ?thesis by (rule begin_then_runs)
qed

lemma captured_reach:
  assumes "process_event env ev (set_enabled (forwarding_enabled (sst w)) (capture w)) = (oc, cs)"
  shows "task_reach (at_rest w) (at_rest (w\<lparr>capture := cs, capture_q := capture_q w @ dispatch oc,
    sst := (sst w)\<lparr>forwarding_enabled := is_enabled cs\<rparr>\<rparr>))"
proof -
  let ?v = "begin_task Callback [CapLoad env ev] (at_rest w)"
  have "task_step (at_rest w) ?v" by (intro task_step.input_event) simp_all
  moreover have "(run_task Callback ^^ 4) ?v = at_rest (w\<lparr>capture := cs, capture_q := capture_q w @ dispatch oc,
      sst := (sst w)\<lparr>forwarding_enabled := is_enabled cs\<rparr>\<rparr>)"
    using assms by (subst callback_runs) (auto simp: begin_task_def at_rest_def fun_eq_iff)
  ultimately show ?thesis by (rule begin_then_runs)
qed

lemma forwarded_reach:
  assumes "capture_q w = m # ms"
  shows "task_reach (at_rest w) (at_rest (w\<lparr>sst := forward_event m (sst w), capture_q := ms\<rparr>))"
proof -
  let ?v = "begin_task Relay (relay_accesses m) ((at_rest w)\<lparr>captured_q := ms\<rparr>)"
  have "task_step (at_rest w) ?v" using assms by (intro task_step.relayed) simp_all
  moreover have "(run_task Relay ^^ 2) ?v = at_rest (w\<lparr>sst := forward_event m (sst w), capture_q := ms\<rparr>)"
    by (subst relay_runs) (auto simp: begin_task_def at_rest_def fun_eq_iff)
  ultimately show ?thesis by (rule begin_then_runs)
qed

text \<open>A task that makes a single access.\<close>

lemma single_reach:
  assumes "task_step (at_rest w) (begin_task t [a] (at_rest w))"
    and "exec a (at_rest w) = (at_rest w', [])"
  shows "task_reach (at_rest w) (at_rest w')"
proof (rule begin_then_runs [OF assms(1), of 1])
  have "exec a (begin_task t [a] (at_rest w)) = (begin_task t [a] (at_rest w'), [])"
    using assms(2) by (cases a)
      (auto simp: at_rest_def begin_task_def Let_def split: option.splits list.splits prod.splits if_splits)
  then show "(run_task t ^^ 1) (begin_task t [a] (at_rest w)) = at_rest w'"
    by (simp add: begin_task_def at_rest_def fun_eq_iff)
qed

lemma uninterrupted_step:
  assumes "server_step w w'"
  shows "task_reach (at_rest w) (at_rest w')"
  using assms
proof (cases rule: server_step.cases)
  case (accept cid)
  then show ?thesis using accepted_reach by blast
next
  case (tls_failed cid)
  then show ?thesis using refused_reach(1) [OF tls_failed(2)] by simp
next
  case (handshake_ok cid env ip str b name fp c now)
  then show ?thesis using handshake_ok_reach by blast
next
  case (handshake_failed cid env ip str b e c)
  then show ?thesis using handshake_failed_reach by blast
next
  case (message cid name fp seen e s now)
  then show ?thesis using message_reach by blast
next
  case (goodbye cid name fp seen e s)
  then have "e = Goodbye" "s = sst w" by (cases e; auto split: if_splits)+
  with goodbye show ?thesis
    using task_step.received [of "at_rest w" cid fp Goodbye] by (auto intro!: left_reach)
next
  case (closed cid name fp seen)
  then show ?thesis
    using task_step.hung_up [of "at_rest w" cid fp] by (auto intro!: left_reach)
next
  case (watchdog cid name fp seen now)
  then show ?thesis
    using task_step.hung_up [of "at_rest w" cid fp] by (auto intro!: left_reach)
next
  case (ping cid name fp seen ts)
  then show ?thesis
    by (intro single_reach [where t = "Conn cid" and a = "QueueOwn cid (Ping ts)"] task_step.ping_due)
      (auto simp: ping_tick_def at_rest_def)
next
  case (captured env ev oc cs)
  then show ?thesis using captured_reach by blast
next
  case (forwarded m ms)
  then show ?thesis using forwarded_reach by blast
next
  case (clipboard_poll ok wb s)
  with poll_reach [OF clipboard_poll(3,2)] show ?thesis by simp
next
  case (board_changed b)
  then have "(at_rest w)\<lparr>board := (fst (board (at_rest w)), b)\<rparr> = at_rest w'" by (simp add: at_rest_def)
  with task_step.copied [of "at_rest w" b] show ?thesis by (metis task_reach.intros)
next
  case shutdown
  then show ?thesis
    by (intro single_reach [where t = Acceptor and a = "Announce Goodbye"] task_step.interrupted)
      (auto simp: at_rest_def)
qed

lemma server_reach_tasks: "server_reach w w' \<Longrightarrow> task_reach (at_rest w) (at_rest w')"
  by (induction rule: server_reach.induct)
    (auto intro: task_reach.start task_reach_trans dest: uninterrupted_step)

section \<open>Tasks on their own\<close>

text \<open>A task that runs, with nothing in between, until it has nothing left to do.\<close>

definition run_alone :: "task \<Rightarrow> tasks \<Rightarrow> tasks option" where
  "run_alone t = while_option (\<lambda>w. todo w t \<noteq> []) (run_task t)"

lemma run_alone_step: "run_alone t (run_task t w) = run_alone t w"
proof (cases "todo w t = []")
  case False
  then show ?thesis unfolding run_alone_def by (subst (2) while_option_unfold) simp
qed simp

lemma run_alone_steps: "run_alone t ((run_task t ^^ n) w) = run_alone t w"
  by (induction n) (simp_all add: run_alone_step)

lemma run_alone_runs:
  assumes "(run_task t ^^ n) w = w'" and "todo w' t = []"
  shows "run_alone t w = Some w'"
proof -
  have "run_alone t w' = Some w'" using assms(2) unfolding run_alone_def by (subst while_option_unfold) simp
  then show ?thesis using run_alone_steps [of t n w] assms(1) by simp
qed

abbreviation gone :: "u64 \<Rightarrow> string \<Rightarrow> tasks \<Rightarrow> tasks" where
  "gone cid fp w \<equiv> w\<lparr>shared := disconnect_client cid (shared w), conn := (conn w)(cid := Left fp)\<rparr>"

text \<open>What pairing and registration come to: a registered connection, or a refused one.\<close>

fun paired_or_refused :: "u64 \<Rightarrow> server_error + string \<Rightarrow> server_state \<Rightarrow> tasks \<Rightarrow> tasks" where
  "paired_or_refused cid (Inr fp) s w =
     w\<lparr>shared := register_client cid s, conn := (conn w)(cid := Joined fp), permits := permits w - 1\<rparr>"
| "paired_or_refused cid (Inl e) s w = w\<lparr>shared := s, conn := (conn w)(cid := Refused), permits := permits w - 1\<rparr>"

lemma message_alone:
  "run_alone (Conn cid) (begin_task (Conn cid) (message_accesses cid fp e) w) =
     Some (begin_task (Conn cid) [] (case client_message cid e (shared w) of
       (go_on, s) \<Rightarrow> if go_on then w\<lparr>shared := s\<rparr> else gone cid fp w))"
proof (cases "client_message cid e (shared w)")
  case (Pair go_on s)
  show ?thesis
  proof (cases go_on)
    case True
    with Pair show ?thesis
      by (intro run_alone_runs [where n = 4], subst message_runs) (auto simp: begin_task_def)
  next
    case False
    with Pair have "e = Goodbye" by (cases e) (auto split: if_splits)
    with Pair False show ?thesis
      by (intro run_alone_runs [where n = 4], subst leave_runs) (auto simp: begin_task_def)
  qed
qed

lemma leave_alone:
  "run_alone (Conn cid) (begin_task (Conn cid) [Leave cid fp] w) = Some (begin_task (Conn cid) [] (gone cid fp w))"
  by (intro run_alone_runs [where n = 4], subst leave_runs) (auto simp: begin_task_def)

lemma relay_alone:
  "run_alone Relay (begin_task Relay (relay_accesses m) w) =
     Some (begin_task Relay [] (w\<lparr>shared := forward_event m (shared w)\<rparr>))"
  by (intro run_alone_runs [where n = 2], subst relay_runs) (auto simp: begin_task_def)

lemma callback_alone:
  "run_alone Callback (begin_task Callback [CapLoad env ev] w) =
     (case process_event env ev (set_enabled (forwarding_enabled (shared w)) (callback w)) of (oc, cs) \<Rightarrow>
        Some (begin_task Callback [] (w\<lparr>callback := cs, captured_q := captured_q w @ dispatch oc,
          shared := (shared w)\<lparr>forwarding_enabled := is_enabled cs\<rparr>\<rparr>)))"
proof (cases "process_event env ev (set_enabled (forwarding_enabled (shared w)) (callback w))")
  case (Pair oc cs)
  then have "run_alone Callback (begin_task Callback [CapLoad env ev] w) =
      Some (begin_task Callback [] (w\<lparr>callback := cs, captured_q := captured_q w @ dispatch oc,
          shared := (shared w)\<lparr>forwarding_enabled := is_enabled cs\<rparr>\<rparr>))"
    by (intro run_alone_runs [where n = 4], subst callback_runs) (auto simp: begin_task_def)
  with Pair show ?thesis by simp
qed

lemma poll_alone:
  "run_alone Watcher (begin_task Watcher [ClipDrain ok] w) =
     (case clipboard_round ok (board w) (shared w) of (wb, s) \<Rightarrow>
        Some (begin_task Watcher [] (w\<lparr>board := wb, shared := s\<rparr>)))"
proof -
  let ?v = "begin_task Watcher [ClipDrain ok] w"
  obtain wb s where r: "clipboard_round ok (board w) (shared w) = (wb, s)" by fastforce
  obtain n where "(run_task Watcher ^^ n) ?v = begin_task Watcher [] (w\<lparr>board := wb, shared := s\<rparr>)"
    using poll_runs [of ?v ok] r by (auto simp: begin_task_def)
  from run_alone_runs [OF this] r show ?thesis by simp
qed

lemma join_alone:
  "run_alone (Conn cid) (begin_task (Conn cid) [Join cid fp] w) =
     Some (begin_task (Conn cid) [] (paired_or_refused cid (Inr fp) (shared w) w))"
  by (intro run_alone_runs [where n = 5], subst join_runs) (auto simp: begin_task_def)

text \<open>A pairing whose replies can be written.\<close>

lemma pair_device_reply:
  assumes "timed_read env PairTimeout c = (Inr (PairRequest nonce fp pf), c1)"
    and "pair_device env ip name c = (r, c')" and "\<forall>err. r \<noteq> Inl (Proto err)"
  shows "is_rate_limited (he_now env) (rate_limiter (srv c)) ip \<Longrightarrow> isl r \<and> srv c' = srv c"
    and "\<not> is_rate_limited (he_now env) (rate_limiter (srv c)) ip \<Longrightarrow> is_paired (config (srv c)) fp \<Longrightarrow>
      r = Inr fp \<and> srv c' = srv c"
    and "\<not> is_rate_limited (he_now env) (rate_limiter (srv c)) ip \<Longrightarrow> \<not> is_paired (config (srv c)) fp \<Longrightarrow>
      proof_matches (pairing_proof (he_sha env) (pin (srv c)) nonce fp) pf \<Longrightarrow>
      r = Inr fp \<and> srv c' = accept_new_device env fp name (srv c)"
    and "\<not> is_rate_limited (he_now env) (rate_limiter (srv c)) ip \<Longrightarrow> \<not> is_paired (config (srv c)) fp \<Longrightarrow>
      \<not> proof_matches (pairing_proof (he_sha env) (pin (srv c)) nonce fp) pf \<Longrightarrow>
      isl r \<and> srv c' = (srv c)\<lparr>rate_limiter := record_pairing_failure (he_now env) (rate_limiter (srv c)) ip\<rparr>"
proof -
  note eqs = pair_device_def bindM_def getM_def seqM_def ret_def bail_def modifyM_def
  have s: "srv c1 = srv c" using timed_read_srv [OF assms(1)] .
  have sent: "srv c3 = srv c2 \<and> (\<forall>x. r1 = Inl x \<longrightarrow> (\<exists>err. x = Proto err))" if "send env e c2 = (r1, c3)" for e c2 r1 c3
    using that by (auto simp: send_def split: prod.splits sum.splits)
  show "is_rate_limited (he_now env) (rate_limiter (srv c)) ip \<Longrightarrow> isl r \<and> srv c' = srv c"
    using assms s by (auto simp: eqs split: prod.splits sum.splits dest!: send_frame)
  show "\<not> is_rate_limited (he_now env) (rate_limiter (srv c)) ip \<Longrightarrow> is_paired (config (srv c)) fp \<Longrightarrow>
      r = Inr fp \<and> srv c' = srv c"
    using assms s by (auto simp: eqs split: prod.splits sum.splits dest!: sent)
  show "\<not> is_rate_limited (he_now env) (rate_limiter (srv c)) ip \<Longrightarrow> \<not> is_paired (config (srv c)) fp \<Longrightarrow>
      proof_matches (pairing_proof (he_sha env) (pin (srv c)) nonce fp) pf \<Longrightarrow>
      r = Inr fp \<and> srv c' = accept_new_device env fp name (srv c)"
    using assms s by (auto simp: eqs split: prod.splits sum.splits dest!: sent)
  show "\<not> is_rate_limited (he_now env) (rate_limiter (srv c)) ip \<Longrightarrow> \<not> is_paired (config (srv c)) fp \<Longrightarrow>
      \<not> proof_matches (pairing_proof (he_sha env) (pin (srv c)) nonce fp) pf \<Longrightarrow>
      isl r \<and> srv c' = (srv c)\<lparr>rate_limiter := record_pairing_failure (he_now env) (rate_limiter (srv c)) ip\<rparr>"
    using assms s by (auto simp: eqs split: prod.splits sum.splits dest!: send_frame)
qed

lemma pairing_alone:
  assumes "timed_read env PairTimeout c = (Inr (PairRequest nonce fp pf), c1)"
    and "pair_device env ip name c = (r, c')" and "\<forall>err. r \<noteq> Inl (Proto err)"
    and "srv c = shared w" and "he_now env = clock w"
  shows "run_alone (Conn cid) (begin_task (Conn cid) [AskLimiter env cid ip name nonce fp pf] w) =
    Some (begin_task (Conn cid) [] (paired_or_refused cid r (srv c') w))"
proof -
  let ?v = "begin_task (Conn cid) [AskLimiter env cid ip name nonce fp pf] w"
  note reply = pair_device_reply [OF assms(1-3), unfolded assms(4,5)]
  have todo: "todo ?v (Conn cid) = [AskLimiter env cid ip name nonce fp pf]" by simp
  have joins: "run_alone (Conn cid) ?v = Some (begin_task (Conn cid) [] (paired_or_refused cid (Inr fp) s w))"
    if "(run_task (Conn cid) ^^ n) ?v = ?v\<lparr>shared := s, todo := (todo ?v)(Conn cid := [Join cid fp])\<rparr>" for n s
    using join_alone [of cid fp "w\<lparr>shared := s\<rparr>"] run_alone_steps [of "Conn cid" n ?v] unfolding that
    by (simp add: begin_task_def)
  let ?lim = "is_rate_limited (clock w) (rate_limiter (shared w)) ip"
  let ?known = "is_paired (config (shared w)) fp"
  let ?ok = "proof_matches (pairing_proof (he_sha env) (pin (shared w)) nonce fp) pf"
  consider (limited) ?lim | (known) "\<not> ?lim" ?known | (new) "\<not> ?lim" "\<not> ?known" ?ok
    | (wrong) "\<not> ?lim" "\<not> ?known" "\<not> ?ok" by blast
  then show ?thesis
  proof cases
    case limited
    with reply(1) obtain e where "r = Inl e" "srv c' = shared w" by (auto simp: isl_def)
    with limited show ?thesis
      by (intro run_alone_runs [where n = 2]) (simp_all add: numeral_2_eq_2 begin_task_def)
  next
    case known
    with reply(2) pairing_runs(1) [OF todo] joins [of 2 "shared w"] show ?thesis by simp
  next
    case new
    with reply(3) pairing_runs(2) [OF todo] joins [of 3] show ?thesis by simp
  next
    case wrong
    with reply(4) obtain e where "r = Inl e"
      "srv c' = (shared w)\<lparr>rate_limiter := record_pairing_failure (clock w) (rate_limiter (shared w)) ip\<rparr>"
      by (auto simp: isl_def)
    with wrong pairing_runs(3) [OF todo] show ?thesis
      by (intro run_alone_runs [where n = 4]) (simp_all add: begin_task_def)
  qed
qed

text \<open>
  C17: a task that nothing interrupts does what the server does in one step. From every state, whatever the other
  tasks are in the middle of, a task that begins and is left alone ends, and the state is then the one that the handler of the
  message, the pairing with its registration (if the replies can be written), the disconnection, the relay of a captured event,
  the capture callback or the clipboard poll computes in one go.
\<close>

theorem uninterrupted:
  assumes "timed_read env PairTimeout c = (Inr (PairRequest nonce fp pf), c1)"
    and "pair_device env ip name c = (r, c')" and "\<forall>err. r \<noteq> Inl (Proto err)"
    and "srv c = shared w" and "he_now env = clock w"
  shows "run_alone (Conn cid) (begin_task (Conn cid) [AskLimiter env cid ip name nonce fp pf] w) =
      Some (begin_task (Conn cid) [] (paired_or_refused cid r (srv c') w)) \<and>
    run_alone (Conn cid) (begin_task (Conn cid) (message_accesses cid fp' e) w) =
      Some (begin_task (Conn cid) [] (case client_message cid e (shared w) of
        (go_on, s) \<Rightarrow> if go_on then w\<lparr>shared := s\<rparr> else gone cid fp' w)) \<and>
    run_alone (Conn cid) (begin_task (Conn cid) [Leave cid fp'] w) = Some (begin_task (Conn cid) [] (gone cid fp' w)) \<and>
    run_alone Relay (begin_task Relay (relay_accesses m) w) =
      Some (begin_task Relay [] (w\<lparr>shared := forward_event m (shared w)\<rparr>)) \<and>
    run_alone Callback (begin_task Callback [CapLoad cenv ev] w) =
      (case process_event cenv ev (set_enabled (forwarding_enabled (shared w)) (callback w)) of (oc, cs) \<Rightarrow>
        Some (begin_task Callback [] (w\<lparr>callback := cs, captured_q := captured_q w @ dispatch oc,
          shared := (shared w)\<lparr>forwarding_enabled := is_enabled cs\<rparr>\<rparr>))) \<and>
    run_alone Watcher (begin_task Watcher [ClipDrain ok] w) =
      (case clipboard_round ok (board w) (shared w) of (wb, s) \<Rightarrow>
        Some (begin_task Watcher [] (w\<lparr>board := wb, shared := s\<rparr>)))"
  using pairing_alone [OF assms] message_alone leave_alone relay_alone callback_alone poll_alone by blast

text \<open>A device that shows the right PIN is registered.\<close>

definition ex_request :: conn_state where
  "ex_request = \<lparr>srv = ex_server, stream = \<lparr>rx = [0, 0, 0, 1, 2], tx = [], tx_room = None\<rparr>, stalls = False\<rparr>"

lemma ex_pairing:
  "\<exists>c1. timed_read (ex_env ''1234'') PairTimeout ex_request =
     (Inr (PairRequest ex_nonce ''AA'' (pairing_proof pad32 ''1234'' ex_nonce ''AA'')), c1)"
  "\<exists>c'. pair_device (ex_env ''1234'') ex_ip ''pc'' ex_request = (Inr ''AA'', c')"
  by (simp_all add: ex_request_def pair_device_def timed_read_def bindM_def seqM_def getM_def
      ret_def modifyM_def ex_send ex_read2 ex_server_def is_rate_limited_def
      is_paired_def server_config_default_def proof_matches_iff pairing_proof_def accept_new_device_def Let_def)

theorem uninterrupted_witness:
  "\<exists>v. run_alone (Conn 1) (begin_task (Conn 1) [AskLimiter (ex_env ''1234'') 1 ex_ip ''pc'' ex_nonce ''AA''
      (pairing_proof pad32 ''1234'' ex_nonce ''AA'')] ((at_rest ex_world)\<lparr>shared := ex_server, clock := 5\<rparr>)) = Some v \<and>
    conn v 1 = Joined ''AA''"
proof -
  let ?w = "(at_rest ex_world)\<lparr>shared := ex_server, clock := 5\<rparr>"
  obtain c1 c' where c: "timed_read (ex_env ''1234'') PairTimeout ex_request =
     (Inr (PairRequest ex_nonce ''AA'' (pairing_proof pad32 ''1234'' ex_nonce ''AA'')), c1)"
    "pair_device (ex_env ''1234'') ex_ip ''pc'' ex_request = (Inr ''AA'', c')"
    using ex_pairing by blast
  have "srv ex_request = shared ?w" "he_now (ex_env ''1234'') = clock ?w" by (simp_all add: ex_request_def)
  from uninterrupted [OF c _ this] show ?thesis by simp
qed

end
