(* ===== verification/Interleaving.thy ===== *)
theory Interleaving
  imports Tasks
begin

text \<open>
  What holds of the server under every interleaving of the accesses of its tasks: who is served, that all
  clients see the same broadcasts in the same order, that no clipboard text is sent when it is not
  to be; and two races on the forwarding flag.
\<close>

section \<open>Which accesses a task can have left\<close>

text \<open>While a device is paired, after it has joined, after it has left; and tasks without a connection.\<close>

definition pairing :: "(string \<Rightarrow> bool) \<Rightarrow> u64 \<Rightarrow> access list \<Rightarrow> bool" where
  "pairing paired cid as \<longleftrightarrow> as = [] \<or> as = [Refuse cid] \<or>
     (\<exists>env ip name nonce fp pf. as = [AskLimiter env cid ip name nonce fp pf]) \<or>
     (\<exists>env ip name nonce fp pf. as = [AskPaired env cid ip name nonce fp pf]) \<or>
     (\<exists>env name fp. as = [AddDevice env name fp, Join cid fp]) \<or>
     (\<exists>env ip. as = [CountFailure env ip, Refuse cid]) \<or>
     (\<exists>fp. as = [Join cid fp] \<and> paired fp)"

fun serving :: "u64 \<Rightarrow> access \<Rightarrow> bool" where
  "serving cid (AutoOn c) = (c = cid)"
| "serving cid (SwapOn c) = (c = cid)"
| "serving cid (DropPermit c) = (c = cid)"
| "serving cid (LoadFlag b) = True"
| "serving cid (StoreFlag b) = True"
| "serving cid (Announce e) = True"
| "serving cid (QueueOwn c e) = (c = cid)"
| "serving cid (AskSync x) = True"
| "serving cid (PassClipboard x) = True"
| "serving cid _ = False"

fun leaving :: "u64 \<Rightarrow> access \<Rightarrow> bool" where
  "leaving cid AutoOff = True"
| "leaving cid SwapOff = True"
| "leaving cid (QueueOwn c e) = (c = cid)"
| "leaving cid _ = False"

fun background :: "access \<Rightarrow> bool" where
  "background (StoreFlag b) = True"
| "background (Announce e) = True"
| "background (CapLoad env ev) = True"
| "background (CapSend m) = True"
| "background (ClipDrain ok) = True"
| "background ClipRead = True"
| "background _ = False"

fun conn_ok :: "(string \<Rightarrow> bool) \<Rightarrow> u64 \<Rightarrow> conn \<Rightarrow> access list \<Rightarrow> bool" where
  "conn_ok paired cid NoConn as = (as = [])"
| "conn_ok paired cid Unpaired as = pairing paired cid as"
| "conn_ok paired cid (Joined fp) as = (paired fp \<and> (list_all (serving cid) as \<or> as = [Leave cid fp]))"
| "conn_ok paired cid Refused as = (as = [])"
| "conn_ok paired cid (Left fp) as = (paired fp \<and> list_all (leaving cid) as)"

fun admitted :: "conn \<Rightarrow> bool" where
  "admitted (Joined fp) = True"
| "admitted (Left fp) = True"
| "admitted _ = False"

definition joined :: "tasks \<Rightarrow> u64 \<Rightarrow> bool" where
  "joined w cid \<longleftrightarrow> (\<exists>fp. conn w cid = Joined fp)"

definition tasks_inv :: "tasks \<Rightarrow> bool" where
  "tasks_inv w \<longleftrightarrow>
     (\<forall>cid. cid \<in> set (registry (shared w)) \<longleftrightarrow> joined w cid) \<and>
     (\<forall>cid. conn_ok (is_paired (config (shared w))) cid (conn w cid) (todo w (Conn cid))) \<and>
     (\<forall>t. (\<forall>cid. t \<noteq> Conn cid) \<longrightarrow> list_all background (todo w t)) \<and>
     (\<forall>cid. outbox (shared w) cid \<noteq> [] \<longrightarrow> admitted (conn w cid))"

section \<open>Accesses and what they leave alone\<close>

text \<open>The accesses that neither admit, refuse or remove a connection nor change the configuration.\<close>

fun plain :: "access \<Rightarrow> bool" where
  "plain (AddDevice env name fp) = False"
| "plain (Refuse cid) = False"
| "plain (Join cid fp) = False"
| "plain (Leave cid fp) = False"
| "plain _ = True"

lemma serving_plain: "serving cid a \<Longrightarrow> plain a"
  by (cases a) auto

lemma leaving_plain: "leaving cid a \<Longrightarrow> plain a"
  by (cases a) auto

lemma background_plain: "background a \<Longrightarrow> plain a"
  by (cases a) auto

lemma exec_plain:
  assumes "plain a"
  shows "conn (fst (exec a w)) = conn w" "registry (shared (fst (exec a w))) = registry (shared w)"
    "config (shared (fst (exec a w))) = config (shared w)"
  using assms by (cases a; auto split: option.splits list.splits prod.splits)+

lemma exec_outbox:
  assumes "cid \<notin> set (registry (shared w))" and "\<And>e. a \<noteq> QueueOwn cid e"
  shows "outbox (shared (fst (exec a w))) cid = outbox (shared w) cid"
  using assms
  by (cases a) (auto simp: Let_def accept_new_device_def split: option.splits list.splits prod.splits)

lemma exec_paired:
  "is_paired (config (shared w)) fp \<Longrightarrow> is_paired (config (shared (fst (exec a w)))) fp"
  by (cases a)
    (auto simp: Let_def accept_new_device_def split: option.splits list.splits prod.splits)

lemma exec_serving: "serving cid a \<Longrightarrow> list_all (serving cid) (snd (exec a w))"
  by (cases a) auto

lemma exec_leaving: "leaving cid a \<Longrightarrow> list_all (leaving cid) (snd (exec a w))"
  by (cases a) auto

lemma exec_background: "background a \<Longrightarrow> list_all background (snd (exec a w))"
  by (cases a) (auto simp: list_all_iff split: option.splits list.splits prod.splits)

lemma message_serving:
  "list_all (serving cid) (message_accesses cid fp e) \<or> message_accesses cid fp e = [Leave cid fp]"
  by (cases e) auto

lemma relay_background: "list_all background (relay_accesses m)"
  by (cases m) auto

lemma conn_ok_mono: "conn_ok p cid c as \<Longrightarrow> (\<And>fp. p fp \<Longrightarrow> q fp) \<Longrightarrow> conn_ok q cid c as"
  by (cases c) (auto simp: pairing_def)

section \<open>The invariant\<close>

lemma tasks_invD:
  assumes "tasks_inv w"
  shows "cid \<in> set (registry (shared w)) \<longleftrightarrow> joined w cid"
    and "conn_ok (is_paired (config (shared w))) cid (conn w cid) (todo w (Conn cid))"
    and "(\<And>cid. t \<noteq> Conn cid) \<Longrightarrow> list_all background (todo w t)"
    and "outbox (shared w) cid \<noteq> [] \<Longrightarrow> admitted (conn w cid)"
  using assms by (auto simp: tasks_inv_def)

lemma joined_admitted: "joined w cid \<Longrightarrow> admitted (conn w cid)"
  by (auto simp: joined_def)

lemma inv_plain_access:
  assumes inv: "tasks_inv w" and a: "todo w t = a # rest" and plain: "plain a"
    and own: "\<And>cid e. a = QueueOwn cid e \<Longrightarrow> admitted (conn w cid)"
    and conn: "\<And>cid. t = Conn cid \<Longrightarrow>
      conn_ok (is_paired (config (shared w))) cid (conn w cid) (snd (exec a w) @ rest)"
    and other: "(\<And>cid. t \<noteq> Conn cid) \<Longrightarrow> list_all background (snd (exec a w) @ rest)"
  shows "tasks_inv (run_task t w)"
proof -
  note frame = exec_plain [OF plain, of w]
  have "admitted (conn w cid)" if "outbox (shared (fst (exec a w))) cid \<noteq> []" for cid
    using that own exec_outbox [of cid w a] tasks_invD(1,4) [OF inv, of cid] joined_admitted [of w cid] by metis
  then show ?thesis
    using tasks_invD [OF inv] conn other by (auto simp: a tasks_inv_def joined_def frame)
qed

text \<open>Pairing, access by access.\<close>

lemma inv_pairing_access:
  assumes inv: "tasks_inv w" and c: "conn w cid = Unpaired" and todo: "todo w (Conn cid) \<noteq> []"
  shows "tasks_inv (run_task (Conn cid) w)"
proof -
  note d = tasks_invD [OF inv]
  have "pairing (is_paired (config (shared w))) cid (todo w (Conn cid))" using d(2) [of cid] c by simp
  with todo consider
      env ip name nonce fp pf where "todo w (Conn cid) = [AskLimiter env cid ip name nonce fp pf]"
    | env ip name nonce fp pf where "todo w (Conn cid) = [AskPaired env cid ip name nonce fp pf]"
    | env name fp where "todo w (Conn cid) = [AddDevice env name fp, Join cid fp]"
    | env ip where "todo w (Conn cid) = [CountFailure env ip, Refuse cid]"
    | "todo w (Conn cid) = [Refuse cid]"
    | fp where "todo w (Conn cid) = [Join cid fp]" "is_paired (config (shared w)) fp"
    by (auto simp: pairing_def)
  then show ?thesis
  proof cases
    case 3
    show ?thesis unfolding tasks_inv_def
    proof (intro conjI allI impI)
      fix c
      have "conn_ok (is_paired (config (shared (run_task (Conn cid) w)))) c (conn w c) (todo w (Conn c))"
        using d(2) by (rule conn_ok_mono) (simp add: 3 accept_new_device_def Let_def)
      then show "conn_ok (is_paired (config (shared (run_task (Conn cid) w)))) c (conn (run_task (Conn cid) w) c)
          (todo (run_task (Conn cid) w) (Conn c))"
        using \<open>conn w cid = Unpaired\<close> by (auto simp: 3 pairing_def accept_new_device_def Let_def)
    qed (use d c in \<open>auto simp: 3 joined_def accept_new_device_def Let_def\<close>)
  next
    case 5
    moreover have "outbox (shared w) cid = []" using d(4) [of cid] c by auto
    ultimately show ?thesis using d c by (auto simp: tasks_inv_def joined_def)
  next
    case (6 fp)
    have "conn_ok (is_paired (config (shared w))) c' (((conn w)(cid := Joined fp)) c')
       (((todo w)(Conn cid := snd (exec (Join cid fp) w))) (Conn c'))" for c'
      using d(2) [of c'] 6 by (auto simp: Let_def)
    with d c 6 show ?thesis by (auto simp: tasks_inv_def joined_def Let_def)
  next
    case 1
    with c show ?thesis by (intro inv_plain_access [OF inv 1]) (auto simp: pairing_def)
  next
    case 2
    with c show ?thesis by (intro inv_plain_access [OF inv 2]) (auto simp: pairing_def)
  next
    case 4
    with c show ?thesis by (intro inv_plain_access [OF inv 4]) (auto simp: pairing_def)
  qed
qed

lemma inv_joined_access:
  assumes inv: "tasks_inv w" and c: "conn w cid = Joined fp" and todo: "todo w (Conn cid) = a # rest"
  shows "tasks_inv (run_task (Conn cid) w)"
proof -
  note d = tasks_invD [OF inv]
  have ok: "is_paired (config (shared w)) fp" "list_all (serving cid) (a # rest) \<or> a # rest = [Leave cid fp]"
    using d(2) [of cid] c todo by simp_all
  from ok(2) show ?thesis
  proof
    assume s: "list_all (serving cid) (a # rest)"
    then show ?thesis
      using exec_serving [of cid a w] ok(1) c
      by (intro inv_plain_access [OF inv todo]) (auto simp: serving_plain)
  next
    assume l: "a # rest = [Leave cid fp]"
    have "conn_ok (is_paired (config (shared w))) c' (((conn w)(cid := Left fp)) c')
       (((todo w)(Conn cid := snd (exec (Leave cid fp) w))) (Conn c'))" for c'
      using d(2) [of c'] ok(1) by (auto simp: Let_def)
    with d c l todo show ?thesis by (auto simp: tasks_inv_def joined_def Let_def)
  qed
qed

lemma inv_access:
  assumes inv: "tasks_inv w" and "todo w t \<noteq> []"
  shows "tasks_inv (run_task t w)"
proof -
  obtain a rest where a: "todo w t = a # rest" using assms(2) by (cases "todo w t") auto
  show ?thesis
  proof (cases t)
    case (Conn cid)
    show ?thesis
    proof (cases "conn w cid")
      case (Left fp)
      then have "is_paired (config (shared w)) fp" "list_all (leaving cid) (a # rest)"
        using tasks_invD(2) [OF inv, of cid] a Conn by simp_all
      then show ?thesis
        using exec_leaving [of cid a w] Left Conn
        by (intro inv_plain_access [OF inv a]) (auto simp: leaving_plain)
    next
      case Unpaired
      then show ?thesis using inv_pairing_access [OF inv] Conn assms(2) by blast
    next
      case (Joined fp)
      then show ?thesis using inv_joined_access [OF inv] a Conn by blast
    qed (use tasks_invD(2) [OF inv, of cid] a Conn in auto)
  qed (rule inv_plain_access [OF inv a];
      use tasks_invD(3) [OF inv, of t] a exec_background [of a w] in \<open>auto simp: background_plain\<close>)+
qed

lemma inv_begin:
  assumes inv: "tasks_inv w" and "todo w t = []"
    and "\<And>cid. t = Conn cid \<Longrightarrow> conn_ok (is_paired (config (shared w))) cid (conn w cid) as"
    and "(\<And>cid. t \<noteq> Conn cid) \<Longrightarrow> list_all background as"
  shows "tasks_inv (begin_task t as w)"
  using tasks_invD [OF inv] assms(2-) by (auto simp: tasks_inv_def joined_def)

lemma admitted_paired:
  assumes "tasks_inv w"
  shows "conn w cid = Joined fp \<Longrightarrow> is_paired (config (shared w)) fp"
    and "conn w cid = Left fp \<Longrightarrow> is_paired (config (shared w)) fp"
  using tasks_invD(2) [OF assms(1), of cid] by auto

lemma tasks_inv_step:
  assumes "task_step w w'" and inv: "tasks_inv w"
  shows "tasks_inv w'"
  using assms(1)
proof (cases rule: task_step.cases)
  case (accepted cid)
  with tasks_invD [OF inv] tasks_invD(4) [OF inv, of cid] tasks_invD(2) [OF inv, of cid] show ?thesis
    by (auto simp: tasks_inv_def joined_def pairing_def)
next
  case (given_up cid)
  moreover have "outbox (shared w) cid = []" using tasks_invD(4) [OF inv, of cid] given_up by auto
  ultimately show ?thesis using tasks_invD [OF inv] by (auto simp: tasks_inv_def joined_def)
next
  case (relayed m ms)
  have "tasks_inv (w\<lparr>captured_q := ms\<rparr>)" using inv by (simp add: tasks_inv_def joined_def)
  with relayed show ?thesis by (auto intro: inv_begin simp: relay_background)
next
  case (copied b)
  with inv show ?thesis by (simp add: tasks_inv_def joined_def)
next
  case (time_passes now)
  with inv show ?thesis by (simp add: tasks_inv_def joined_def)
next
  case (received cid fp e)
  then show ?thesis
    using tasks_invD(2) [OF inv, of cid] message_serving [of cid fp e] by (auto intro: inv_begin [OF inv])
next
  case (access t)
  with inv show ?thesis by (auto intro: inv_access)
qed (auto intro!: inv_begin [OF inv] intro: admitted_paired [OF inv] simp: pairing_def)

lemma tasks_inv_init: "tasks_inv (tasks_init cfg file port p b)"
  by (simp add: tasks_inv_def joined_def world_init_def)

lemma task_reach_inv: "task_reach (tasks_init cfg file port p b) w \<Longrightarrow> tasks_inv w"
  by (induction rule: task_reach.induct) (auto intro: tasks_inv_init tasks_inv_step)

section \<open>All clients see the same broadcasts\<close>

text \<open>
  The envelopes that concern one connection only are its pings and pongs and, for the first
  connection under \<open>auto_forward\<close>, the announcement that forwarding was turned on for it. The latter
  is out of the way once the connection is settled.
\<close>

fun to_all :: "envelope \<Rightarrow> bool" where
  "to_all (Ping ts) = False"
| "to_all (Pong ts) = False"
| "to_all e = True"

definition news :: "tasks \<Rightarrow> u64 \<Rightarrow> envelope list" where
  "news w cid = filter to_all (outbox (shared w) cid)"

fun settling :: "access \<Rightarrow> bool" where
  "settling (AutoOn cid) = True"
| "settling (SwapOn cid) = True"
| "settling (QueueOwn cid e) = to_all e"
| "settling _ = False"

definition settled :: "tasks \<Rightarrow> u64 \<Rightarrow> bool" where
  "settled w cid \<longleftrightarrow> joined w cid \<and> (\<forall>a \<in> set (todo w (Conn cid)). \<not> settling a)"

lemma exec_settling: "serving cid a \<Longrightarrow> \<not> settling a \<Longrightarrow> b \<in> set (snd (exec a w)) \<Longrightarrow> \<not> settling b"
  by (cases a) (auto split: if_splits)

lemma message_settling: "a \<in> set (message_accesses cid fp e) \<Longrightarrow> \<not> settling a"
  by (cases e) auto

text \<open>What an access adds to the news of the connections: one envelope for all, or nothing.\<close>

fun announced :: "access \<Rightarrow> envelope list" where
  "announced (Announce e) = (if to_all e then [e] else [])"
| "announced _ = []"

lemma exec_news:
  assumes "cid \<in> set (registry (shared w))" and "\<And>e. a = QueueOwn cid e \<Longrightarrow> \<not> to_all e"
  shows "news (fst (exec a w)) cid = news w cid @ announced a"
  using assms
  by (cases a)
    (auto simp: news_def Let_def accept_new_device_def split: option.splits list.splits prod.splits)

lemma queue_own_task:
  assumes "tasks_inv w" and "todo w t = QueueOwn cid e # rest"
  shows "t = Conn cid"
proof (cases t)
  case (Conn c)
  then show ?thesis
    using tasks_invD(2) [OF assms(1), of c] assms(2) by (cases "conn w c") (auto simp: pairing_def)
qed (use tasks_invD(3) [OF assms(1), of t] assms(2) in auto)

lemma settled_todo:
  assumes "tasks_inv w" and "settled w cid" and "joined w' cid" and "task_step w w'"
  shows "settled w' cid"
  using assms(4)
proof (cases rule: task_step.cases)
  case (access t)
  then obtain a rest where a: "todo w t = a # rest" by (cases "todo w t") auto
  show ?thesis
  proof (cases "t = Conn cid")
    case False
    with access assms(2,3) a show ?thesis by (auto simp: settled_def)
  next
    case True
    obtain fp where fp: "conn w cid = Joined fp" using assms(2) by (auto simp: settled_def joined_def)
    with tasks_invD(2) [OF assms(1), of cid] a True
    have "list_all (serving cid) (a # rest) \<or> a # rest = [Leave cid fp]" by simp
    moreover have "a \<noteq> Leave cid fp" using assms(3) access a by (auto simp: joined_def Let_def)
    ultimately have "serving cid a" by auto
    then show ?thesis
      using exec_settling [of cid a _ w] assms(2,3) access a True by (auto simp: settled_def)
  qed
qed (use assms(2,3) message_settling in \<open>auto simp: settled_def joined_def\<close>)

lemma news_step:
  assumes inv: "tasks_inv w" and step: "task_step w w'"
  shows "\<exists>es. \<forall>cid. settled w cid \<longrightarrow> news w' cid = news w cid @ es"
  using step
proof (cases rule: task_step.cases)
  case (access t)
  then obtain a rest where a: "todo w t = a # rest" by (cases "todo w t") auto
  have "news w' cid = news w cid @ announced a" if s: "settled w cid" for cid
  proof -
    have "cid \<in> set (registry (shared w))" using tasks_invD(1) [OF inv] s by (simp add: settled_def)
    moreover have "\<not> to_all e" if "a = QueueOwn cid e" for e
      using queue_own_task [OF inv] a that s by (auto simp: settled_def)
    ultimately have "news (fst (exec a w)) cid = news w cid @ announced a" by (rule exec_news)
    then show ?thesis using access a by (simp add: news_def)
  qed
  then show ?thesis by blast
qed (auto simp: news_def)

text \<open>A connection that has left does not come back.\<close>

lemma joined_before:
  assumes "tasks_inv w" and "task_step w w'" and "joined w' cid"
  shows "joined w cid \<or> conn w cid = Unpaired"
  using assms(2)
proof (cases rule: task_step.cases)
  case (access t)
  then obtain a rest where a: "todo w t = a # rest" by (cases "todo w t") auto
  show ?thesis
  proof (cases "plain a")
    case True
    with access a assms(3) exec_plain(1) [OF True, of w] show ?thesis by (simp add: joined_def)
  next
    case False
    have "conn w c = Unpaired" if "a = Join c fp" for c fp
    proof (cases t)
      case (Conn c')
      with tasks_invD(2) [OF assms(1), of c'] a that show ?thesis
        by (cases "conn w c'") (auto simp: pairing_def)
    qed (use tasks_invD(3) [OF assms(1), of t] a that in auto)
    with False access a assms(3) show ?thesis
      by (cases a) (auto simp: joined_def Let_def accept_new_device_def split: if_splits)
  qed
qed (use assms(3) in \<open>auto simp: joined_def split: if_splits\<close>)

lemma refuse_task:
  assumes "tasks_inv w" and "todo w t = Refuse cid # rest"
  shows "conn w cid = Unpaired"
proof (cases t)
  case (Conn c)
  then show ?thesis
    using tasks_invD(2) [OF assms(1), of c] assms(2) by (cases "conn w c") (auto simp: pairing_def)
qed (use tasks_invD(3) [OF assms(1), of t] assms(2) in auto)

lemma admitted_stays:
  assumes "tasks_inv w" and "task_step w w'" and "admitted (conn w cid)"
  shows "admitted (conn w' cid)"
  using assms(2)
proof (cases rule: task_step.cases)
  case (access t)
  then obtain a rest where a: "todo w t = a # rest" by (cases "todo w t") auto
  show ?thesis
  proof (cases "plain a")
    case True
    with access a assms(3) exec_plain(1) [OF True, of w] show ?thesis by simp
  next
    case False
    with access a assms(3) refuse_task [OF assms(1)] show ?thesis
      by (cases a) (auto simp: Let_def accept_new_device_def)
  qed
qed (use assms(3) in auto)

lemma news_reach:
  assumes "task_reach w w'" and "tasks_inv w"
  shows "tasks_inv w' \<and> (\<forall>cid. admitted (conn w cid) \<longrightarrow> admitted (conn w' cid)) \<and>
    (\<exists>es. \<forall>cid. settled w cid \<longrightarrow> joined w' cid \<longrightarrow> settled w' cid \<and> news w' cid = news w cid @ es)"
  using assms
proof (induction rule: task_reach.induct)
  case start
  show ?case using start by (auto intro!: exI [of _ "[]"])
next
  case (step w1 w')
  then obtain es where inv: "tasks_inv w1" and adm: "\<And>cid. admitted (conn w cid) \<Longrightarrow> admitted (conn w1 cid)"
    and es: "\<And>cid. settled w cid \<Longrightarrow> joined w1 cid \<Longrightarrow> settled w1 cid \<and> news w1 cid = news w cid @ es"
    by blast
  obtain es' where es': "\<And>cid. settled w1 cid \<Longrightarrow> news w' cid = news w1 cid @ es'"
    using news_step [OF inv step(2)] by blast
  have "settled w' cid \<and> news w' cid = news w cid @ es @ es'" if s: "settled w cid" and j: "joined w' cid" for cid
  proof -
    have "admitted (conn w1 cid)" using adm [of cid] s by (auto simp: settled_def joined_def)
    then have j1: "joined w1 cid" using joined_before [OF inv step(2) j] by (auto simp: joined_def)
    with es [OF s] es' [of cid] settled_todo [OF inv _ j step(2)] show ?thesis by simp
  qed
  moreover have "admitted (conn w' cid)" if "admitted (conn w cid)" for cid
    using admitted_stays [OF inv step(2) adm [OF that]] .
  ultimately show ?case using tasks_inv_step [OF step(2) inv] by blast
qed

section \<open>Clipboard texts\<close>

fun is_clip :: "envelope \<Rightarrow> bool" where
  "is_clip (ClipboardSet x) = True"
| "is_clip _ = False"

fun clip_access :: "access \<Rightarrow> bool" where
  "clip_access (ClipDrain ok) = True"
| "clip_access ClipRead = True"
| "clip_access (Announce e) = is_clip e"
| "clip_access (QueueOwn cid e) = is_clip e"
| "clip_access _ = False"

definition no_clip :: "tasks \<Rightarrow> bool" where
  "no_clip w \<longleftrightarrow> clipboard_tx (shared w) = None \<and>
     (\<forall>t. list_all (\<lambda>a. \<not> clip_access a) (todo w t)) \<and>
     (\<forall>cid. list_all (\<lambda>e. \<not> is_clip e) (outbox (shared w) cid))"

lemma exec_no_clip:
  assumes "\<not> clip_access a" and "clipboard_tx (shared w) = None"
    and "\<forall>cid. list_all (\<lambda>e. \<not> is_clip e) (outbox (shared w) cid)"
  shows "clipboard_tx (shared (fst (exec a w))) = None"
    "list_all (\<lambda>b. \<not> clip_access b) (snd (exec a w))"
    "list_all (\<lambda>e. \<not> is_clip e) (outbox (shared (fst (exec a w))) cid)"
  using assms
  by (cases a; auto simp: Let_def accept_new_device_def queue_to_def list_all_iff split: prod.splits option.splits)+

lemma begin_no_clip: "no_clip w \<Longrightarrow> list_all (\<lambda>a. \<not> clip_access a) as \<Longrightarrow> no_clip (begin_task t as w)"
  by (simp add: no_clip_def)

lemma message_no_clip: "list_all (\<lambda>a. \<not> clip_access a) (message_accesses cid fp e)"
  by (cases e) auto

lemma relay_no_clip: "list_all (\<lambda>a. \<not> clip_access a) (relay_accesses m)"
  by (cases m) auto

lemma no_clip_step:
  assumes "task_step w w'" and "no_clip w"
  shows "no_clip w'"
  using assms(1)
proof (cases rule: task_step.cases)
  case (access t)
  then obtain a rest where a: "todo w t = a # rest" by (cases "todo w t") auto
  have "\<not> clip_access a" "list_all (\<lambda>a. \<not> clip_access a) rest"
    using assms(2) a by (metis no_clip_def list.pred_inject(2))+
  with assms(2) access a exec_no_clip [of a w] show ?thesis by (auto simp: no_clip_def)
next
  case (poll_due ok)
  with assms(2) show ?thesis by (simp add: no_clip_def)
qed (use assms(2) in \<open>auto intro!: begin_no_clip simp: message_no_clip relay_no_clip\<close>,
    (use assms(2) in \<open>simp_all add: no_clip_def\<close>))

lemma no_clip_init: "\<not> clipboard_sync cfg \<Longrightarrow> no_clip (tasks_init cfg file port p b)"
  by (simp add: no_clip_def world_init_def)

lemma no_clip_reach: "task_reach w w' \<Longrightarrow> no_clip w \<Longrightarrow> no_clip w'"
  by (induction rule: task_reach.induct) (auto intro: no_clip_step)

section \<open>Two clients\<close>

lemma known_device_paired:
  fixes w :: world and cid :: u64
  defines "w' \<equiv> w\<lparr>phase := (phase w)(cid := Pending), permits_used := permits_used w + 1\<rparr>"
  assumes "phase w cid = Unused" and "is_paired (config (sst w)) fp" and "rate_limiter (sst w) = Map.empty"
    and "permits_used w = 0"
  shows "task_reach (at_rest w) (about_to_join cid fp (sst w) w')"
proof -
  have "server_step w w'"
    unfolding w'_def using assms by (intro server_step.accept) (simp_all add: MAX_PENDING_CONNECTIONS_def)
  then have "task_reach (at_rest w) (at_rest w')" by (rule uninterrupted_step)
  moreover have "task_reach (at_rest w') (about_to_join cid fp (sst w') w')"
    using assms by (intro pairing_reach(1)) (simp_all add: is_rate_limited_def)
  ultimately show ?thesis using task_reach_trans by (auto simp: w'_def)
qed

definition ex_join :: "u64 \<Rightarrow> world \<Rightarrow> world" where
  "ex_join cid w = w\<lparr>sst := register_client cid (sst w),
     phase := (phase w)(cid := Active ''pc'' ''AA'' 0), permits_used := 0\<rparr>"

lemma known_device_joins:
  assumes "phase w cid = Unused" and "is_paired (config (sst w)) ''AA''" and "rate_limiter (sst w) = Map.empty"
    and "permits_used w = 0"
  shows "task_reach (at_rest w) (at_rest (ex_join cid w))"
  using task_reach_trans known_device_paired [OF assms] assms(4)
    joined_reach [where cid = cid and fp = "''AA''" and s = "sst w" and name = "''pc''" and now = 0
      and w = "w\<lparr>phase := (phase w)(cid := Pending), permits_used := permits_used w + 1\<rparr>"]
  by (force simp: ex_join_def)

definition ex_paired :: server_config where
  "ex_paired = add_paired_device 0 ''AA'' ''pc'' (server_config_default None None None)"

definition ex_two :: world where
  "ex_two = ex_join 2 (ex_join 1 (world_init ex_paired Missing DEFAULT_FILE_PORT ''1234'' (Some None)))"

lemma ex_paired_simps: "is_paired ex_paired ''AA''" "\<not> auto_forward ex_paired"
  by (simp_all add: ex_paired_def server_config_default_def add_paired_device_def is_paired_def)

lemma register_client_config [simp]:
  "rate_limiter (register_client cid s) = rate_limiter s" "clipboard_tx (register_client cid s) = clipboard_tx s"
  by (simp_all add: register_client_def queue_to_def Let_def)

lemma ex_two_reach: "task_reach (tasks_init ex_paired Missing DEFAULT_FILE_PORT ''1234'' (Some None)) (at_rest ex_two)"
proof -
  let ?w0 = "world_init ex_paired Missing DEFAULT_FILE_PORT ''1234'' (Some None)"
  have "task_reach (at_rest ?w0) (at_rest (ex_join 1 ?w0))"
    by (rule known_device_joins) (simp_all add: world_init_def ex_paired_simps)
  moreover have "task_reach (at_rest (ex_join 1 ?w0)) (at_rest (ex_join 2 (ex_join 1 ?w0)))"
    by (rule known_device_joins) (simp_all add: ex_join_def world_init_def ex_paired_simps)
  ultimately show ?thesis unfolding ex_two_def by (rule task_reach_trans [rotated])
qed

lemma ex_two_simps:
  "registry (sst ex_two) = [2, 1]" "\<not> forwarding_enabled (sst ex_two)" "outbox (sst ex_two) cid = []"
  "phase ex_two 1 = Active ''pc'' ''AA'' 0" "phase ex_two 2 = Active ''pc'' ''AA'' 0"
  by (simp_all add: ex_two_def ex_join_def world_init_def register_client_def ex_paired_simps)

text \<open>The first of the two switches forwarding on, and the capture callback's relay is not involved.\<close>

lemma ex_two_on:
  "\<exists>w. task_reach (at_rest ex_two) w \<and> joined w 1 \<and> joined w 2 \<and>
     outbox (shared w) 1 = [ToggleForward True] \<and> outbox (shared w) 2 = [ToggleForward True]"
proof -
  let ?w = "ex_two\<lparr>sst := set_forwarding True (sst ex_two), phase := (phase ex_two)(1 := Active ''pc'' ''AA'' 0)\<rparr>"
  have "server_step ex_two ?w"
    by (rule server_step.message [OF ex_two_simps(4), of "ToggleForward True"]) simp
  then have "task_reach (at_rest ex_two) (at_rest ?w)" by (rule uninterrupted_step)
  moreover have "joined (at_rest ?w) 1" "joined (at_rest ?w) 2" by (simp_all add: joined_def ex_two_simps)
  ultimately show ?thesis
    by (intro exI [of _ "at_rest ?w"]) (simp add: set_forwarding_def Let_def ex_two_simps)
qed

section \<open>Properties under every interleaving\<close>

text \<open>
  C1: only paired devices are served, however the tasks interleave. An envelope is queued for a connection
  only if the connection was registered, which it is with a fingerprint that is paired.
\<close>

theorem served_only_if_paired:
  assumes "task_reach (tasks_init cfg file port p b) w" and "outbox (shared w) cid \<noteq> []"
  shows "\<exists>fp. (conn w cid = Joined fp \<or> conn w cid = Left fp) \<and> is_paired (config (shared w)) fp"
proof -
  note inv = task_reach_inv [OF assms(1)]
  have "admitted (conn w cid)" using tasks_invD(4) [OF inv] assms(2) .
  then show ?thesis using admitted_paired [OF inv, of cid] by (cases "conn w cid") auto
qed

theorem served_only_if_paired_witness:
  "\<exists>w fp. task_reach (at_rest ex_two) w \<and> outbox (shared w) 2 \<noteq> [] \<and>
     (conn w 2 = Joined fp \<or> conn w 2 = Left fp) \<and> is_paired (config (shared w)) fp"
proof -
  obtain w where w: "task_reach (at_rest ex_two) w" "outbox (shared w) 2 \<noteq> []" using ex_two_on by force
  show ?thesis
    using served_only_if_paired [OF task_reach_trans [OF w(1) ex_two_reach] w(2)] w by blast
qed

text \<open>
  C16: all clients see the same. Whatever the tasks do between two moments, there is one sequence of
  envelopes (input, clipboard, toggles, goodbye) by which the queue of every client that is
  connected at both has grown, apart from its own pings and pongs, if at the first its registration was over
  (\<open>settled\<close>: the announcement of \<open>auto_forward\<close>, which only the first client gets, is not under way): no
  such client misses a broadcast, gets one twice or in another order.
\<close>

theorem same_broadcasts:
  assumes "task_reach (tasks_init cfg file port p b) w" and "task_reach w w'"
  shows "\<exists>es. \<forall>cid. settled w cid \<and> joined w' cid \<longrightarrow> news w' cid = news w cid @ es"
  using news_reach [OF assms(2) task_reach_inv [OF assms(1)]] by blast

theorem same_broadcasts_witness:
  "\<exists>w es. task_reach (at_rest ex_two) w \<and> es = [ToggleForward True] \<and>
     news w 1 = news (at_rest ex_two) 1 @ es \<and> news w 2 = news (at_rest ex_two) 2 @ es"
proof -
  obtain w where w: "task_reach (at_rest ex_two) w" "joined w 1" "joined w 2"
    "outbox (shared w) 1 = [ToggleForward True]" using ex_two_on by blast
  have s: "settled (at_rest ex_two) 1" "settled (at_rest ex_two) 2"
    by (simp_all add: settled_def joined_def ex_two_simps)
  obtain es where es: "\<forall>cid. settled (at_rest ex_two) cid \<and> joined w cid \<longrightarrow>
      news w cid = news (at_rest ex_two) cid @ es"
    using same_broadcasts [OF ex_two_reach w(1)] by blast
  with s w have "es = [ToggleForward True]" by (auto simp: news_def ex_two_simps)
  with es s w show ?thesis by blast
qed

text \<open>
  With \<open>clipboard_sync\<close> off no clipboard text ever leaves the server, whatever the clients
  send and whatever is copied on the server.
\<close>

theorem no_clipboard_when_off:
  assumes "task_reach (tasks_init cfg file port p b) w" and "\<not> clipboard_sync cfg"
  shows "ClipboardSet x \<notin> set (outbox (shared w) cid)"
  using no_clip_reach [OF assms(1) no_clip_init [OF assms(2)]]
  by (metis is_clip.simps(1) list_all_iff no_clip_def)

theorem no_clipboard_when_off_witness:
  "let cfg = ex_paired\<lparr>clipboard_sync := False\<rparr>;
       w = (tasks_init cfg Missing DEFAULT_FILE_PORT ''1234'' (Some (Some ''old'')))\<lparr>board := (''old'', Some ''new'')\<rparr>
   in task_reach (tasks_init cfg Missing DEFAULT_FILE_PORT ''1234'' (Some (Some ''old''))) w \<and>
      ClipboardSet ''new'' \<notin> set (outbox (shared w) 1)"
proof -
  let ?cfg = "ex_paired\<lparr>clipboard_sync := False\<rparr>"
  let ?w0 = "tasks_init ?cfg Missing DEFAULT_FILE_PORT ''1234'' (Some (Some ''old''))"
  have "task_step ?w0 (?w0\<lparr>board := (fst (board ?w0), Some ''new'')\<rparr>)" by (rule task_step.copied)
  then have r: "task_reach ?w0 (?w0\<lparr>board := (''old'', Some ''new'')\<rparr>)"
    by (intro task_reach.step [OF task_reach.start]) (simp add: world_init_def)
  show ?thesis unfolding Let_def
    using r no_clipboard_when_off [OF r] by simp
qed

section \<open>Races on the forwarding flag\<close>

lemma toggled_dispatch:
  "process_event env ev st = (oc, cs) \<Longrightarrow> toggled oc = Some t \<Longrightarrow> dispatch oc = [ForwardingToggled t]"
  by (frule (1) process_event_toggled_no_forward) (simp add: dispatch_def)

text \<open>
  C39: the clients can be left with the wrong idea of whether input is forwarded. The hotkey switches
  forwarding off; before the relay task has announced it, a client asks for it to be on, which takes
  effect and is announced at once; then the relay announces the older switch. Forwarding is on and
  nothing is left to be sent, but the last that every connected client heard is that it is off.
\<close>

theorem told_off_while_on:
  assumes "phase w cid = Active name fp seen"
    and "forwarding_enabled (sst w)" and "capture_q w = []"
    and "process_event env ev (set_enabled True (capture w)) = (oc, cs)" and "toggled oc = Some False"
  shows "\<exists>w'. server_reach w w' \<and> capture_q w' = [] \<and> forwarding_enabled (sst w') \<and>
    registry (sst w') = registry (sst w) \<and>
    (\<forall>c \<in> set (registry (sst w)).
       outbox (sst w') c = outbox (sst w) c @ [ToggleForward True, Input ReleaseAll, ToggleForward False])"
proof -
  note d = toggled_dispatch [OF assms(4,5)]
  have off: "\<not> is_enabled cs" using process_event_enabled(1) [OF assms(4)] assms(5) by (simp add: is_enabled_def)
  define w1 where "w1 = w\<lparr>capture := cs, capture_q := capture_q w @ dispatch oc,
    sst := (sst w)\<lparr>forwarding_enabled := is_enabled cs\<rparr>\<rparr>"
  define w2 where "w2 = w1\<lparr>sst := set_forwarding True (sst w1), phase := (phase w1)(cid := Active name fp seen)\<rparr>"
  define w3 where "w3 = w2\<lparr>sst := forward_event (ForwardingToggled False) (sst w2), capture_q := []\<rparr>"
  have "server_step w w1" unfolding w1_def
    using assms(2,4) by (intro server_step.captured) simp
  moreover have "server_step w1 w2" unfolding w2_def
    using assms(1) by (intro server_step.message [where e = "ToggleForward True"]) (simp_all add: w1_def)
  moreover have "server_step w2 w3" unfolding w3_def
    using assms(3) d by (intro server_step.forwarded) (simp add: w2_def w1_def)
  ultimately have "server_reach w w3" by (meson server_reach.intros)
  then show ?thesis
    using off by (intro exI [of _ w3]) (simp add: w3_def w2_def w1_def set_forwarding_def Let_def)
qed

theorem told_off_while_on_witness:
  "\<exists>w'. forwarding_enabled (sst w') \<and> capture_q w' = [] \<and>
     server_reach (ex_two\<lparr>sst := (sst ex_two)\<lparr>forwarding_enabled := True\<rparr>,
       capture := capture_start True (Some f12_hotkey)\<rparr>) w' \<and>
     outbox (sst w') 1 = [ToggleForward True, Input ReleaseAll, ToggleForward False] \<and>
     outbox (sst w') 2 = [ToggleForward True, Input ReleaseAll, ToggleForward False]"
proof -
  let ?w = "ex_two\<lparr>sst := (sst ex_two)\<lparr>forwarding_enabled := True\<rparr>, capture := capture_start True (Some f12_hotkey)\<rparr>"
  let ?env = "\<lparr>env_now = 0, env_display = None, env_simulate_ok = True\<rparr>"
  let ?p = "process_event ?env (ET_KeyPress K_F12) (set_enabled True (capture ?w))"
  have "toggled (fst ?p) = Some False" by (simp add: f12_eval set_enabled_def)
  moreover have "capture_q ?w = []" by (simp add: ex_two_def ex_join_def world_init_def)
  ultimately show ?thesis
    using told_off_while_on [of ?w 2 "''pc''" "''AA''" 0 ?env "ET_KeyPress K_F12" "fst ?p" "snd ?p"]
    by (auto simp: ex_two_simps)
qed

text \<open>
  \<open>auto_forward\<close> can leave forwarding off with a client connected. The last client leaves and finds the
  registry empty; before its task turns forwarding off, a new client is registered as the first and
  finds forwarding on; then it is turned off. The new client is connected, alone, and is told nothing.
\<close>

theorem auto_forward_lost:
  assumes "conn w a = Joined fpa" and "todo w (Conn a) = []" and "registry (shared w) = [a]"
    and "conn w b = Unpaired" and "todo w (Conn b) = [Join b fpb]"
    and "auto_forward (config (shared w))" and "forwarding_enabled (shared w)"
  shows "\<exists>w'. task_reach w w' \<and> conn w' b = Joined fpb \<and> registry (shared w') = [b] \<and>
    todo w' = (todo w)(Conn b := []) \<and> \<not> forwarding_enabled (shared w') \<and> outbox (shared w') b = outbox (shared w) b"
proof -
  have ab: "a \<noteq> b" using assms(1,4) by auto
  let ?v = "begin_task (Conn a) [Leave a fpa] w"
  define w1 where "w1 = run_task (Conn a) ?v"
  define w2 where "w2 = (run_task (Conn b) ^^ 4) w1"
  define w3 where "w3 = (run_task (Conn a) ^^ 3) w2"
  have w1: "shared w1 = (shared w)\<lparr>registry := []\<rparr>" "conn w1 = (conn w)(a := Left fpa)"
    "todo w1 = (todo w)(Conn a := [AutoOff, QueueOwn a Goodbye])"
    using assms(3) by (simp_all add: w1_def Let_def)
  have w2: "shared w2 = (shared w)\<lparr>registry := [b]\<rparr>" "conn w2 = (conn w)(a := Left fpa, b := Joined fpb)"
    "todo w2 = (todo w)(Conn a := [AutoOff, QueueOwn a Goodbye], Conn b := [])"
    using assms(5-7) ab by (simp_all add: w2_def eval_nat_numeral w1 Let_def)
  have w3: "shared w3 = queue_to a Goodbye ((shared w)\<lparr>registry := [b], forwarding_enabled := False\<rparr>)"
    "conn w3 = (conn w)(a := Left fpa, b := Joined fpb)" "todo w3 = (todo w)(Conn a := [], Conn b := [])"
    using assms(6) ab by (simp_all add: w3_def eval_nat_numeral w2 fun_upd_twist)
  have "task_step w ?v" using assms(1,2) by (rule task_step.hung_up)
  moreover have "task_reach ?v w1" unfolding w1_def by (rule task_reach_run)
  moreover have "task_reach w1 w2" "task_reach w2 w3" unfolding w3_def w2_def by (rule task_reach_runs)+
  ultimately have "task_reach w w3" using task_reach_step task_reach_trans by meson
  then show ?thesis
    using ab assms(2) by (intro exI [of _ w3]) (simp add: w3 fun_upd_idem)
qed

theorem auto_forward_lost_witness:
  "\<exists>w. task_reach (tasks_init (ex_paired\<lparr>auto_forward := True\<rparr>) Missing DEFAULT_FILE_PORT ''1234'' (Some None)) w \<and>
     conn w 2 = Joined ''AA'' \<and> registry (shared w) = [2] \<and> \<not> forwarding_enabled (shared w)"
proof -
  let ?cfg = "ex_paired\<lparr>auto_forward := True\<rparr>"
  let ?w0 = "world_init ?cfg Missing DEFAULT_FILE_PORT ''1234'' (Some None)"
  let ?w1 = "ex_join 1 ?w0"
  let ?w2 = "?w1\<lparr>phase := (phase ?w1)(2 := Pending), permits_used := permits_used ?w1 + 1\<rparr>"
  let ?v = "about_to_join 2 ''AA'' (sst ?w1) ?w2"
  have known: "is_paired ?cfg ''AA''" using ex_paired_simps(1) by (simp add: is_paired_def)
  then have "task_reach (at_rest ?w0) (at_rest ?w1)"
    by (intro known_device_joins) (simp_all add: world_init_def)
  moreover have "task_reach (at_rest ?w1) ?v"
    using known by (intro known_device_paired) (simp_all add: ex_join_def world_init_def)
  moreover have "\<exists>w'. task_reach ?v w' \<and> conn w' 2 = Joined ''AA'' \<and> registry (shared w') = [2] \<and>
    todo w' = (todo ?v)(Conn 2 := []) \<and> \<not> forwarding_enabled (shared w') \<and> outbox (shared w') 2 = outbox (shared ?v) 2"
    by (rule auto_forward_lost [of _ 1 "''AA''"])
      (simp_all add: ex_join_def world_init_def register_client_def queue_to_def Let_def)
  ultimately show ?thesis using task_reach_trans by meson
qed

end
