(* ===== verification/ControlPort.thy ===== *)
theory ControlPort
  imports Interleaving GuessRace
begin

text \<open>
  Admission to the control port under the interleavings of \<open>Tasks\<close>: the permits of the semaphore bound the connections
  that are not paired yet, and with that bound every run of the server is a run of the guesses in flight of
  \<open>GuessRace\<close>, so that the speed at which a PIN can be guessed in parallel is limited.
\<close>

section \<open>Permits\<close>

text \<open>What a connection holds of the semaphore: its permit until it is paired, and then until it is dropped.\<close>

definition held :: "tasks \<Rightarrow> u64 \<Rightarrow> nat" where
  "held w cid = of_bool (conn w cid = Unpaired) + count_list (todo w (Conn cid)) (DropPermit cid)"

definition semaphore_inv :: "tasks \<Rightarrow> bool" where
  "semaphore_inv w \<longleftrightarrow> permits w = (\<Sum>cid\<in>UNIV. held w cid) \<and> permits w \<le> MAX_PENDING_CONNECTIONS"

lemma held_elsewhere:
  assumes "\<And>c. c \<noteq> cid \<Longrightarrow> held w' c = held w c"
  shows "(\<Sum>c\<in>UNIV. held w' c) + held w cid = (\<Sum>c\<in>UNIV. held w c) + held w' cid"
proof -
  have "(\<Sum>c\<in>UNIV. held v c) = held v cid + (\<Sum>c\<in>UNIV - {cid}. held v c)" for v
    by (rule sum.remove) simp_all
  moreover have "(\<Sum>c\<in>UNIV - {cid}. held w' c) = (\<Sum>c\<in>UNIV - {cid}. held w c)"
    using assms by (intro sum.cong) auto
  ultimately show ?thesis by simp
qed

lemma semaphore_inv_move:
  assumes "semaphore_inv w" and "\<And>c. c \<noteq> cid \<Longrightarrow> held w' c = held w c"
    and "permits w' + held w cid = permits w + held w' cid" and "permits w' \<le> MAX_PENDING_CONNECTIONS"
  shows "semaphore_inv w'"
  using assms held_elsewhere [of cid w' w] by (simp add: semaphore_inv_def)

lemma semaphore_inv_same:
  assumes "semaphore_inv w" and "\<And>c. held w' c = held w c" and "permits w' = permits w"
  shows "semaphore_inv w'"
  using assms by (simp add: semaphore_inv_def)

lemma held_le: "semaphore_inv w \<Longrightarrow> held w cid \<le> permits w"
  by (auto simp: semaphore_inv_def intro: member_le_sum)

text \<open>Accesses that have nothing to do with a permit.\<close>

fun permitless :: "access \<Rightarrow> bool" where
  "permitless (Refuse cid) = False"
| "permitless (Join cid fp) = False"
| "permitless (access.Leave cid fp) = False"
| "permitless (DropPermit cid) = False"
| "permitless _ = True"

lemma exec_permitless:
  assumes "permitless a"
  shows "permits (fst (exec a w)) = permits w" "conn (fst (exec a w)) = conn w"
    "count_list (snd (exec a w)) (DropPermit cid) = 0"
  using assms
  by (cases a; auto simp: Let_def accept_new_device_def split: option.splits list.splits prod.splits
      intro!: count_notin)+

lemma message_no_drop: "count_list (message_accesses cid fp e) (DropPermit c) = 0"
  by (cases e) auto

lemma semaphore_inv_access:
  assumes inv: "tasks_inv w" and p: "semaphore_inv w" and a: "todo w t = a # rest"
  shows "semaphore_inv (run_task t w)"
proof (cases "permitless a")
  case True
  with a show ?thesis
    by (intro semaphore_inv_same [OF p]) (auto simp: held_def exec_permitless [OF True] count_list_append)
next
  case False
  have bg: "\<exists>cid. t = Conn cid"
    using tasks_invD(3) [OF inv, of t] a False by (cases a) auto
  then obtain cid where t: "t = Conn cid" by blast
  have ok: "conn_ok (is_paired (config (shared w))) cid (conn w cid) (a # rest)"
    using tasks_invD(2) [OF inv, of cid] a t by simp
  note le = held_le [OF p, of cid]
  have max: "permits w \<le> MAX_PENDING_CONNECTIONS" using p by (simp add: semaphore_inv_def)
  show ?thesis
  proof (cases a)
    case (Refuse c)
    with ok have "conn w cid = Unpaired" "c = cid" "rest = []" by (cases "conn w cid"; auto simp: pairing_def)+
    with a t Refuse le max show ?thesis
      by (intro semaphore_inv_move [OF p, of cid]) (auto simp: held_def)
  next
    case (Join c fp)
    with ok have "conn w cid = Unpaired" "c = cid" "rest = []" by (cases "conn w cid"; auto simp: pairing_def)+
    with a t Join max show ?thesis
      by (intro semaphore_inv_move [OF p, of cid]) (auto simp: held_def Let_def)
  next
    case (Leave c fp)
    with ok have "conn w cid = Joined fp" "c = cid" "rest = []" by (cases "conn w cid"; auto simp: pairing_def)+
    with a t Leave max show ?thesis
      by (intro semaphore_inv_move [OF p, of cid]) (auto simp: held_def Let_def)
  next
    case (DropPermit c)
    with ok have "c = cid" by (cases "conn w cid"; auto simp: pairing_def)
    with a t DropPermit le max show ?thesis
      by (intro semaphore_inv_move [OF p, of cid]) (auto simp: held_def)
  qed (use False in auto)
qed

lemma semaphore_inv_begin:
  assumes "semaphore_inv w" and "todo w t = []" and "\<And>cid. t = Conn cid \<Longrightarrow> count_list as (DropPermit cid) = 0"
  shows "semaphore_inv (begin_task t as w)"
  using assms by (intro semaphore_inv_same [OF assms(1)]) (auto simp: held_def)

lemma semaphore_inv_step:
  assumes "task_step w w'" and inv: "tasks_inv w" and p: "semaphore_inv w"
  shows "semaphore_inv w'"
  using assms(1)
proof (cases rule: task_step.cases)
  case (accepted cid)
  then show ?thesis by (intro semaphore_inv_move [OF p, of cid]) (auto simp: held_def)
next
  case (given_up cid)
  with held_le [OF p, of cid] p show ?thesis
    by (intro semaphore_inv_move [OF p, of cid]) (auto simp: held_def semaphore_inv_def)
next
  case (relayed m ms)
  have "semaphore_inv (w\<lparr>captured_q := ms\<rparr>)" using p by (intro semaphore_inv_same [OF p]) (simp_all add: held_def)
  with relayed show ?thesis by (auto intro: semaphore_inv_begin)
next
  case (access t)
  then obtain a rest where "todo w t = a # rest" by (cases "todo w t") auto
  with access semaphore_inv_access [OF inv p] show ?thesis by blast
next
  case (received cid fp e)
  with p show ?thesis by (auto intro: semaphore_inv_begin simp: message_no_drop)
next
  case (copied b)
  then show ?thesis by (intro semaphore_inv_same [OF p]) (simp_all add: held_def)
next
  case (time_passes now)
  then show ?thesis by (intro semaphore_inv_same [OF p]) (simp_all add: held_def)
qed (use p in \<open>auto intro!: semaphore_inv_begin\<close>)

lemma semaphore_inv_init: "semaphore_inv (tasks_init cfg file port p b)"
  by (simp add: semaphore_inv_def held_def world_init_def)

lemma unpaired_le_permits: "semaphore_inv w \<Longrightarrow> card {cid. conn w cid = Unpaired} \<le> permits w"
proof -
  assume p: "semaphore_inv w"
  have "card {cid. conn w cid = Unpaired} = (\<Sum>cid\<in>UNIV. of_bool (conn w cid = Unpaired))"
    by (simp add: of_bool_def sum.If_cases)
  also have "\<dots> \<le> (\<Sum>cid\<in>UNIV. held w cid)" by (rule sum_mono) (simp add: held_def)
  finally show ?thesis using p by (simp add: semaphore_inv_def)
qed

section \<open>Guesses\<close>

text \<open>
  The guess events of an access: the question to the limiter, the verdict that the guess was wrong, and a right
  one (or a device that is known already).
\<close>

fun guess_of :: "task \<Rightarrow> access \<Rightarrow> tasks \<Rightarrow> guess_event list" where
  "guess_of t (AskLimiter env cid ip name nonce fp pf) w =
     (if is_rate_limited (clock w) (rate_limiter (shared w)) ip then [] else [Check (clock w) (unat cid) ip])"
| "guess_of t (AskPaired env cid ip name nonce fp pf) w =
     (if is_paired (config (shared w)) fp \<or> proof_matches (pairing_proof (he_sha env) (pin (shared w)) nonce fp) pf
      then [guess_event.Leave (unat cid)] else [])"
| "guess_of (Conn cid) (CountFailure env ip) w = [Wrong (clock w) (unat cid)]"
| "guess_of _ _ w = []"

text \<open>
  The guesses themselves: a proof that is compared with the PIN and found wrong. The log is read off the access that
  compares, not off the limiter.
\<close>

fun wrong_guess :: "access \<Rightarrow> tasks \<Rightarrow> (millis \<times> ip_addr) list" where
  "wrong_guess (AskPaired env cid ip name nonce fp pf) w =
     (if is_paired (config (shared w)) fp \<or> proof_matches (pairing_proof (he_sha env) (pin (shared w)) nonce fp) pf
      then [] else [(clock w, ip)])"
| "wrong_guess _ w = []"

text \<open>
  Runs of the server with the log of wrong guesses, in which the clock does not go back. A step that is not an access
  compares nothing.
\<close>

inductive logged_run :: "tasks \<Rightarrow> (millis \<times> ip_addr) list \<Rightarrow> tasks \<Rightarrow> bool" for w0 where
  no_guess: "logged_run w0 [] w0"
| by_access: "logged_run w0 gs w \<Longrightarrow> todo w t = a # rest \<Longrightarrow> logged_run w0 (gs @ wrong_guess a w) (run_task t w)"
| by_event: "logged_run w0 gs w \<Longrightarrow> task_step w w' \<Longrightarrow> \<forall>t. todo w t \<noteq> [] \<longrightarrow> w' \<noteq> run_task t w \<Longrightarrow>
    clock w \<le> clock w' \<Longrightarrow> logged_run w0 gs w'"

lemma exec_clock: "clock (fst (exec a w)) = clock w"
  by (cases a) (auto simp: Let_def split: option.splits list.splits prod.splits)

text \<open>Every run in which the clock does not go back has its log.\<close>

inductive steady_reach :: "tasks \<Rightarrow> tasks \<Rightarrow> bool" for w0 where
  steady_start: "steady_reach w0 w0"
| steady_step: "steady_reach w0 w \<Longrightarrow> task_step w w' \<Longrightarrow> clock w \<le> clock w' \<Longrightarrow> steady_reach w0 w'"

lemma steady_logged: "steady_reach w0 w \<Longrightarrow> \<exists>gs. logged_run w0 gs w"
proof (induction rule: steady_reach.induct)
  case (steady_step w w')
  then obtain gs where gs: "logged_run w0 gs w" by blast
  show ?case
  proof (cases "\<exists>t. todo w t \<noteq> [] \<and> w' = run_task t w")
    case True
    then obtain t a rest where "todo w t = a # rest" "w' = run_task t w" by (metis neq_Nil_conv)
    with logged_run.by_access [OF gs] show ?thesis by blast
  next
    case False
    with logged_run.by_event [OF gs] steady_step show ?thesis by blast
  qed
qed (blast intro: logged_run.no_guess)

section \<open>The guesses are those of the race\<close>

fun awaited :: "access list \<Rightarrow> ip_addr option" where
  "awaited (AskPaired env cid ip name nonce fp pf # as) = Some ip"
| "awaited (CountFailure env ip # as) = Some ip"
| "awaited _ = None"

definition waiting_ok :: "tasks \<Rightarrow> race \<Rightarrow> bool" where
  "waiting_ok w r \<longleftrightarrow> lim r = rate_limiter (shared w) \<and>
     (\<forall>cid. map_of (in_flight r) (unat cid) = awaited (todo w (Conn cid))) \<and>
     distinct (map fst (in_flight r)) \<and> fst ` set (in_flight r) \<subseteq> range (unat :: u64 \<Rightarrow> nat)"

definition race_ok :: "tasks \<Rightarrow> guess_event list \<Rightarrow> bool" where
  "race_ok w es \<longleftrightarrow> clocked 0 es \<and> clock_after 0 es \<le> clock w \<and> capped MAX_PENDING_CONNECTIONS es race_start \<and>
     waiting_ok w (race_run es race_start)"

lemma awaited_unpaired:
  assumes "tasks_inv w" and "awaited (todo w (Conn cid)) \<noteq> None"
  shows "conn w cid = Unpaired"
  using tasks_invD(2) [OF assms(1), of cid] assms(2)
  by (cases "conn w cid"; cases "todo w (Conn cid)" rule: awaited.cases) auto

text \<open>No more connections are in flight than there are permits.\<close>

lemma in_flight_bound:
  assumes inv: "tasks_inv w" and p: "semaphore_inv w" and ok: "waiting_ok w r"
  shows "length (in_flight r) \<le> MAX_PENDING_CONNECTIONS"
proof -
  have "fst ` set (in_flight r) \<subseteq> unat ` {cid. conn w cid = Unpaired}"
  proof
    fix n assume n: "n \<in> fst ` set (in_flight r)"
    with ok obtain cid :: u64 where cid: "n = unat cid" by (auto simp: waiting_ok_def)
    from n have "map_of (in_flight r) n \<noteq> None" by (simp add: map_of_eq_None_iff)
    with ok cid have "awaited (todo w (Conn cid)) \<noteq> None" by (simp add: waiting_ok_def)
    with awaited_unpaired [OF inv] cid show "n \<in> unat ` {cid. conn w cid = Unpaired}" by blast
  qed
  then have "card (fst ` set (in_flight r)) \<le> card (unat ` {cid. conn w cid = Unpaired})"
    by (intro card_mono) simp_all
  also have "\<dots> \<le> card {cid. conn w cid = Unpaired}" by (rule card_image_le) simp
  also have "\<dots> \<le> MAX_PENDING_CONNECTIONS"
    using unpaired_le_permits [OF p] p by (simp add: semaphore_inv_def)
  finally show ?thesis
    using ok distinct_card [of "map fst (in_flight r)"] by (simp add: waiting_ok_def)
qed

lemma race_ok_events:
  assumes race: "race_ok w es" and inv: "tasks_inv w'" "semaphore_inv w'" and le: "clock w \<le> clock w'"
    and fs: "fs = [] \<or> (\<exists>e. fs = [e] \<and> (\<forall>t. time_of e = Some t \<longrightarrow> t = clock w))"
    and ok: "waiting_ok w' (race_run fs (race_run es race_start))"
  shows "race_ok w' (es @ fs)"
proof -
  have len: "length (in_flight (race_run fs (race_run es race_start))) \<le> MAX_PENDING_CONNECTIONS"
    using in_flight_bound [OF inv ok] .
  have "capped MAX_PENDING_CONNECTIONS es race_start" using race by (simp add: race_ok_def)
  then have "capped MAX_PENDING_CONNECTIONS (es @ fs) race_start"
    using fs len by (auto simp: capped_append) (auto dest: capped_end)
  with assms show ?thesis
    by (auto simp: race_ok_def clocked_append clock_after_append race_run_append split: option.splits)
qed

lemma exec_limiter: "\<forall>env ip. a \<noteq> CountFailure env ip \<Longrightarrow> rate_limiter (shared (fst (exec a w))) = rate_limiter (shared w)"
  by (cases a)
    (auto simp: Let_def broadcast_def queue_to_def accept_new_device_def split: option.splits list.splits prod.splits)

lemma awaited_serving: "list_all (serving cid) as \<Longrightarrow> awaited as = None"
  by (cases as rule: awaited.cases) auto

lemma awaited_leaving: "list_all (leaving cid) as \<Longrightarrow> awaited as = None"
  by (cases as rule: awaited.cases) auto

text \<open>After an access other than the three of a guess nobody waits for a verdict on it.\<close>

fun guessing :: "access \<Rightarrow> bool" where
  "guessing (AskLimiter env cid ip name nonce fp pf) = True"
| "guessing (AskPaired env cid ip name nonce fp pf) = True"
| "guessing (CountFailure env ip) = True"
| "guessing _ = False"

lemma guess_of_other: "\<not> guessing a \<Longrightarrow> guess_of t a w = []"
  by (cases "(t, a, w)" rule: guess_of.cases) auto

lemma awaited_other:
  assumes "tasks_inv w" and "todo w (Conn cid) = a # rest" and "\<not> guessing a"
  shows "awaited (todo w (Conn cid)) = None" "awaited (snd (exec a w) @ rest) = None"
proof -
  have ok: "conn_ok (is_paired (config (shared w))) cid (conn w cid) (a # rest)"
    using tasks_invD(2) [OF assms(1), of cid] assms(2) by simp
  show "awaited (todo w (Conn cid)) = None" using assms(2,3) by (cases a) auto
  show "awaited (snd (exec a w) @ rest) = None"
  proof (cases "conn w cid")
    case Unpaired
    with ok assms(3) show ?thesis by (auto simp: pairing_def Let_def)
  next
    case (Joined fp)
    then consider "list_all (serving cid) (a # rest)" | "a = access.Leave cid fp" "rest = []" using ok by auto
    then show ?thesis
    proof cases
      case 1
      then have "list_all (serving cid) (snd (exec a w) @ rest)" using exec_serving by auto
      then show ?thesis by (rule awaited_serving)
    qed (simp add: Let_def)
  next
    case (Left fp)
    then have "list_all (leaving cid) (snd (exec a w) @ rest)" using ok exec_leaving by auto
    then show ?thesis by (rule awaited_leaving)
  qed (use ok in auto)
qed

lemma waiting_ok_same:
  assumes "waiting_ok w r" and "rate_limiter (shared w') = rate_limiter (shared w)"
    and "\<And>cid. awaited (todo w' (Conn cid)) = awaited (todo w (Conn cid))"
  shows "waiting_ok w' r"
  using assms by (simp add: waiting_ok_def)

lemma waiting_ok_move:
  assumes "waiting_ok w r" and "rate_limiter (shared w') = lim r'"
    and "map_of (in_flight r') = (map_of (in_flight r))(unat (cid :: u64) := x)" and "awaited (todo w' (Conn cid)) = x"
    and "\<And>c. c \<noteq> cid \<Longrightarrow> todo w' (Conn c) = todo w (Conn c)"
    and "distinct (map fst (in_flight r'))"
  shows "waiting_ok w' r'"
proof -
  have "fst ` set (in_flight r') \<subseteq> range (unat :: u64 \<Rightarrow> nat)"
  proof
    fix n assume "n \<in> fst ` set (in_flight r')"
    then have "map_of (in_flight r') n \<noteq> None" by (simp add: map_of_eq_None_iff)
    then have "n = unat cid \<or> map_of (in_flight r) n \<noteq> None" using assms(3) by (auto split: if_splits)
    then show "n \<in> range (unat :: u64 \<Rightarrow> nat)"
      using assms(1) by (auto simp: waiting_ok_def map_of_eq_None_iff)
  qed
  moreover have "map_of (in_flight r') (unat c) = awaited (todo w' (Conn c))" for c
  proof (cases "c = cid")
    case True
    with assms(3,4) show ?thesis by simp
  next
    case False
    then have "unat c \<noteq> unat cid" by (simp add: word_unat_eq_iff)
    with False assms(1,3,5) show ?thesis by (simp add: waiting_ok_def)
  qed
  ultimately show ?thesis using assms(2,6) by (simp add: waiting_ok_def)
qed

text \<open>The accesses of a guess belong to the task of the connection that guesses.\<close>

lemma guessing_task:
  assumes "tasks_inv w" and "todo w t = a # rest" and "guessing a"
  obtains (ask) cid env ip name nonce fp pf where "t = Conn cid" and "a = AskLimiter env cid ip name nonce fp pf" and "rest = []"
  | (paired) cid env ip name nonce fp pf where "t = Conn cid" and "a = AskPaired env cid ip name nonce fp pf" and "rest = []"
  | (wrong) cid env ip where "t = Conn cid" and "a = CountFailure env ip" and "rest = [Refuse cid]"
proof -
  have "\<exists>cid. t = Conn cid" using tasks_invD(3) [OF assms(1), of t] assms(2,3) by (cases a) auto
  then obtain cid where t: "t = Conn cid" by blast
  have "conn_ok (is_paired (config (shared w))) cid (conn w cid) (a # rest)"
    using tasks_invD(2) [OF assms(1), of cid] assms(2) t by simp
  with assms(3) show ?thesis
    by (cases "conn w cid"; cases a) (auto simp: pairing_def intro: that t)
qed

lemma waiting_ok_guess:
  assumes inv: "tasks_inv w" and a: "todo w t = a # rest" and ok: "waiting_ok w r"
  shows "waiting_ok (run_task t w) (race_run (guess_of t a w) r)"
proof (cases "guessing a")
  case False
  have "awaited (todo (run_task t w) (Conn cid)) = awaited (todo w (Conn cid))" for cid
    using awaited_other [OF inv _ False] a by (cases "t = Conn cid") simp_all
  moreover have "rate_limiter (shared (run_task t w)) = rate_limiter (shared w)"
    using a False exec_limiter [of a w] by (cases a) auto
  ultimately show ?thesis using waiting_ok_same [OF ok] by (simp add: guess_of_other [OF False])
next
  case True
  have r: "lim r = rate_limiter (shared w)" "distinct (map fst (in_flight r))"
    and look: "\<And>cid. map_of (in_flight r) (unat cid) = awaited (todo w (Conn cid))"
    using ok by (simp_all add: waiting_ok_def)
  from inv a True show ?thesis
  proof (cases rule: guessing_task)
    case (ask cid env ip name nonce fp pf)
    have none: "map_of (in_flight r) (unat cid) = None" using look [of cid] a ask by simp
    show ?thesis
    proof (cases "is_rate_limited (clock w) (rate_limiter (shared w)) ip")
      case True
      with a ask have "waiting_ok (run_task t w) r" by (intro waiting_ok_same [OF ok]) auto
      with ask True show ?thesis by simp
    next
      case False
      have "map_of (in_flight r @ [(unat cid, ip)]) = (map_of (in_flight r))(unat cid \<mapsto> ip)"
        using none by (auto simp: fun_eq_iff map_add_def split: option.split)
      moreover have "unat cid \<notin> fst ` set (in_flight r)" using none by (simp add: map_of_eq_None_iff)
      ultimately show ?thesis
        using a ask False r by (intro waiting_ok_move [OF ok, where cid = cid]) auto
    qed
  next
    case (paired cid env ip name nonce fp pf)
    show ?thesis
    proof (cases "is_paired (config (shared w)) fp \<or> proof_matches (pairing_proof (he_sha env) (pin (shared w)) nonce fp) pf")
      case True
      with a paired r show ?thesis
        by (intro waiting_ok_move [OF ok, where cid = cid and x = None]) (auto simp: map_of_leave distinct_leave)
    next
      case False
      with a paired have "waiting_ok (run_task t w) r" by (intro waiting_ok_same [OF ok]) auto
      with paired False show ?thesis by simp
    qed
  next
    case (wrong cid env ip)
    then have some: "map_of (in_flight r) (unat cid) = Some ip" using look [of cid] a by simp
    with a wrong r show ?thesis
      by (intro waiting_ok_move [OF ok, where cid = cid and x = None]) (auto simp: map_of_leave distinct_leave)
  qed
qed

lemma waiting_ok_event:
  assumes step: "task_step w w'" and other: "\<forall>t. todo w t \<noteq> [] \<longrightarrow> w' \<noteq> run_task t w" and ok: "waiting_ok w r"
  shows "waiting_ok w' r"
  using step
proof (cases rule: task_step.cases)
  case (access t)
  with other show ?thesis by blast
next
  case (received cid fp e)
  have "awaited (message_accesses cid fp e) = None" by (cases e) auto
  with received ok show ?thesis by (intro waiting_ok_same [OF ok]) auto
qed (use ok in \<open>auto intro!: waiting_ok_same [OF ok]\<close>)

lemma guess_of_time: "guess_of t a w = [] \<or> (\<exists>e. guess_of t a w = [e] \<and> (\<forall>u. time_of e = Some u \<longrightarrow> u = clock w))"
  by (cases "(t, a, w)" rule: guess_of.cases) auto

section \<open>The log\<close>

text \<open>
  The connections whose wrong guess was compared but not yet counted. Every guess in the log has been counted at its
  time or later, or is one of those.
\<close>

fun counting :: "access list \<Rightarrow> ip_addr option" where
  "counting (CountFailure env ip # as) = Some ip"
| "counting _ = None"

definition uncounted :: "ip_addr \<Rightarrow> tasks \<Rightarrow> nat" where
  "uncounted ip w = card {cid. counting (todo w (Conn cid)) = Some ip}"

definition tallied :: "(millis \<times> ip_addr) list \<Rightarrow> tasks \<Rightarrow> race \<Rightarrow> bool" where
  "tallied gs w r \<longleftrightarrow> (\<forall>x \<in> set gs. fst x \<le> clock w) \<and>
     (\<forall>ip t. length (filter ((\<le>) t) (times_of ip gs)) \<le>
        length (filter ((\<le>) t) (missed ip r)) + uncounted ip w)"

definition within_limit :: "(millis \<times> ip_addr) list \<Rightarrow> bool" where
  "within_limit gs \<longleftrightarrow> (\<forall>ip t. length (filter (\<lambda>u. t \<le> u \<and> u < t + RATE_LIMIT_WINDOW) (times_of ip gs))
     \<le> MAX_PENDING_CONNECTIONS + 4)"

lemma counting_awaited: "counting as = Some ip \<Longrightarrow> awaited as = Some ip"
  by (cases as rule: counting.cases) auto

lemma awaited_counting: "awaited as = None \<Longrightarrow> counting as = None"
  using counting_awaited by (cases "counting as") auto

lemma uncounted_same:
  "(\<And>cid. counting (todo w' (Conn cid)) = counting (todo w (Conn cid))) \<Longrightarrow> uncounted ip w' = uncounted ip w"
  by (simp add: uncounted_def)

lemma uncounted_add:
  assumes "counting (todo w (Conn cid)) = None" and "counting (todo w' (Conn cid)) = Some i"
    and "\<And>c. c \<noteq> cid \<Longrightarrow> todo w' (Conn c) = todo w (Conn c)"
  shows "uncounted ip w' = uncounted ip w + of_bool (ip = i)"
proof -
  have "{c. counting (todo w' (Conn c)) = Some ip} =
      (if ip = i then insert cid {c. counting (todo w (Conn c)) = Some ip} else {c. counting (todo w (Conn c)) = Some ip})"
    using assms by (auto split: if_splits) (metis option.distinct(1) option.inject)+
  then show ?thesis using assms(1) by (simp add: uncounted_def)
qed

lemma uncounted_le_flying:
  assumes "waiting_ok w r"
  shows "uncounted ip w \<le> flying ip r"
proof -
  let ?S = "{cid. counting (todo w (Conn cid)) = Some ip}"
  have "(unat cid, ip) \<in> set (in_flight r)" if "cid \<in> ?S" for cid
  proof -
    from that have "awaited (todo w (Conn cid)) = Some ip" by (simp add: counting_awaited)
    with assms have "map_of (in_flight r) (unat cid) = Some ip" by (simp add: waiting_ok_def)
    then show ?thesis by (rule map_of_SomeD)
  qed
  then have "(\<lambda>cid. (unat cid, ip)) ` ?S \<subseteq> set (filter (\<lambda>x. snd x = ip) (in_flight r))" by auto
  then have "card ((\<lambda>cid. (unat cid, ip)) ` ?S) \<le> card (set (filter (\<lambda>x. snd x = ip) (in_flight r)))"
    by (intro card_mono) simp_all
  also have "\<dots> \<le> flying ip r" unfolding flying_def by (rule card_length)
  finally show ?thesis
    by (subst (asm) card_image) (auto simp: inj_on_def word_unat_eq_iff uncounted_def)
qed

text \<open>Outside accesses nobody begins or ends to be counted.\<close>

lemma counting_event:
  assumes step: "task_step w w'" and other: "\<forall>t. todo w t \<noteq> [] \<longrightarrow> w' \<noteq> run_task t w"
  shows "counting (todo w' (Conn cid)) = counting (todo w (Conn cid))"
  using step
proof (cases rule: task_step.cases)
  case (access t)
  with other show ?thesis by blast
next
  case (received cid fp e)
  have "counting (message_accesses cid fp e) = None" by (cases e) auto
  with received show ?thesis by auto
qed auto

lemma tallied_same:
  assumes "tallied gs w r" and "clock w \<le> clock w'"
    and "\<And>cid. counting (todo w' (Conn cid)) = counting (todo w (Conn cid))" and "\<And>ip. missed ip r' = missed ip r"
  shows "tallied gs w' r'"
  using assms uncounted_same [OF assms(3)] unfolding tallied_def by (metis le_trans)

text \<open>A guess or a failure counted at the present time.\<close>

lemma tallied_now:
  assumes t: "tallied gs w r" and "clock w' = clock w" and gs': "\<forall>x \<in> set gs'. fst x \<le> clock w"
    and now: "\<And>ip t. t \<le> clock w \<Longrightarrow> length (filter ((\<le>) t) (times_of ip gs')) + length (filter ((\<le>) t) (missed ip r)) + uncounted ip w \<le>
      length (filter ((\<le>) t) (times_of ip gs)) + length (filter ((\<le>) t) (missed ip r')) + uncounted ip w'"
  shows "tallied gs' w' r'"
proof -
  have "length (filter ((\<le>) t) (times_of ip gs')) \<le> length (filter ((\<le>) t) (missed ip r')) + uncounted ip w'" for ip t
  proof (cases "t \<le> clock w")
    case True
    moreover have "length (filter ((\<le>) t) (times_of ip gs)) \<le> length (filter ((\<le>) t) (missed ip r)) + uncounted ip w"
      using t by (simp add: tallied_def)
    ultimately show ?thesis using now [OF True, of ip] by linarith
  next
    case False
    with gs' have "filter ((\<le>) t) (times_of ip gs') = []" by (auto simp: times_of_def filter_empty_conv)
    then show ?thesis by simp
  qed
  with assms(2) gs' show ?thesis by (simp add: tallied_def)
qed

lemma tallied_access:
  assumes inv: "tasks_inv w" and a: "todo w t = a # rest" and ok: "waiting_ok w r" and tl: "tallied gs w r"
  shows "tallied (gs @ wrong_guess a w) (run_task t w) (race_run (guess_of t a w) r)"
proof -
  have clock: "clock (run_task t w) = clock w" using a by (simp add: exec_clock)
  have past: "\<forall>x \<in> set gs. fst x \<le> clock w" using tl by (simp add: tallied_def)
  show ?thesis
  proof (cases "guessing a")
    case False
    then have "wrong_guess a w = []" by (cases a) auto
    moreover have "counting (todo (run_task t w) (Conn cid)) = counting (todo w (Conn cid))" for cid
      using awaited_other [OF inv _ False, THEN awaited_counting] a by (cases "t = Conn cid") auto
    ultimately show ?thesis
      using clock by (simp add: guess_of_other [OF False] tallied_same [OF tl])
  next
    case True
    from inv a True show ?thesis
    proof (cases rule: guessing_task)
      case (ask cid env ip name nonce fp pf)
      with a clock show ?thesis by (auto simp: missed_def intro!: tallied_same [OF tl])
    next
      case (paired cid env ip name nonce fp pf)
      let ?ok = "is_paired (config (shared w)) fp \<or> proof_matches (pairing_proof (he_sha env) (pin (shared w)) nonce fp) pf"
      show ?thesis
      proof (cases ?ok)
        case True
        with a paired clock show ?thesis by (auto simp: missed_def leave_def intro!: tallied_same [OF tl])
      next
        case False
        with a paired have u: "uncounted i (run_task t w) = uncounted i w + of_bool (i = ip)" for i
          by (intro uncounted_add [of _ cid]) auto
        have "tallied (gs @ [(clock w, ip)]) (run_task t w) r"
          by (rule tallied_now [OF tl clock]) (use past in \<open>auto simp: u times_of_def\<close>)
        with paired False show ?thesis by simp
      qed
    next
      case (wrong cid env ip)
      then have some: "map_of (in_flight r) (unat cid) = Some ip" using ok a by (simp add: waiting_ok_def)
      have "uncounted i w = uncounted i (run_task t w) + of_bool (i = ip)" for i
        using a wrong by (intro uncounted_add [of _ cid]) auto
      then have "tallied gs (run_task t w) (race_step (Wrong (clock w) (unat cid)) r)"
        by (intro tallied_now [OF tl clock past]) (auto simp: some missed_def times_of_def leave_def)
      with wrong show ?thesis by simp
    qed
  qed
qed

text \<open>A new guess stays within the limit.\<close>

lemma within_limit_access:
  assumes lim: "within_limit gs" and race: "race_ok w' es" and ok: "tallied (gs @ wrong_guess a w) w' (race_run es race_start)"
    and clock: "clock w' = clock w"
  shows "within_limit (gs @ wrong_guess a w)"
proof -
  let ?r = "race_run es race_start" and ?gs = "gs @ wrong_guess a w"
  have w: "waiting_ok w' ?r" and cap: "capped MAX_PENDING_CONNECTIONS es race_start" using race by (simp_all add: race_ok_def)
  have "length (filter (\<lambda>u. t \<le> u \<and> u < t + RATE_LIMIT_WINDOW) (times_of ip ?gs)) \<le> MAX_PENDING_CONNECTIONS + 4" for ip t
  proof (cases "clock w < t + RATE_LIMIT_WINDOW")
    case True
    have "race_inv MAX_PENDING_CONNECTIONS (clock_after 0 es) ip ?r"
      using race by (intro race_inv_run [OF race_inv_start]) (simp_all add: race_ok_def)
    then have inv: "race_inv MAX_PENDING_CONNECTIONS (clock w) ip ?r"
      using race clock by (elim race_inv_mono) (simp_all add: race_ok_def)
    have fl: "flying ip ?r \<le> MAX_PENDING_CONNECTIONS" using flying_le capped_end [OF cap] le_trans by blast
    have "length (filter (\<lambda>u. t \<le> u \<and> u < t + RATE_LIMIT_WINDOW) (times_of ip ?gs)) \<le> length (filter ((\<le>) t) (times_of ip ?gs))"
      by (metis filter_filter length_filter_le)
    also have "\<dots> \<le> length (filter ((\<le>) t) (missed ip ?r)) + flying ip ?r"
      using ok uncounted_le_flying [OF w, of ip] unfolding tallied_def by (meson add_le_mono le_refl le_trans)
    also have "\<dots> \<le> MAX_PENDING_CONNECTIONS + 4" by (rule race_window [OF inv True fl])
    finally show ?thesis .
  next
    case False
    then have "filter (\<lambda>u. t \<le> u \<and> u < t + RATE_LIMIT_WINDOW) (times_of ip ?gs) =
        filter (\<lambda>u. t \<le> u \<and> u < t + RATE_LIMIT_WINDOW) (times_of ip gs)"
      by (cases "(a, w)" rule: wrong_guess.cases) (auto simp: times_of_def)
    with lim show ?thesis by (simp add: within_limit_def)
  qed
  then show ?thesis by (simp add: within_limit_def)
qed

lemma logged_run_ok:
  assumes "logged_run (tasks_init cfg file port p b) gs w"
  shows "tasks_inv w \<and> semaphore_inv w \<and> within_limit gs \<and>
    (\<exists>es. race_ok w es \<and> tallied gs w (race_run es race_start))"
  using assms
proof (induction rule: logged_run.induct)
  case no_guess
  have "waiting_ok (tasks_init cfg file port p b) race_start"
    by (simp add: waiting_ok_def race_start_def world_init_def)
  then have "race_ok (tasks_init cfg file port p b) [] \<and> tallied [] (tasks_init cfg file port p b) (race_run [] race_start)"
    by (simp add: race_ok_def race_start_def tallied_def times_of_def)
  then show ?case
    using tasks_inv_init semaphore_inv_init by (auto simp: within_limit_def times_of_def)
next
  case (by_access gs w t a rest)
  then obtain es where es: "race_ok w es" "tallied gs w (race_run es race_start)" by blast
  have "task_step w (run_task t w)" using by_access by (intro task_step.access) simp
  with by_access have inv: "tasks_inv (run_task t w)" "semaphore_inv (run_task t w)"
    using tasks_inv_step semaphore_inv_step by blast+
  have wait: "waiting_ok w (race_run es race_start)" using es by (simp add: race_ok_def)
  have clock: "clock (run_task t w) = clock w" using by_access(2) by (simp add: exec_clock)
  have race: "race_ok (run_task t w) (es @ guess_of t a w)"
    using waiting_ok_guess [OF _ by_access(2) wait] by_access clock
    by (intro race_ok_events [OF es(1) inv _ guess_of_time]) simp_all
  moreover have tally: "tallied (gs @ wrong_guess a w) (run_task t w) (race_run (es @ guess_of t a w) race_start)"
    using tallied_access [OF _ by_access(2) wait es(2)] by_access by (simp add: race_run_append)
  moreover have "within_limit (gs @ wrong_guess a w)"
    using by_access by (intro within_limit_access [OF _ race tally clock]) simp
  ultimately show ?case using inv by blast
next
  case (by_event gs w w')
  then obtain es where es: "race_ok w es" "tallied gs w (race_run es race_start)" by blast
  have inv: "tasks_inv w'" "semaphore_inv w'" using by_event tasks_inv_step semaphore_inv_step by blast+
  have "waiting_ok w' (race_run es race_start)"
    using waiting_ok_event [OF by_event(2,3)] es by (simp add: race_ok_def)
  then have "race_ok w' (es @ [])" using by_event es by (intro race_ok_events [OF es(1) inv]) auto
  moreover have "tallied gs w' (race_run es race_start)"
    using by_event by (intro tallied_same [OF es(2)] counting_event) simp_all
  ultimately show ?case using inv by_event by auto
qed

section \<open>Properties of admission\<close>

text \<open>
  C29: unauthenticated connections are bounded, also when the tasks interleave access by access. At most 256 connections are
  between accept and registration, and no permit is lost: the semaphore counts exactly the connections that
  are not paired or have not yet dropped theirs.
\<close>

theorem unpaired_bounded:
  assumes "task_reach (tasks_init cfg file port p b) w"
  shows "card {cid. conn w cid = Unpaired} \<le> MAX_PENDING_CONNECTIONS \<and> permits w = (\<Sum>cid\<in>UNIV. held w cid)"
proof -
  have "semaphore_inv w \<and> tasks_inv w"
    using assms
    by (induction rule: task_reach.induct)
      (auto intro: semaphore_inv_init tasks_inv_init semaphore_inv_step tasks_inv_step)
  then show ?thesis using unpaired_le_permits [of w] by (simp add: semaphore_inv_def)
qed

text \<open>
  C8: how fast the PIN can be guessed. In every run of the server in which the clock does not go back, whatever the peers do and however
  their connections interleave access by access, at most 260 proofs of one peer are compared with the PIN and found
  wrong in any ten minutes.
\<close>

theorem control_port_guesses_limited:
  assumes "logged_run (tasks_init cfg file port p b) gs w"
  shows "length (filter (\<lambda>u. t \<le> u \<and> u < t + RATE_LIMIT_WINDOW) (times_of ip gs)) \<le> 260"
  using logged_run_ok [OF assms] by (simp add: within_limit_def MAX_PENDING_CONNECTIONS_def)

text \<open>A run with one wrong guess: at 5 milliseconds, on connection 1.\<close>

lemma ex_wrong_guess:
  "\<exists>w. logged_run (tasks_init (server_config_default None None None) Missing DEFAULT_FILE_PORT ''1234'' (Some None))
     [(5, ex_ip)] w"
proof -
  let ?i = "world_init (server_config_default None None None) Missing DEFAULT_FILE_PORT ''1234'' (Some None)"
  let ?w0 = "at_rest ?i"
  let ?pf = "pairing_proof pad32 ''0000'' ex_nonce ''AA''"
  let ?ask = "AskLimiter (ex_env ''0000'') 1 ex_ip ''pc'' ex_nonce ''AA'' ?pf"
  define w1 where "w1 = ?w0\<lparr>conn := (conn ?w0)(1 := Unpaired), permits := permits ?w0 + 1, clock := 5\<rparr>"
  define w2 where "w2 = begin_task (Conn 1) [?ask] w1"
  define w3 where "w3 = run_task (Conn 1) w2"
  have w1: "todo w1 t = []" "clock w1 = 5" "conn w1 1 = Unpaired" "shared w1 = shared ?w0" for t
    by (simp_all add: w1_def)
  have s: "is_paired (config (sst ?i)) ''AA'' = False" "rate_limiter (sst ?i) = Map.empty" "pin (sst ?i) = ''1234''"
    by (simp_all add: world_init_def is_paired_def server_config_default_def)
  have g0: "logged_run ?w0 [] (?w0\<lparr>conn := (conn ?w0)(1 := Unpaired), permits := permits ?w0 + 1\<rparr>)"
  proof (rule logged_run.by_event [OF logged_run.no_guess task_step.accepted])
    show "conn ?w0 1 = NoConn" "permits ?w0 < MAX_PENDING_CONNECTIONS"
      by (simp_all add: world_init_def MAX_PENDING_CONNECTIONS_def)
  qed simp_all
  have "logged_run ?w0 [] w1" unfolding w1_def
    using logged_run.by_event [OF g0 task_step.time_passes [of _ 5]] by simp
  then have g2: "logged_run ?w0 [] w2" unfolding w2_def
    by (rule logged_run.by_event) (simp_all add: w1 task_step.pair_request)
  have t2: "todo w2 (Conn 1) = [?ask]" "clock w2 = 5" "shared w2 = shared ?w0" by (simp_all add: w2_def w1)
  from logged_run.by_access [OF g2 t2(1)] have g3: "logged_run ?w0 [] w3" by (simp add: w3_def)
  have t3: "todo w3 (Conn 1) = [AskPaired (ex_env ''0000'') 1 ex_ip ''pc'' ex_nonce ''AA'' ?pf]" "clock w3 = 5"
    "shared w3 = shared ?w0" using t2 by (simp_all add: w3_def s is_rate_limited_def)
  with logged_run.by_access [OF g3 t3(1)] have "logged_run ?w0 [(5, ex_ip)] (run_task (Conn 1) w3)"
    by (simp add: s ex_pins_differ)
  then show ?thesis by blast
qed

theorem unpaired_bounded_witness:
  "card {cid. conn (at_rest ex_two) cid = Unpaired} \<le> MAX_PENDING_CONNECTIONS"
  using unpaired_bounded [OF ex_two_reach] by simp

theorem control_port_guesses_limited_witness:
  "\<exists>w. logged_run (tasks_init (server_config_default None None None) Missing DEFAULT_FILE_PORT ''1234'' (Some None)) [(5, ex_ip)] w \<and>
     length (filter (\<lambda>u. 0 \<le> u \<and> u < 0 + RATE_LIMIT_WINDOW) (times_of ex_ip [(5, ex_ip)])) \<le> 260"
proof -
  obtain w where w: "logged_run (tasks_init (server_config_default None None None) Missing DEFAULT_FILE_PORT ''1234'' (Some None))
     [(5, ex_ip)] w" using ex_wrong_guess by blast
  with control_port_guesses_limited [OF w, of 0 ex_ip] show ?thesis by blast
qed

end
