(* ===== verification/Keepalive.thy ===== *)
theory Keepalive
  imports Server Session
begin

text \<open>
  Keepalive on both ends of a control connection. The server's loop (\<^verbatim>\<open>server/src/server.rs\<close>, from the first
  tick of its ping timer on) pings every 5 seconds and looks every second whether the client has been silent for
  more than 15; the client's loop (\<^verbatim>\<open>client/src/session.rs\<close>) pings every 10 seconds and looks on the
  same tick whether the server has been silent for more than 20. Both are instances of one scheme, a
  silence alarm, about which the two questions are asked: is a dead peer noticed, and how soon; and
  is a live one left alone.
\<close>

section \<open>The silence alarm\<close>

datatype beat = Heard | Check | Pinged | Idle

text \<open>The time of the first check that finds the peer silent for more than \<open>limit\<close>.\<close>

fun alarm :: "millis \<Rightarrow> millis \<Rightarrow> (millis \<times> beat) list \<Rightarrow> millis option" where
  "alarm limit seen [] = None"
| "alarm limit seen ((t, Heard) # bs) = alarm limit t bs"
| "alarm limit seen ((t, Check) # bs) = (if t - seen > limit then Some t else alarm limit seen bs)"
| "alarm limit seen ((t, b) # bs) = alarm limit seen bs"

definition times :: "beat \<Rightarrow> (millis \<times> beat) list \<Rightarrow> millis list" where
  "times b bs = map fst (filter (\<lambda>x. snd x = b) bs)"

text \<open>A timer that last ticked at \<open>from\<close> goes on with at most \<open>period\<close> between its ticks, up to \<open>until\<close>.\<close>

fun ticking :: "millis \<Rightarrow> millis \<Rightarrow> millis \<Rightarrow> millis list \<Rightarrow> bool" where
  "ticking period from until [] = (until \<le> from + period)"
| "ticking period from until (t # ts) = (t \<le> from + period \<and> ticking period t until ts)"

lemma alarm_silent:
  assumes "\<forall>b \<in> set bs. snd b \<noteq> Heard"
  shows "alarm limit seen bs = find (\<lambda>t. t - seen > limit) (times Check bs)"
  using assms
  by (induction limit seen bs rule: alarm.induct) (auto simp: times_def)

lemma ticking_find:
  assumes "ticking period from until ts" and "from \<le> seen + limit" and "seen + limit + period < until"
  shows "\<exists>t. find (\<lambda>t. t - seen > limit) ts = Some t \<and> seen + limit < t \<and> t \<le> seen + limit + period"
  using assms
proof (induction ts arbitrary: "from")
  case (Cons t ts)
  show ?case
  proof (cases "t - seen > limit")
    case True
    with Cons.prems show ?thesis by auto
  next
    case False
    then have "t \<le> seen + limit" by auto
    with Cons False show ?thesis by auto
  qed
qed simp

text \<open>A peer that falls silent is noticed within a period after the limit.\<close>

lemma alarm_noticed:
  assumes "\<forall>b \<in> set bs. snd b \<noteq> Heard"
    and "ticking period from until (times Check bs)" and "from \<le> seen + limit" and "seen + limit + period < until"
  shows "\<exists>t. alarm limit seen bs = Some t \<and> seen + limit < t \<and> t \<le> seen + limit + period"
  using ticking_find [OF assms(2-4)] alarm_silent [OF assms(1)] by simp

text \<open>A peer that is heard at least every \<open>limit\<close> before each check is left alone.\<close>

fun heard_often :: "millis \<Rightarrow> millis \<Rightarrow> (millis \<times> beat) list \<Rightarrow> bool" where
  "heard_often limit seen [] = True"
| "heard_often limit seen ((t, Heard) # bs) = heard_often limit t bs"
| "heard_often limit seen ((t, Check) # bs) = (t \<le> seen + limit \<and> heard_often limit seen bs)"
| "heard_often limit seen ((t, b) # bs) = heard_often limit seen bs"

lemma alarm_None: "alarm limit seen bs = None \<longleftrightarrow> heard_often limit seen bs"
  by (induction limit seen bs rule: alarm.induct) (auto simp: not_less le_diff_conv add.commute)

lemma heard_oftenI:
  assumes "sorted (map fst bs)" and "\<forall>b \<in> set bs. seen \<le> fst b"
    and "\<forall>t. (t, Check) \<in> set bs \<longrightarrow> t \<le> seen + limit \<or> (\<exists>h. (h, Heard) \<in> set bs \<and> h < t \<and> t \<le> h + limit)"
  shows "heard_often limit seen bs"
  using assms
proof (induction limit seen bs rule: heard_often.induct)
  case (2 limit seen t bs)
  have "x \<le> t + limit \<or> (\<exists>h. (h, Heard) \<in> set bs \<and> h < x \<and> x \<le> h + limit)"
    if x: "(x, Check) \<in> set bs" for x
  proof (cases "x \<le> seen + limit")
    case True
    with "2.prems"(2) show ?thesis by auto
  next
    case False
    with "2.prems"(3) x show ?thesis by auto
  qed
  with 2 show ?case by simp
next
  case (3 limit seen t bs)
  have "\<not> (\<exists>h. (h, Heard) \<in> set bs \<and> h < t)" using "3.prems"(1) by fastforce
  then have "t \<le> seen + limit" using "3.prems"(3) by auto
  moreover have "heard_often limit seen bs" using 3 by auto
  ultimately show ?case by simp
qed auto

text \<open>
  Pings and answers. A timer that goes on from \<open>from\<close> to \<open>until\<close> has ticked shortly before any moment in
  between. If pings are due at most \<open>every\<close> apart and each is answered within \<open>answer\<close>, the peer is never
  silent for more than the two together.
\<close>

lemma ticking_before:
  assumes "ticking period from until ts" and "from < x" and "x \<le> until"
  shows "\<exists>p \<in> set (from # ts). p < x \<and> x \<le> p + period"
  using assms
proof (induction ts arbitrary: "from")
  case (Cons t ts)
  show ?case
  proof (cases "x \<le> t")
    case True
    with Cons.prems show ?thesis by auto
  next
    case False
    with Cons.prems Cons.IH [of t] show ?thesis by auto
  qed
qed simp

definition answered :: "millis \<Rightarrow> (millis \<times> beat) list \<Rightarrow> bool" where
  "answered answer bs \<longleftrightarrow>
     list_all (\<lambda>p. list_all (\<lambda>t. p + answer < t \<longrightarrow> list_ex (\<lambda>h. p \<le> h \<and> h \<le> p + answer) (times Heard bs))
       (map fst bs)) (times Pinged bs)"

lemma alarm_live:
  assumes "sorted (map fst bs)" and "\<forall>b \<in> set bs. seen \<le> fst b \<and> fst b \<le> until"
    and "ticking every seen until (times Pinged bs)" and "answered answer bs" and "every + answer \<le> limit"
  shows "alarm limit seen bs = None"
  unfolding alarm_None
proof (rule heard_oftenI)
  show "\<forall>t. (t, Check) \<in> set bs \<longrightarrow> t \<le> seen + limit \<or> (\<exists>h. (h, Heard) \<in> set bs \<and> h < t \<and> t \<le> h + limit)"
  proof (intro allI impI)
    fix t assume t: "(t, Check) \<in> set bs"
    show "t \<le> seen + limit \<or> (\<exists>h. (h, Heard) \<in> set bs \<and> h < t \<and> t \<le> h + limit)"
    proof (cases "seen + answer < t")
      case True
      then obtain p where p: "p \<in> set (seen # times Pinged bs)" "p < t - answer" "t - answer \<le> p + every"
        using ticking_before [OF assms(3), of "t - answer"] assms(2) t by force
      show ?thesis
      proof (cases "p = seen")
        case False
        then have "p \<in> set (times Pinged bs)" using p(1) by simp
        then obtain h where "h \<in> set (times Heard bs)" "p \<le> h" "h \<le> p + answer"
          using assms(4) t p(2) unfolding answered_def list_all_iff list_ex_iff
          by (metis (no_types, lifting) fst_conv image_eqI less_diff_conv set_map)
        then show ?thesis using p assms(5) by (auto simp: times_def)
      qed (use p assms(5) in auto)
    qed (use assms(5) in auto)
  qed
qed (use assms in auto)

section \<open>The server's loop\<close>

text \<open>What completes an arm of the \<open>select!\<close>, and how the loop stands or ended.\<close>

datatype loop_event = FromClient envelope | StreamEnd | PingDue u64 | WatchdogDue

datatype loop_end = LoopOpen | SaidGoodbye | StreamClosed | TimedOut millis

fun client_loop :: "u64 \<Rightarrow> (millis \<times> loop_event) list \<Rightarrow> millis \<Rightarrow> server_state \<Rightarrow> loop_end \<times> server_state" where
  "client_loop cid [] last_seen s = (LoopOpen, s)"
| "client_loop cid ((now, FromClient e) # evs) last_seen s =
     (case client_message cid e s of (goes_on, s1) \<Rightarrow>
        if goes_on then client_loop cid evs now s1 else (SaidGoodbye, disconnect_client cid s1))"
| "client_loop cid ((now, StreamEnd) # evs) last_seen s = (StreamClosed, disconnect_client cid s)"
| "client_loop cid ((now, PingDue unix_millis) # evs) last_seen s =
     client_loop cid evs last_seen (ping_tick cid unix_millis s)"
| "client_loop cid ((now, WatchdogDue) # evs) last_seen s =
     (if watchdog_expired now last_seen then (TimedOut now, disconnect_client cid s)
      else client_loop cid evs last_seen s)"

fun server_beat :: "loop_event \<Rightarrow> beat" where
  "server_beat (FromClient e) = Heard"
| "server_beat StreamEnd = Idle"
| "server_beat (PingDue ts) = Pinged"
| "server_beat WatchdogDue = Check"

definition server_beats :: "(millis \<times> loop_event) list \<Rightarrow> (millis \<times> beat) list" where
  "server_beats evs = map (apsnd server_beat) evs"

fun ends_loop :: "loop_event \<Rightarrow> bool" where
  "ends_loop (FromClient e) = (e = Goodbye)"
| "ends_loop StreamEnd = True"
| "ends_loop _ = False"

lemma client_message_goes_on: "e \<noteq> Goodbye \<Longrightarrow> fst (client_message cid e s)"
  by (cases e) auto

lemma client_loop_alarm:
  assumes "list_all (\<lambda>ev. \<not> ends_loop (snd ev)) evs"
  shows "fst (client_loop cid evs seen s) =
    (case alarm 15000 seen (server_beats evs) of None \<Rightarrow> LoopOpen | Some t \<Rightarrow> TimedOut t)"
  using assms
proof (induction cid evs seen s rule: client_loop.induct)
  case (2 cid now e evs seen s)
  with client_message_goes_on [of e cid s] show ?case
    by (cases "client_message cid e s") (auto simp: server_beats_def)
qed (auto simp: server_beats_def watchdog_expired_def)

lemma client_loop_timeout_leaves:
  "client_loop cid evs seen s = (TimedOut t, s') \<Longrightarrow> cid \<notin> set (registry s')"
  by (induction cid evs seen s rule: client_loop.induct) (auto split: prod.splits if_splits)

section \<open>The client's loop\<close>

text \<open>
  While nothing arrives from the server and nobody cancels, the loop ends at the tick that sounds the alarm at the
  latest; before that only a failed write can end it.
\<close>

fun quiet_input :: "session_input \<Rightarrow> bool" where
  "quiet_input (PingTick now ts) = True"
| "quiet_input (CmdToggle on) = True"
| "quiet_input (CmdClipboard text) = True"
| "quiet_input (ClipOut text) = True"
| "quiet_input _ = False"

fun client_beat :: "session_input \<Rightarrow> (millis \<times> beat) list" where
  "client_beat (PingTick now ts) = [(now, Check)]"
| "client_beat _ = []"

lemma client_beat_silent: "b \<in> set (client_beat i) \<Longrightarrow> snd b \<noteq> Heard"
  by (cases i) auto

lemma send_or_end_simps:
  "last_received (send_or_end ser e s) = last_received s"
  "ss_end s = Running \<Longrightarrow> ss_end (send_or_end ser e s) \<noteq> EndedOk"
  "last_received (snd (s_send ser e s)) = last_received s" "ss_end (snd (s_send ser e s)) = ss_end s"
  by (auto simp: send_or_end_def s_send_def split: prod.splits sum.splits)

lemma quiet_step:
  assumes "quiet_input i" and "ss_end s = Running"
  shows "last_received (session_step pl ser de i s) = last_received s"
    and "ss_end (session_step pl ser de i s) \<noteq> EndedOk"
  using assms by (cases i; simp add: Let_def send_or_end_simps)+

lemma late_tick: "now - last_received s > DEAD_AFTER \<Longrightarrow> ss_end (session_step pl ser de (PingTick now ts) s) = EndedErr"
  by (simp add: Let_def)

text \<open>The inputs up to the alarm are enough to end the session.\<close>

lemma quiet_run_ends:
  assumes "list_all quiet_input is" and "ss_end s = Running"
    and "alarm DEAD_AFTER (last_received s) (concat (map client_beat is)) = Some t"
  shows "\<exists>n. ss_end (session_run pl ser de (take n is) s) = EndedErr \<and>
    list_all (\<lambda>i. case i of PingTick now ts \<Rightarrow> now - last_received s > DEAD_AFTER \<longrightarrow> now = t | _ \<Rightarrow> True) (take n is)"
  using assms
proof (induction "is" arbitrary: s)
  case (Cons i "is")
  let ?s1 = "session_step pl ser de i s"
  have q: "last_received ?s1 = last_received s" "ss_end ?s1 \<noteq> EndedOk"
    using quiet_step [of i s pl ser de] Cons.prems by simp_all
  consider (dies) "ss_end ?s1 = EndedErr" | (goes_on) "ss_end ?s1 = Running"
    using q(2) by (cases "ss_end ?s1") auto
  then show ?case
  proof cases
    case dies
    then have "ss_end (session_run pl ser de (take 1 (i # is)) s) = EndedErr"
      by (simp add: Let_def session_finish_def emit_def)
    moreover have "case i of PingTick now ts \<Rightarrow> now - last_received s > DEAD_AFTER \<longrightarrow> now = t | _ \<Rightarrow> True"
      using Cons.prems by (cases i) auto
    ultimately show ?thesis by (intro exI [of _ 1]) simp
  next
    case goes_on
    have small: "now - last_received s \<le> DEAD_AFTER" if "i = PingTick now ts" for now ts
      using late_tick [of now s pl ser de ts] goes_on that by (cases "now - last_received s > DEAD_AFTER") auto
    then have "alarm DEAD_AFTER (last_received s) (concat (map client_beat is)) = Some t"
      using Cons.prems by (cases i) (auto split: if_splits)
    then obtain n where "ss_end (session_run pl ser de (take n is) ?s1) = EndedErr"
      "list_all (\<lambda>i. case i of PingTick now ts \<Rightarrow> now - last_received s > DEAD_AFTER \<longrightarrow> now = t | _ \<Rightarrow> True) (take n is)"
      using Cons.IH [of ?s1] Cons.prems goes_on q(1) by auto
    then show ?thesis
      using goes_on small by (intro exI [of _ "Suc n"]) (auto simp: Let_def split: session_input.split)
  qed
qed simp

section \<open>Properties of keepalive\<close>

text \<open>
  C18: a dead client is dropped. From the moment it falls silent, and as long as the watchdog ticks every second,
  the server's loop ends between 15 and 16 seconds later, and the client is no longer registered: its
  place does not stay taken, and the pings in between do not count as a sign of life.
\<close>

theorem dead_client_dropped:
  assumes "list_all (\<lambda>ev. snd ev = WatchdogDue \<or> (\<exists>ts. snd ev = PingDue ts)) evs"
    and "ticking 1000 last_seen until (times Check (server_beats evs))" and "last_seen + 16000 < until"
  shows "\<exists>t s'. client_loop cid evs last_seen s = (TimedOut t, s') \<and>
    last_seen + 15000 < t \<and> t \<le> last_seen + 16000 \<and> cid \<notin> set (registry s')"
proof -
  have quiet: "list_all (\<lambda>ev. \<not> ends_loop (snd ev)) evs" using assms(1) by (auto simp: list_all_iff)
  have "\<forall>b \<in> set (server_beats evs). snd b \<noteq> Heard"
    using assms(1) by (fastforce simp: server_beats_def list_all_iff)
  then obtain t where "alarm 15000 last_seen (server_beats evs) = Some t" "last_seen + 15000 < t" "t \<le> last_seen + 16000"
    using alarm_noticed [OF _ assms(2), of last_seen 15000] assms(3) by auto
  moreover obtain r s' where "client_loop cid evs last_seen s = (r, s')" by fastforce
  ultimately show ?thesis
    using client_loop_alarm [OF quiet, of cid last_seen s] client_loop_timeout_leaves by auto
qed

theorem dead_client_dropped_witness:
  "let evs = map (\<lambda>k. (1000 * k, WatchdogDue)) [1..<17] in
   \<exists>t s'. client_loop 1 evs 0 (ex_server\<lparr>registry := [1]\<rparr>) = (TimedOut t, s') \<and>
     15000 < t \<and> t \<le> 16000 \<and> 1 \<notin> set (registry s')"
proof -
  let ?evs = "map (\<lambda>k. (1000 * k, WatchdogDue)) [1..<17]"
  have "ticking 1000 0 16001 (times Check (server_beats ?evs))"
    by (simp add: times_def server_beats_def upt_conv_Cons)
  then show ?thesis
    using dead_client_dropped [of ?evs 0 16001 1 "ex_server\<lparr>registry := [1]\<rparr>"] by (simp add: Let_def list_all_iff)
qed

text \<open>
  C19: a live client is kept. If the pings go out every 5 seconds and each is answered within 10 seconds
  (by a pong or anything else), the watchdog never ends the connection, whatever else the client sends.
\<close>

theorem live_client_kept:
  assumes "list_all (\<lambda>ev. \<not> ends_loop (snd ev)) evs" and "sorted (map fst evs)"
    and "list_all (\<lambda>ev. last_seen \<le> fst ev \<and> fst ev \<le> until) evs"
    and "ticking 5000 last_seen until (times Pinged (server_beats evs))"
    and "answered 10000 (server_beats evs)"
  shows "fst (client_loop cid evs last_seen s) = LoopOpen"
proof -
  have "alarm 15000 last_seen (server_beats evs) = None"
    using assms(2-)
    by (intro alarm_live [where every = 5000 and answer = 10000 and until = until])
      (auto simp: server_beats_def list_all_iff comp_def)
  then show ?thesis by (simp add: client_loop_alarm [OF assms(1)])
qed

theorem live_client_kept_witness:
  "let evs = [(4000, WatchdogDue), (5000, PingDue 0), (10000, PingDue 0), (14000, FromClient (Pong 0)),
     (15000, PingDue 0), (19000, FromClient (Pong 0)), (20000, PingDue 0), (20000, WatchdogDue)]
   in fst (client_loop 1 evs 0 (ex_server\<lparr>registry := [1]\<rparr>)) = LoopOpen"
  unfolding Let_def
  by (rule live_client_kept [where until = 20000])
    (simp_all add: server_beats_def times_def answered_def)

text \<open>
  C20: a dead server is noticed. When nothing arrives any more, and the ticks come every 10 seconds, the client's
  session ends with an error (so that it reconnects) at a tick that is at most 30 seconds after the last arrival.
\<close>

theorem dead_server_noticed:
  assumes "list_all quiet_input is" and "ss_end s = Running"
    and "ticking 10000 (last_received s) until (times Check (concat (map client_beat is)))"
    and "last_received s + 30000 < until"
  shows "\<exists>n. ss_end (session_run pl ser de (take n is) s) = EndedErr \<and>
    list_all (\<lambda>i. case i of PingTick now ts \<Rightarrow> now \<le> last_received s + 30000 | _ \<Rightarrow> True) (take n is)"
proof -
  have "\<forall>b \<in> set (concat (map client_beat is)). snd b \<noteq> Heard"
    using client_beat_silent by auto
  then obtain t where t: "alarm DEAD_AFTER (last_received s) (concat (map client_beat is)) = Some t"
    "t \<le> last_received s + DEAD_AFTER + 10000"
    using alarm_noticed [OF _ assms(3), of "last_received s" DEAD_AFTER] assms(4) by (auto simp: DEAD_AFTER_def)
  obtain n where n: "ss_end (session_run pl ser de (take n is) s) = EndedErr"
    "list_all (\<lambda>i. case i of PingTick now ts \<Rightarrow> now - last_received s > DEAD_AFTER \<longrightarrow> now = t | _ \<Rightarrow> True) (take n is)"
    using quiet_run_ends [OF assms(1,2) t(1)] by blast
  from n(2) have "list_all (\<lambda>i. case i of PingTick now ts \<Rightarrow> now \<le> last_received s + 30000 | _ \<Rightarrow> True) (take n is)"
    by (rule list.pred_mono_strong)
      (use t(2) in \<open>auto simp: DEAD_AFTER_def split: session_input.splits\<close>)
  with n(1) show ?thesis by blast
qed

theorem dead_server_noticed_witness:
  "let is = [PingTick 10000 0, CmdToggle True, PingTick 20000 0, PingTick 30000 0];
       s = session_start (\<lparr>si_host = [], si_server_name = [], si_fingerprint = [], si_file_port = 0,
         si_stream = \<lparr>rx = [], tx = [], tx_room = None\<rparr>\<rparr>) 0 \<lparr>rx = [], tx = [], tx_room = None\<rparr>
   in \<exists>n. ss_end (session_run Linux (\<lambda>_. Some []) (\<lambda>_. None) (take n is) s) = EndedErr"
proof -
  let ?is = "[PingTick 10000 0, CmdToggle True, PingTick 20000 0, PingTick 30000 0]"
  let ?s = "session_start (\<lparr>si_host = [], si_server_name = [], si_fingerprint = [], si_file_port = 0,
         si_stream = \<lparr>rx = [], tx = [], tx_room = None\<rparr>\<rparr>) 0 \<lparr>rx = [], tx = [], tx_room = None\<rparr>"
  have "last_received ?s = 0" "ss_end ?s = Running" by (simp_all add: session_start_def)
  then show ?thesis
    using dead_server_noticed [of ?is ?s 30001 Linux "\<lambda>_. Some []" "\<lambda>_. None"]
    by (auto simp: Let_def times_def)
qed

end
