(* ===== verification/PanelDriver.thy ===== *)
theory PanelDriver
  imports Reconnect
begin

text \<open>
  The task that the control panel starts for a connection (\<open>connect_to_server\<close> of \<^verbatim>\<open>ui/src/main.rs\<close>): run the
  session, wait, reconnect, and again. It is a second implementation of the loop that the command-line
  client has in \<open>run_with_reconnect\<close>; here it is a function of the turns, as that one is in
  \<open>Reconnect\<close>, and the two are compared. How the panel's tasks interleave on its state is in \<open>Ui\<close>;
  here only the outcome of the comparison of generations is an input.
\<close>

section \<open>The driver\<close>

text \<open>
  A turn as the panel sees it: whether the path of the configuration can be determined, and whether the attempt
  turns out to be superseded by a newer command.
\<close>

record panel_turn =
  pt_turn :: turn
  pt_path_ok :: bool
  pt_superseded :: bool

datatype panel_end = PanelCancelled | PanelFatal connect_error | PanelNoPath | PanelSuperseded | PanelTrying

record panel_log =
  pl_waits :: "millis list"
  pl_files :: config_files
  pl_end :: panel_end
  pl_sessions :: "(session_info \<times> bool) list"

definition panel_stopped :: "panel_end \<Rightarrow> config_files \<Rightarrow> panel_log" where
  "panel_stopped r fs = \<lparr>pl_waits = [], pl_files = fs, pl_end = r, pl_sessions = []\<rparr>"

text \<open>
  After a session has ended or an attempt has failed: the loop is left when it is cancelled, at once or during the
  wait, and otherwise goes on.
\<close>

definition panel_wait :: "panel_turn \<Rightarrow> millis \<Rightarrow> config_files \<Rightarrow> panel_log \<Rightarrow> panel_log" where
  "panel_wait t backoff fs rest =
     (if tn_cancel_before_wait (pt_turn t) then panel_stopped PanelCancelled fs
      else if tn_cancel_in_wait (pt_turn t) then (panel_stopped PanelCancelled fs)\<lparr>pl_waits := [backoff]\<rparr>
      else rest\<lparr>pl_waits := backoff # pl_waits rest\<rparr>)"

definition panel_ran :: "session_info \<Rightarrow> bool \<Rightarrow> panel_log \<Rightarrow> panel_log" where
  "panel_ran si saved l = l\<lparr>pl_sessions := (si, saved) # pl_sessions l\<rparr>"

fun panel_reconnect ::
    "loop_env \<Rightarrow> string \<Rightarrow> connect_options \<Rightarrow> millis \<Rightarrow> panel_turn list \<Rightarrow> config_files \<Rightarrow> panel_log" where
  "panel_reconnect le normalized opts backoff [] fs = panel_stopped PanelTrying fs"
| "panel_reconnect le normalized opts backoff (t # ts) fs =
     (if \<not> pt_path_ok t then panel_stopped PanelNoPath fs
      else
        (case client_load_or_default (le_from_toml le) fs of
           (config, fs1) \<Rightarrow>
             (case connect (tn_env (pt_turn t)) normalized opts (tn_peer (pt_turn t)) config of
                (Inr si, config') \<Rightarrow>
                  (case client_save (le_to_toml le) (tn_dir_ok (pt_turn t)) (tn_write_ok (pt_turn t)) config' fs1 of
                     (saved, fs2) \<Rightarrow>
                       if pt_superseded t then panel_stopped PanelSuperseded fs2
                       else panel_ran si saved
                         (panel_wait t 1000 fs2 (panel_reconnect le normalized opts (next_backoff 1000) ts fs2)))
              | (Inl e, config') \<Rightarrow>
                  if pt_superseded t then panel_stopped PanelSuperseded fs1
                  else if is_fatal e then panel_stopped (PanelFatal e) fs1
                  else panel_wait t backoff fs1 (panel_reconnect le normalized opts (next_backoff backoff) ts fs1))))"

text \<open>
  The command: the first attempt is made with the address as typed, and an error of it is the result of the
  command; only then the task is started.
\<close>

datatype panel_error = NoConfigPath | AttemptFailed connect_error

definition connect_to_server ::
    "loop_env \<Rightarrow> string \<Rightarrow> connect_options \<Rightarrow> panel_turn \<Rightarrow> panel_turn list \<Rightarrow> config_files \<Rightarrow>
     panel_error + panel_log" where
  "connect_to_server le address opts t ts fs =
     (if \<not> pt_path_ok t then Inl NoConfigPath else
      case client_load_or_default (le_from_toml le) fs of
        (config, fs1) \<Rightarrow>
          (case connect (tn_env (pt_turn t)) address opts (tn_peer (pt_turn t)) config of
             (Inl e, config') \<Rightarrow> Inl (AttemptFailed e)
           | (Inr si, config') \<Rightarrow>
               (case client_save (le_to_toml le) (tn_dir_ok (pt_turn t)) (tn_write_ok (pt_turn t)) config' fs1 of
                  (saved, fs2) \<Rightarrow>
                    (case parse_host_port address DEFAULT_CONTROL_PORT of
                       Inl e \<Rightarrow> Inl (AttemptFailed (BadAddress e))
                     | Inr (host, port) \<Rightarrow>
                         Inr (if pt_superseded t then panel_stopped PanelSuperseded fs2
                              else panel_ran si saved
                                (panel_wait t 1000 fs2
                                  (panel_reconnect le (format_host_port host port) opts (next_backoff 1000) ts fs2)))))))"

section \<open>The two loops are one\<close>

fun panel_end_of :: "reconnect_end \<Rightarrow> panel_end" where
  "panel_end_of CancelledOk = PanelCancelled"
| "panel_end_of (FatalEnd e) = PanelFatal e"
| "panel_end_of StillTrying = PanelTrying"

text \<open>What the panel has of a run of the client's loop: all but the events, which it emits in other ways.\<close>

definition panel_view :: "loop_log \<Rightarrow> panel_log" where
  "panel_view l = \<lparr>pl_waits = waits l, pl_files = loop_files l, pl_end = panel_end_of (loop_end l), pl_sessions = sessions l\<rparr>"

definition undisturbed :: "panel_turn \<Rightarrow> bool" where
  "undisturbed t \<longleftrightarrow> pt_path_ok t \<and> \<not> pt_superseded t \<and> \<not> tn_cancelled_at_start (pt_turn t)"

lemma panel_view_stopped [simp]: "panel_view (stopped r fs) = panel_stopped (panel_end_of r) fs"
  by (simp add: panel_view_def panel_stopped_def)

lemma panel_view_ran [simp]: "panel_view (after_turn evs [(si, saved)] l) = panel_ran si saved (panel_view l)"
  by (simp add: panel_view_def panel_ran_def)

lemma panel_view_failed [simp]: "panel_view (after_turn evs [] l) = panel_view l"
  by (simp add: panel_view_def)

lemma panel_view_wait [simp]:
  "panel_view (wait_turn (pt_turn t) backoff fs rest) = panel_wait t backoff fs (panel_view rest)"
  by (simp add: panel_view_def panel_wait_def wait_turn_def panel_stopped_def)

lemma panel_reconnect_view:
  "list_all undisturbed ts \<Longrightarrow>
   panel_reconnect le a opts b ts fs = panel_view (reconnect le a opts b (map pt_turn ts) fs)"
  by (induction ts arbitrary: b fs) (auto simp: undisturbed_def split: prod.split sum.split)

lemma connect_address:
  assumes "parse_host_port a DEFAULT_CONTROL_PORT = parse_host_port b DEFAULT_CONTROL_PORT"
  shows "connect env a opts p config = connect env b opts p config"
  using assms by (simp add: connect_eq)

text \<open>
  C21: the panel's loop is the client's loop. When its first attempt succeeds and nobody supersedes it, a
  connection made in the panel waits as long, connects as often, saves the same files, establishes the same
  sessions and ends the same way as \<open>run_with_reconnect\<close> for the normalized address; a first attempt that
  fails is reported and not repeated.
\<close>

theorem panel_driver_is_reconnect:
  assumes "parse_host_port address DEFAULT_CONTROL_PORT = Inr (host, port)"
    and "parse_host_port (format_host_port host port) DEFAULT_CONTROL_PORT = Inr (host, port)"
    and "list_all undisturbed (t # ts)"
  shows "connect_to_server le address opts t ts fs =
    (case fst (connect (tn_env (pt_turn t)) address opts (tn_peer (pt_turn t))
        (fst (client_load_or_default (le_from_toml le) fs))) of
       Inl e \<Rightarrow> Inl (AttemptFailed e)
     | Inr si \<Rightarrow> Inr (panel_view
         (run_with_reconnect le (format_host_port host port) opts (map pt_turn (t # ts)) fs)))"
proof -
  have "connect env address opts p c = connect env (format_host_port host port) opts p c" for env p c
    using assms(1,2) by (intro connect_address) simp
  with assms(1,3) show ?thesis
    by (auto simp: connect_to_server_def run_with_reconnect_def undisturbed_def panel_reconnect_view
        split: prod.split sum.split)
qed

theorem panel_driver_is_reconnect_witness:
  "let t = \<lparr>pt_turn = ex_turn ex_peer, pt_path_ok = True, pt_superseded = False\<rparr>
   in \<exists>l. connect_to_server (ex_loop client_config_default) ''nas'' ex_opts t [t] ex_files = Inr (panel_view l) \<and>
      l = run_with_reconnect (ex_loop client_config_default) (format_host_port ''nas'' DEFAULT_CONTROL_PORT) ex_opts
        [ex_turn ex_peer, ex_turn ex_peer] ex_files"
proof -
  let ?t = "\<lparr>pt_turn = ex_turn ex_peer, pt_path_ok = True, pt_superseded = False\<rparr>"
  let ?le = "ex_loop client_config_default"
  have p: "parse_host_port (format_host_port ''nas'' DEFAULT_CONTROL_PORT) DEFAULT_CONTROL_PORT =
      Inr (''nas'', DEFAULT_CONTROL_PORT)"
    by (rule parse_format) (simp_all add: visible_def)
  have "fst (client_load_or_default (le_from_toml ?le) ex_files) = client_config_default"
    by (simp add: client_load_or_default_def ex_files_def)
  moreover obtain si c where "connect ex_client_env ''nas'' ex_opts ex_peer client_config_default = (Inr si, c)"
    using ex_connect by blast
  moreover have "list_all undisturbed [?t, ?t]" by (simp add: undisturbed_def ex_turn_def)
  ultimately show ?thesis
    using panel_driver_is_reconnect [OF ex_parse p, of ?t "[?t]" ?le ex_opts ex_files]
    by (simp add: ex_turn_def)
qed

end
