(* ===== verification/AuditLog.thy ===== *)
theory AuditLog
  imports Server Secrets "HOL-Library.Sublist"
begin

text \<open>
  What the server logs about the devices it pairs (\<^verbatim>\<open>server/src/server.rs\<close>, \<^verbatim>\<open>server/src/main.rs\<close>), and which of
  it reaches the audit file. The lines are those of the pairing handler, of its end and of \<open>--revoke\<close>;
  the filter of the \<open>tracing_subscriber\<close> library is a parameter. A fingerprint is as good as a password
  once its device is paired, so what a line shows of it matters.
\<close>

section \<open>Lines\<close>

datatype level = Debug | Info | Warn | Error

record log_line =
  ll_level :: level
  ll_target :: string
  ll_text :: string

text \<open>A name between single quotes.\<close>

definition quoted :: "string \<Rightarrow> string" where
  "quoted s = CHR 0x27 # s @ [CHR 0x27]"

text \<open>The first \<open>n\<close> characters of a string in UTF-8: a byte \<open>10xxxxxx\<close> continues the character before it.\<close>

definition continues :: "char \<Rightarrow> bool" where
  "continues c \<longleftrightarrow> 0x80 \<le> (of_char c :: nat) \<and> (of_char c :: nat) < 0xC0"

fun take_chars :: "nat \<Rightarrow> string \<Rightarrow> string" where
  "take_chars n [] = []"
| "take_chars n (c # s) =
     (if continues c then c # take_chars n s
      else (case n of 0 \<Rightarrow> [] | Suc m \<Rightarrow> c # take_chars m s))"

definition redact_fingerprint :: "string \<Rightarrow> string" where
  "redact_fingerprint fingerprint = take_chars 11 fingerprint @ ''...''"

abbreviation audit :: "level \<Rightarrow> string \<Rightarrow> log_line" where
  "audit lv msg \<equiv> \<lparr>ll_level = lv, ll_target = ''audit'', ll_text = msg\<rparr>"

abbreviation server_line :: "level \<Rightarrow> string \<Rightarrow> log_line" where
  "server_line lv msg \<equiv> \<lparr>ll_level = lv, ll_target = ''kvm_server::server'', ll_text = msg\<rparr>"

text \<open>The verdict on a pairing request, in the order in which the handler asks.\<close>

datatype verdict = RateLimited | AlreadyPaired | NewlyPaired | BadPin

definition pairing_verdict :: "handshake_env \<Rightarrow> ip_addr \<Rightarrow> bytes \<Rightarrow> string \<Rightarrow> bytes \<Rightarrow> server_state \<Rightarrow> verdict" where
  "pairing_verdict env ip nonce fp pf s =
     (if is_rate_limited (he_now env) (rate_limiter s) ip then RateLimited
      else if is_paired (config s) fp then AlreadyPaired
      else if proof_matches (pairing_proof (he_sha env) (pin s) nonce fp) pf then NewlyPaired
      else BadPin)"

text \<open>The handler pairs exactly after a favourable verdict on the request it has read.\<close>

lemma verdict_accepts:
  assumes "pair_device env ip name c = (Inr fp, c')"
  shows "\<exists>nonce pf rest. read_loop (he_de env) (conn_state.stream c) = PairRequest nonce fp pf # rest \<and>
    pairing_verdict env ip nonce fp pf (srv c) \<in> {AlreadyPaired, NewlyPaired}"
  using pair_device_Inr [OF assms] by (auto simp: pairing_verdict_def)

text \<open>
  What the handler writes. An error it returns is logged by the task that called it; \<open>reply\<close> is \<open>None\<close> when the
  answer could be written and otherwise the text of that error, which takes the place of the handler's own.
\<close>

fun pairing_lines ::
    "string \<Rightarrow> string \<Rightarrow> string \<Rightarrow> string \<Rightarrow> string option \<Rightarrow> verdict \<Rightarrow> log_line list" where
  "pairing_lines peer_addr peer_ip name fp reply RateLimited =
     [audit Warn (''rejected pairing from rate-limited peer '' @ peer_ip),
      server_line Error (''Error handling client '' @ peer_addr @ '': '' @
        (case reply of Some e \<Rightarrow> e | None \<Rightarrow> ''peer '' @ peer_ip @ '' is rate-limited''))]"
| "pairing_lines peer_addr peer_ip name fp reply AlreadyPaired =
     [audit Info (quoted name @ '' ('' @ redact_fingerprint fp @ '') re-connected (already paired)''),
      server_line Debug (''full fingerprint for '' @ quoted name @ '': '' @ fp)] @
     (case reply of Some e \<Rightarrow> [server_line Error (''Error handling client '' @ peer_addr @ '': '' @ e)] | None \<Rightarrow> [])"
| "pairing_lines peer_addr peer_ip name fp reply NewlyPaired =
     [audit Info (''paired new device '' @ quoted name @ '' ('' @ redact_fingerprint fp @ '') from '' @ peer_ip),
      server_line Debug (''full fingerprint for '' @ quoted name @ '': '' @ fp)] @
     (case reply of Some e \<Rightarrow> [server_line Error (''Error handling client '' @ peer_addr @ '': '' @ e)] | None \<Rightarrow> [])"
| "pairing_lines peer_addr peer_ip name fp reply BadPin =
     [audit Warn (''rejected pairing from '' @ peer_ip @ '' (bad PIN, fingerprint '' @ redact_fingerprint fp @ '')''),
      server_line Error (''Error handling client '' @ peer_addr @ '': '' @
        (case reply of Some e \<Rightarrow> e | None \<Rightarrow> ''pairing rejected for '' @ peer_ip @ '' ('' @ fp @ '')''))]"

definition goodbye_line :: "string \<Rightarrow> string \<Rightarrow> log_line" where
  "goodbye_line name fp = audit Info (''disconnected: '' @ quoted name @ '' ('' @ redact_fingerprint fp @ '')'')"

definition revoke_line :: "string \<Rightarrow> log_line" where
  "revoke_line fp = audit Info (''revoked device: '' @ fp)"

section \<open>Which lines reach the file\<close>

text \<open>
  The filter is a list of directives, each a target with a level; \<open>lets ds target level\<close> is the library's answer for an
  event. It is the first layer of the subscriber and decides for all of them; the layer of the audit
  file has a filter of its own on top, that keeps the events with the target \<open>audit\<close>.
\<close>

type_synonym directives = "(string \<times> level) list"

definition default_directives :: "bool \<Rightarrow> directives" where
  "default_directives verbose =
     (let log_level = (if verbose then Debug else Info) in [(''kvm_server'', log_level), (''kvm_common'', log_level)])"

definition log_to_file ::
    "(directives \<Rightarrow> string \<Rightarrow> level \<Rightarrow> bool) \<Rightarrow> directives \<Rightarrow> string option \<Rightarrow> log_line \<Rightarrow> sfs \<Rightarrow> sfs" where
  "log_to_file lets ds file_path l fs =
     (if lets ds (ll_target l) (ll_level l) then audit_line file_path (ll_target l) (ll_text l) fs else fs)"

text \<open>
  The documented behaviour of the library that matters: an event is let through only by a directive whose target is
  a prefix of the event's target.
\<close>

definition filters_by_target :: "(directives \<Rightarrow> string \<Rightarrow> level \<Rightarrow> bool) \<Rightarrow> bool" where
  "filters_by_target lets \<longleftrightarrow>
     (\<forall>ds target lv. lets ds target lv \<longrightarrow> list_ex (\<lambda>d. prefix (fst d) target) ds)"

definition prefix_filter :: "directives \<Rightarrow> string \<Rightarrow> level \<Rightarrow> bool" where
  "prefix_filter ds target lv \<longleftrightarrow> list_ex (\<lambda>d. prefix (fst d) target) ds"

lemma log_to_file_other: "ll_target l \<noteq> ''audit'' \<Longrightarrow> log_to_file lets ds file_path l fs = fs"
  by (simp add: log_to_file_def audit_line_def split: option.split)

lemma audit_not_enabled:
  assumes "filters_by_target lets"
  shows "\<not> lets (default_directives verbose) ''audit'' lv"
proof -
  have "\<not> list_ex (\<lambda>d. prefix (fst d) ''audit'') (default_directives verbose)"
    by (simp add: default_directives_def Let_def)
  with assms show ?thesis unfolding filters_by_target_def by blast
qed

lemma log_default:
  assumes "filters_by_target lets"
  shows "log_to_file lets (default_directives verbose) file_path l fs = fs"
proof (cases "ll_target l = ''audit''")
  case True
  with audit_not_enabled [OF assms] show ?thesis by (simp add: log_to_file_def)
qed (rule log_to_file_other)

lemma fold_log_default:
  "filters_by_target lets \<Longrightarrow> fold (log_to_file lets (default_directives verbose) file_path) ls fs = fs"
  by (induction ls arbitrary: fs) (simp_all add: log_default)

lemma fold_log_enabled:
  assumes "\<And>lv. lets ds ''audit'' lv" and "fs path = Some f"
  shows "fold (log_to_file lets ds (Some path)) ls fs path =
    Some (f\<lparr>sf_content := sf_content f @ concat (map ll_text (filter (\<lambda>l. ll_target l = ''audit'') ls))\<rparr>)"
  using assms(2)
proof (induction ls arbitrary: fs f)
  case (Cons l ls)
  show ?case
  proof (cases "ll_target l = ''audit''")
    case True
    then have "log_to_file lets ds (Some path) l fs path = Some (f\<lparr>sf_content := sf_content f @ ll_text l\<rparr>)"
      using Cons.prems assms(1) by (simp add: log_to_file_def audit_line_def)
    with Cons.IH True show ?thesis by simp
  next
    case False
    with Cons log_to_file_other [OF False] show ?thesis by simp
  qed
qed simp

section \<open>Properties\<close>

text \<open>
  The audit lines of pairing and of the end of a connection show no more of a fingerprint than its first eleven
  characters: for another fingerprint that begins the same and gets the same verdict, they are the same.
\<close>

theorem audit_lines_redacted:
  assumes "take_chars 11 fp = take_chars 11 fp'"
  shows "filter (\<lambda>l. ll_target l = ''audit'') (pairing_lines addr ip name fp reply v @ [goodbye_line name fp]) =
    filter (\<lambda>l. ll_target l = ''audit'') (pairing_lines addr ip name fp' reply v @ [goodbye_line name fp'])"
  using assms by (cases v) (auto simp: goodbye_line_def redact_fingerprint_def split: option.splits)

theorem audit_lines_redacted_witness:
  "filter (\<lambda>l. ll_target l = ''audit'') (pairing_lines [] [] [] ''AA:BB:CC:DD:11'' None BadPin @ [goodbye_line [] ''AA:BB:CC:DD:11'']) =
   filter (\<lambda>l. ll_target l = ''audit'') (pairing_lines [] [] [] ''AA:BB:CC:DD:22'' None BadPin @ [goodbye_line [] ''AA:BB:CC:DD:22''])"
  by (rule audit_lines_redacted) code_simp

text \<open>
  The rest of a fingerprint is logged nevertheless. A device that is refused for a wrong PIN has its whole
  fingerprint in an error line of the general log, and \<open>--revoke\<close> puts the whole fingerprint in a line for the
  audit file; it is the same fingerprint the device presents when it is paired later.
\<close>

theorem full_fingerprint_logged:
  "(\<exists>l \<in> set (pairing_lines addr ip name fp None BadPin). ll_level l = Error \<and> sublist fp (ll_text l)) \<and>
   ll_target (revoke_line fp) = ''audit'' \<and> sublist fp (ll_text (revoke_line fp))"
proof (intro conjI)
  let ?msg = "''Error handling client '' @ addr @ '': pairing rejected for '' @ ip @ '' ('' @ fp @ '')''"
  have "sublist fp ?msg" by (metis append.assoc sublist_appendI)
  then show "\<exists>l \<in> set (pairing_lines addr ip name fp None BadPin). ll_level l = Error \<and> sublist fp (ll_text l)"
    by simp
  have "sublist fp (''revoked device: '' @ fp)" by (rule sublist_append_leftI)
  then show "sublist fp (ll_text (revoke_line fp))" by (simp only: revoke_line_def log_line.simps)
qed (simp add: revoke_line_def)

text \<open>
  C40: by default nothing is audited. Unless the environment gives other directives, the first layer of the subscriber lets
  through events of the two crates only, and the audit events have a target of their own: whatever is
  logged, the audit file stays as it was.
\<close>

theorem audit_log_silent_by_default:
  assumes "filters_by_target lets"
  shows "fold (log_to_file lets (default_directives verbose) file_path) ls fs = fs"
  using assms by (rule fold_log_default)

theorem audit_log_silent_by_default_witness:
  "fold (log_to_file prefix_filter (default_directives False) (Some ''audit.log''))
     (pairing_lines ''10.0.0.9:5'' ''10.0.0.9'' ''pc'' ''AA:BB'' None BadPin)
     [''audit.log'' \<mapsto> \<lparr>sf_mode = 0x180, sf_content = []\<rparr>] = [''audit.log'' \<mapsto> \<lparr>sf_mode = 0x180, sf_content = []\<rparr>] \<and>
   prefix_filter (default_directives False) ''kvm_server::server'' Error"
proof
  have "filters_by_target prefix_filter" by (simp add: filters_by_target_def prefix_filter_def)
  then show "fold (log_to_file prefix_filter (default_directives False) (Some ''audit.log''))
     (pairing_lines ''10.0.0.9:5'' ''10.0.0.9'' ''pc'' ''AA:BB'' None BadPin)
     [''audit.log'' \<mapsto> \<lparr>sf_mode = 0x180, sf_content = []\<rparr>] = [''audit.log'' \<mapsto> \<lparr>sf_mode = 0x180, sf_content = []\<rparr>]"
    by (rule audit_log_silent_by_default)
  show "prefix_filter (default_directives False) ''kvm_server::server'' Error"
    by (simp add: prefix_filter_def default_directives_def Let_def)
qed

text \<open>
  Where the directives let audit events through, the file gets all of them, in order, and nothing else.
\<close>

theorem audit_log_complete:
  assumes "\<And>lv. lets ds ''audit'' lv" and "fs path = Some f"
  shows "fold (log_to_file lets ds (Some path)) ls fs path =
    Some (f\<lparr>sf_content := sf_content f @ concat (map ll_text (filter (\<lambda>l. ll_target l = ''audit'') ls))\<rparr>)"
  using assms by (rule fold_log_enabled)

end
