(* ===== verification/Spec2Isabelle.thy ===== *)
theory Spec2Isabelle
  imports Channel Capture Display Server Secrets Discovery FileSend Reconnect ClientMain Panel Pairing KeyPath
    Proxy FilePort ClipboardSync ControlPort Keepalive PanelDriver AuditLog
begin

text \<open>
  KVM-RS is a software KVM switch: a server captures the keyboard and mouse of one machine and
  sends the events to clients on others, which inject them; clipboard and files are shared over
  the same pairing, and the server can offer a SOCKS5 proxy.

  \<^bold>\<open>Parts and how they interact.\<close> The server (\<^verbatim>\<open>server/src\<close>) loads a configuration, makes or loads a
  certificate, and runs a control port, a file port, an optional proxy and an mDNS announcement. A
  capture callback decides for each input event whether the local system sees it and whether it is
  broadcast. The client (\<^verbatim>\<open>client/src\<close>) finds a server, connects over TLS with the certificate pinned
  on first use, pairs with a PIN, and runs a session loop that injects what it receives. The
  control panel (\<^verbatim>\<open>ui/src/main.rs\<close>) drives the client library from concurrent commands and tasks. All
  of them exchange framed envelopes (\<^verbatim>\<open>common/src/lib.rs\<close>).

  \<^bold>\<open>Theories and sources.\<close>

  \<^item> \<open>Prelude\<close>: byte and word types, the state-and-error monad in which fallible code on a stream is
    written (\<open>bindM\<close> is the question mark operator), the locale \<open>state_order\<close> for what such code keeps.
  \<^item> \<open>Rust_Str\<close>: the string functions of the standard library that the sources use, on UTF-8 bytes.
  \<^item> \<open>Float64\<close>: the IEEE double operations that capture and display scaling use.
  \<^item> \<open>Protocol\<close>: \<^verbatim>\<open>common/src/lib.rs\<close>; the locale \<open>envelope_codec\<close> is the contract of the serialization.
    \<open>Bincode\<close> interprets it with a codec of the published layout; \<open>Channel\<close> joins the writer and the reader
    task of the server with the session loop of the client, over a connection that may break.
  \<^item> \<open>Display\<close>: \<^verbatim>\<open>common/src/display.rs\<close>. \<open>Keys\<close>, \<open>Capture\<close>: \<^verbatim>\<open>server/src/capture.rs\<close>, the state of the
    callback as the record \<open>capture_state\<close>, one function per function of the file. \<open>Hotkey\<close>:
    \<^verbatim>\<open>server/src/hotkey.rs\<close>.
  \<^item> \<open>RateLimit\<close>, \<open>Server\<close>: \<^verbatim>\<open>server/src/server.rs\<close>. The first half of \<open>handle_client\<close> is the function
    \<open>handshake\<close>; registration, messages, ticks, captured events and disconnection are the steps of
    \<open>server_step\<close> on a \<open>world\<close> of connections. \<open>Tasks\<close>: the same tasks cut into their accesses to the
    registry, the flag, the configuration, the limiter and the channels (\<open>exec\<close>), which \<open>task_step\<close>
    interleaves; \<open>Interleaving\<close>: what holds under every interleaving, and two races. \<open>GuessRace\<close>: the
    limiter when connections of one peer are between its question and the verdict at the same time;
    \<open>ControlPort\<close>: the permits of the semaphore, and the log of the comparisons with the PIN that failed. \<open>Keepalive\<close>: the timers of the
    loop of a connection and of the client's session. \<open>ServerConfig\<close>:
    \<^verbatim>\<open>server/src/config.rs\<close>. \<open>Startup\<close>: \<^verbatim>\<open>server/src/main.rs\<close> and \<^verbatim>\<open>server/src/tls.rs\<close>; \<open>Secrets\<close>: the
    permissions of the files these and the configurations are kept in; \<open>AuditLog\<close>: the lines on devices and
    the way to the audit file.
  \<^item> \<open>Socks5\<close>: the handler of \<^verbatim>\<open>server/src/socks5.rs\<close>; \<open>Proxy\<close>: its accept loop, with the handlers cut at
    their accesses to the limiter. \<open>FileTransfer\<close>: the handler of \<^verbatim>\<open>server/src/file_transfer.rs\<close>;
    \<open>FilePort\<close>: its accept loop, with the handlers as steps on one directory whose files have an
    identity of their own.
  \<^item> \<open>Addr\<close>, \<open>ClientConfig\<close>, \<open>Inject\<close>, \<open>Session\<close>, \<open>Reconnect\<close>, \<open>FileSend\<close>, \<open>Discovery\<close>, \<open>ClientMain\<close>: the
    files of \<^verbatim>\<open>client/src\<close>; the certificate verifier of \<^verbatim>\<open>client/src/tls.rs\<close> is in \<open>ClientConfig\<close>, the
    round of the clipboard thread in \<open>Session\<close>, the announcement of \<^verbatim>\<open>server/src/discovery.rs\<close> in
    \<open>Discovery\<close>.
  \<^item> \<open>Ui\<close>: \<^verbatim>\<open>ui/src/main.rs\<close>, the commands and tasks; \<open>PanelDriver\<close>: the reconnect loop of a connection as a
    function; \<open>Panel\<close>: what they tell the frontend.
  \<^item> \<open>Pairing\<close>, \<open>KeyPath\<close> and \<open>ClipboardSync\<close> join the two ends of the protocol: the handshake, typing, and
    the clipboard threads of \<^verbatim>\<open>client/src/clipboard.rs\<close> and of the server.

  \<^bold>\<open>What is shown.\<close>

  \<^item> Wire format: what the server queues reaches the session loop of the client and what that sends
    reaches the reader task, up to where the connection broke; a reader never takes
    more than the limit; a proof answers for one PIN, nonce and device.
  \<^item> Capture: events leave only while forwarding is on, toggles are debounced, forwarded deltas add
    up to the motion across edge warps (in whole pixels, when a warp's own event comes next), releases follow presses, and when the hotkey fires.
  \<^item> Server: each task that is left alone ends in the state that its handler computes in one step; under
    every interleaving of accesses only paired devices get anything, all settled clients get the same
    broadcasts in the same order, no clipboard text leaves when synchronization is off, unpaired connections are bounded by the
    permits, and at most 260 proofs of a peer are compared with the PIN and found wrong in ten minutes; a dead client is dropped within
    16 seconds and a live one is kept; the proxy dials only for authenticated peers, as started from the command
    line, and tells a peer with at most \<open>k\<close> connections at most \<open>k + 4\<close> times in ten minutes that it guessed
    wrong; on Unix, the private key is never readable by others
    in a new file; audit lines show the beginning of a fingerprint only.
  \<^item> Files: what a handler that works alone stores is verified and was offered by a paired device; in every
    interleaving of handlers, files from before the port was opened are kept and the names of the new
    ones are safe; the sender and the receiver together deliver the file; the handler on its own is
    a run of the concurrent port, whose states are well formed and bounded; uploads that keep to
    different paths are all kept, in any interleaving; the search for a free name ends.
  \<^item> Client: an impostor is refused before anything is sent, reconnection keeps to one certificate and
    backs off, the byte loop refines the loop over messages however the frames are cut, as long as
    nothing else happens within a frame, a session leaves no key down, and a dead server is noticed
    within 30 seconds.
  \<^item> Both ends: the handshake ends with the same verdict on both sides; what is typed on the
    server is typed on the client; a text copied on one of two agreeing sides comes to be on both, and
    then nothing is sent.
  \<^item> Control panel: a running session can be stopped, in every interleaving but the one of the race
    at the end of the reconnect loop; its reconnect loop is that of the client; the progress of a file
    is reported in order and its end once.

  A few properties state what the code does where it departs from its documentation or its
  intention (a frame lost to a keepalive tick, input after a release, an orphaned session, uploads
  that meet in one file or choose one name, parallel guesses at the proxy, copies that cross,
  progress reported after the end, a regenerated key that others can read, clients told that forwarding is
  off while it is on, forwarding lost when clients change over, an audit file that stays empty,
  whole fingerprints in the log).

  \<^bold>\<open>External code.\<close> The digest, the serialization, TOML, TLS, mDNS, the clipboard, the file system's
  verdicts, clocks and random numbers are arguments, with the laws a property needs as its
  hypotheses; the witnesses instantiate them. An \<open>arboard\<close>, \<open>enigo\<close> or \<open>rdev\<close> call is an entry in a log or
  an input of the step.

  \<^bold>\<open>Bounds, time and interleaving.\<close> Machine integers keep their width. Every loop is a total function:
  over the bytes that are there (with a measure), over a list of inputs or attempts, or, for the
  search of a free file name, over the finite directory, so no fuel is used. A run of the session
  or reconnect loop on a list of inputs that ends before the loop does is in the state
  \<open>Running\<close> or \<open>StillTrying\<close>. In \<open>Server\<close> a step is what one task does on one message,
  and the handshake is one step on the shared state; in \<open>Tasks\<close> a step is one access to something
  shared: one critical section of the registry, the configuration or the limiter, one atomic
  operation on the flag, one send on a channel; reads and writes of a connection's stream come between
  them and may fail. The clock is an input there, read at each access to the limiter; that it does not go
  back is a condition of the runs about guesses (\<open>logged_run\<close>). In \<open>Keepalive\<close> the
  timers tick at least as often as their period says; in \<open>Ui\<close> it is one access to
  the shared state, in \<open>Proxy\<close> one access to the limiter, in \<open>FilePort\<close> one operation on the directory
  or on an open file (a device is looked up in the configuration of that moment; hashing the partial file counts as one read, the search for a free name as
  one look at the directory), in \<open>ClipboardSync\<close> one poll of a thread or one delivery.

  \<^bold>\<open>Where the model differs.\<close> After an interrupt (\<open>interrupted\<close>) the model may go on accepting
  connections, which the server does not: it has more runs, so what holds of all of them holds of
  the server. The number that \<open>unique_from\<close> tries is unbounded, where the source counts in 64 bits; a
  directory has fewer entries. \<open>path_file_name\<close> splits at the separator of Unix; that it also splits at
  backslashes on Windows is not modelled. \<open>handle_transfer\<close> is a handler that works on the directory alone;
  \<open>FilePort\<close> has the handlers side by side. Keys and configurations are private on Unix only:
  \<open>write_private_key_windows\<close> writes first and restricts afterwards, as the source does.

  \<^bold>\<open>Not modelled.\<close> The relay after a SOCKS5 dial (bytes are copied by \<open>tokio\<close>, under one deadline for
  the whole connection); the access lists that \<^verbatim>\<open>icacls\<close> sets on Windows, of which only the call and
  its failures are here; log lines other than those on devices; the React frontend, build
  scripts and packaging, which have no logic of the protocol.
\<close>

text \<open>
  The pairing handler is one guess of the race: whatever arrives, what it does to the limiter is
  nothing, or what the question and one of the two verdicts do.
\<close>

lemma pairing_is_guess:
  assumes "pair_device env ip name c = (r, c')"
  shows "\<exists>es\<in>{[], [guess_event.Check (he_now env) k ip, Wrong (he_now env) k],
      [guess_event.Check (he_now env) k ip, guess_event.Leave k]}.
    rate_limiter (srv c') = lim (race_run es \<lparr>lim = rate_limiter (srv c), in_flight = [], wrong = ws\<rparr>)"
  using assms
proof (cases rule: pair_device_cases)
  case unchanged
  then show ?thesis by simp
next
  case failed
  then show ?thesis by (simp add: leave_def)
next
  case (added nonce fp pf rest)
  then show ?thesis by (simp add: leave_def accept_new_device_def Let_def)
qed

end
